(* ===== verification/Rust_Prelude.thy ===== *)
theory Rust_Prelude
  imports Main "HOL-Library.Word" "HOL-Library.Sublist" "HOL-Library.List_Lexorder"
    "HOL-Library.Char_ord"
begin

text \<open>
  What the components share: the machine integers of the source as words, the result type of
  fallible code, the parts of Rust's \<open>str\<close> the code uses (\<open>trim\<close>, ASCII case folding,
  \<open>split_once\<close>, \<open>rsplit_once\<close>, \<open>find\<close>, decimal printing and parsing), and hash maps as
  partial functions.

  A Rust \<open>str\<close> is a sequence of UTF-8 bytes; it is modelled as a \<^typ>\<open>string\<close>, one
  \<^typ>\<open>char\<close> per byte, so \<^term>\<open>length\<close> is Rust's \<open>len\<close>.
\<close>

unbundle bit_operations_syntax

type_synonym u8 = "8 word"
type_synonym u16 = "16 word"
type_synonym u32 = "32 word"
type_synonym u64 = "64 word"
type_synonym i32 = "32 word"
type_synonym i64 = "64 word"
type_synonym f64 = "64 word"

named_theorems str_simps

section \<open>Results\<close>

definition rbind :: "'e + 'a \<Rightarrow> ('a \<Rightarrow> 'e + 'b) \<Rightarrow> 'e + 'b" where
  "rbind r f = (case r of Inl e \<Rightarrow> Inl e | Inr x \<Rightarrow> f x)"

lemma rbind_simps [simp]:
  "rbind (Inl e) f = Inl e"
  "rbind (Inr x) f = f x"
  by (simp_all add: rbind_def)

lemma rbind_eq_Inr [simp]: "rbind r f = Inr y \<longleftrightarrow> (\<exists>x. r = Inr x \<and> f x = Inr y)"
  by (cases r) simp_all

lemma rbind_eq_Inl: "rbind r f = Inl e \<longleftrightarrow> r = Inl e \<or> (\<exists>x. r = Inr x \<and> f x = Inl e)"
  by (cases r) simp_all

lemma option_filter_eqI:
  assumes "\<And>r. x = Some r \<longleftrightarrow> y = Some r \<and> \<not> P r"
  shows "x = (case y of None \<Rightarrow> None | Some v \<Rightarrow> if P v then None else Some v)"
proof (cases x)
  case None
  with assms [of "the y"] show ?thesis by (cases y) auto
next
  case (Some r)
  with assms [of r] show ?thesis by simp
qed

lemma map_of_rev_const:
  "map_of (rev (map (\<lambda>d. (f d, v)) ds)) k = (if k \<in> f ` set ds then Some v else None)"
  by (induction ds) (auto simp: map_add_def)

section \<open>Strings\<close>

subsection \<open>Trimming\<close>

text \<open>
  \<open>str::trim\<close> removes the characters with the Unicode property White\_Space. On UTF-8 bytes these
  are six ASCII bytes, two sequences of two bytes (U+0085, U+00A0) and the sequences of three
  bytes for U+1680, U+2000 to U+200A, U+2028, U+2029, U+202F, U+205F and U+3000.
\<close>

definition ws1 :: "char \<Rightarrow> bool" where
  "ws1 a \<longleftrightarrow> a \<in> {CHR 0x09, CHR 0x0A, CHR 0x0B, CHR 0x0C, CHR 0x0D, CHR 0x20}"

definition ws2 :: "char \<Rightarrow> char \<Rightarrow> bool" where
  "ws2 a b \<longleftrightarrow> a = CHR 0xC2 \<and> (b = CHR 0x85 \<or> b = CHR 0xA0)"

definition ws3 :: "char \<Rightarrow> char \<Rightarrow> char \<Rightarrow> bool" where
  "ws3 a b c \<longleftrightarrow>
     a = CHR 0xE1 \<and> b = CHR 0x9A \<and> c = CHR 0x80 \<or>
     a = CHR 0xE2 \<and> b = CHR 0x80 \<and>
       c \<in> {CHR 0x80, CHR 0x81, CHR 0x82, CHR 0x83, CHR 0x84, CHR 0x85, CHR 0x86, CHR 0x87,
            CHR 0x88, CHR 0x89, CHR 0x8A, CHR 0xA8, CHR 0xA9, CHR 0xAF} \<or>
     a = CHR 0xE2 \<and> b = CHR 0x81 \<and> c = CHR 0x9F \<or>
     a = CHR 0xE3 \<and> b = CHR 0x80 \<and> c = CHR 0x80"

text \<open>The length in bytes of the white-space character at the front (0: there is none), and the
  same for the reversed bytes, which is the white-space character at the end.\<close>

fun ws_len :: "string \<Rightarrow> nat" where
  "ws_len [] = 0"
| "ws_len [a] = (if ws1 a then 1 else 0)"
| "ws_len [a, b] = (if ws1 a then 1 else if ws2 a b then 2 else 0)"
| "ws_len (a # b # c # s) = (if ws1 a then 1 else if ws2 a b then 2 else if ws3 a b c then 3 else 0)"

fun ws_len_rev :: "string \<Rightarrow> nat" where
  "ws_len_rev [] = 0"
| "ws_len_rev [a] = (if ws1 a then 1 else 0)"
| "ws_len_rev [a, b] = (if ws1 a then 1 else if ws2 b a then 2 else 0)"
| "ws_len_rev (a # b # c # s) =
     (if ws1 a then 1 else if ws2 b a then 2 else if ws3 c b a then 3 else 0)"

function strip_by :: "(string \<Rightarrow> nat) \<Rightarrow> string \<Rightarrow> string" where
  "strip_by f s = (if s = [] \<or> f s = 0 then s else strip_by f (drop (f s) s))"
  by pat_completeness auto
termination
  by (relation "measure (\<lambda>(f, s). length s)") auto

declare strip_by.simps [simp del]

definition trim_start :: "string \<Rightarrow> string" where
  "trim_start s = strip_by ws_len s"

definition trim_end :: "string \<Rightarrow> string" where
  "trim_end s = rev (strip_by ws_len_rev (rev s))"

definition trim :: "string \<Rightarrow> string" where
  "trim s = trim_end (trim_start s)"

text \<open>\<open>trim_end_matches\<close> and \<open>trim_start_matches\<close> with a set of ASCII characters.\<close>

definition trim_start_matches :: "char list \<Rightarrow> string \<Rightarrow> string" where
  "trim_start_matches cs s = dropWhile (\<lambda>c. c \<in> set cs) s"

definition trim_end_matches :: "char list \<Rightarrow> string \<Rightarrow> string" where
  "trim_end_matches cs s = rev (dropWhile (\<lambda>c. c \<in> set cs) (rev s))"

subsection \<open>ASCII case\<close>

definition ascii_lower :: "char \<Rightarrow> char" where
  "ascii_lower c =
     (if 65 \<le> (of_char c :: nat) \<and> (of_char c :: nat) \<le> 90
      then char_of ((of_char c :: nat) + 32) else c)"

definition to_ascii_lowercase :: "string \<Rightarrow> string" where
  "to_ascii_lowercase s = map ascii_lower s"

definition eq_ignore_ascii_case :: "string \<Rightarrow> string \<Rightarrow> bool" where
  "eq_ignore_ascii_case a b \<longleftrightarrow> to_ascii_lowercase a = to_ascii_lowercase b"

subsection \<open>Searching and splitting\<close>

fun strip_prefix :: "string \<Rightarrow> string \<Rightarrow> string option" where
  "strip_prefix [] s = Some s"
| "strip_prefix (p # ps) [] = None"
| "strip_prefix (p # ps) (c # s) = (if p = c then strip_prefix ps s else None)"

fun split_once :: "char \<Rightarrow> string \<Rightarrow> (string \<times> string) option" where
  "split_once d [] = None"
| "split_once d (c # s) =
     (if c = d then Some ([], s) else map_option (\<lambda>(a, b). (c # a, b)) (split_once d s))"

definition rsplit_once :: "char \<Rightarrow> string \<Rightarrow> (string \<times> string) option" where
  "rsplit_once d s = map_option (\<lambda>(a, b). (rev b, rev a)) (split_once d (rev s))"

fun find_str :: "string \<Rightarrow> string \<Rightarrow> nat option" where
  "find_str p [] = (if p = [] then Some 0 else None)"
| "find_str p (c # s) = (if prefix p (c # s) then Some 0 else map_option Suc (find_str p s))"

definition contains_str :: "string \<Rightarrow> string \<Rightarrow> bool" where
  "contains_str p s \<longleftrightarrow> find_str p s \<noteq> None"

fun join_with :: "string \<Rightarrow> string list \<Rightarrow> string" where
  "join_with sep [] = []"
| "join_with sep [s] = s"
| "join_with sep (s # t # ss) = s @ sep @ join_with sep (t # ss)"

subsection \<open>Decimal numbers\<close>

definition digit_char :: "nat \<Rightarrow> char" where
  "digit_char d = char_of (48 + d)"

definition is_digit :: "char \<Rightarrow> bool" where
  "is_digit c \<longleftrightarrow> 48 \<le> (of_char c :: nat) \<and> (of_char c :: nat) \<le> 57"

definition digit_val :: "char \<Rightarrow> nat" where
  "digit_val c = of_char c - 48"

fun nat_to_string :: "nat \<Rightarrow> string" where
  "nat_to_string n =
     (if n < 10 then [digit_char n] else nat_to_string (n div 10) @ [digit_char (n mod 10)])"

declare nat_to_string.simps [simp del]

definition int_to_string :: "int \<Rightarrow> string" where
  "int_to_string i = (if i < 0 then ''-'' @ nat_to_string (nat (- i)) else nat_to_string (nat i))"

definition dec_val :: "string \<Rightarrow> nat" where
  "dec_val s = fold (\<lambda>c n. 10 * n + digit_val c) s 0"

text \<open>\<open>u16::from_str\<close>: an optional plus sign, at least one digit, only digits, no overflow.\<close>

definition parse_u16 :: "string \<Rightarrow> u16 option" where
  "parse_u16 s =
     (let t = (case strip_prefix ''+'' s of Some r \<Rightarrow> r | None \<Rightarrow> s)
      in if t \<noteq> [] \<and> list_all is_digit t \<and> dec_val t < 65536 then Some (of_nat (dec_val t))
         else None)"


lemmas str_eval [str_simps] =
  trim_def trim_start_def trim_end_def ws1_def ws2_def ws3_def
  trim_start_matches_def trim_end_matches_def
  to_ascii_lowercase_def ascii_lower_def eq_ignore_ascii_case_def
  rsplit_once_def contains_str_def
  int_to_string_def
  parse_u16_def dec_val_def is_digit_def digit_val_def

section \<open>Facts about trimming\<close>

lemma strip_by_fix: "s = [] \<or> f s = 0 \<Longrightarrow> strip_by f s = s"
  by (subst strip_by.simps) simp

lemma strip_by_eval [str_simps]:
  "f s = 0 \<Longrightarrow> strip_by f s = s"
  "f s \<noteq> 0 \<Longrightarrow> s \<noteq> [] \<Longrightarrow> strip_by f s = strip_by f (drop (f s) s)"
  by (subst strip_by.simps, simp)+

lemma digit_char_eval [str_simps]:
  "digit_char 0 = CHR ''0''" "digit_char 1 = CHR ''1''" "digit_char (Suc 0) = CHR ''1''"
  "digit_char 2 = CHR ''2''" "digit_char 3 = CHR ''3''" "digit_char 4 = CHR ''4''"
  "digit_char 5 = CHR ''5''" "digit_char 6 = CHR ''6''" "digit_char 7 = CHR ''7''"
  "digit_char 8 = CHR ''8''" "digit_char 9 = CHR ''9''"
  by (simp_all add: digit_char_def of_char_of flip: of_char_eq_iff [where ?'a = nat])

lemma nat_to_string_eval [str_simps]:
  "n < 10 \<Longrightarrow> nat_to_string n = [digit_char n]"
  "\<not> n < 10 \<Longrightarrow> nat_to_string n = nat_to_string (n div 10) @ [digit_char (n mod 10)]"
  by (subst nat_to_string.simps, simp)+

lemma strip_by_Nil [simp]: "strip_by f [] = []"
  by (simp add: strip_by_fix)

lemma strip_by_stops: "strip_by f s = [] \<or> f (strip_by f s) = 0"
  by (induction f s rule: strip_by.induct) (subst strip_by.simps, subst (2) strip_by.simps, auto)

lemma suffix_strip_by: "suffix (strip_by f s) s"
proof (induction f s rule: strip_by.induct)
  case (1 f s)
  show ?case
  proof (cases "s = [] \<or> f s = 0")
    case True
    then show ?thesis by (simp add: strip_by_fix)
  next
    case False
    with "1.IH" have "suffix (strip_by f (drop (f s) s)) (drop (f s) s)" by simp
    with False show ?thesis
      by (subst strip_by.simps) (auto intro: suffix_order.trans suffix_drop)
  qed
qed

lemma ws_len_Nil_or: "ws_len s = 0 \<Longrightarrow> prefix p s \<Longrightarrow> ws_len p = 0"
  by (cases s rule: ws_len.cases; cases p rule: ws_len.cases) (auto split: if_splits)

lemma ws_len_trim_start: "ws_len (trim_start s) = 0"
  using strip_by_stops [of ws_len s] by (auto simp: trim_start_def)

lemma prefix_trim_end: "prefix (trim_end s) s"
  using suffix_strip_by [of ws_len_rev "rev s"] by (simp add: trim_end_def suffix_to_prefix)

lemma ws_len_trim: "ws_len (trim s) = 0"
  using ws_len_Nil_or [OF ws_len_trim_start prefix_trim_end] by (simp add: trim_def)

lemma ws_len_rev_trim: "ws_len_rev (rev (trim s)) = 0"
  using strip_by_stops [of ws_len_rev "rev (trim_start s)"] by (auto simp: trim_def trim_end_def)

lemma trim_fix: "ws_len s = 0 \<Longrightarrow> ws_len_rev (rev s) = 0 \<Longrightarrow> trim s = s"
  by (simp add: trim_def trim_start_def trim_end_def strip_by_fix)

lemma trim_trim [simp]: "trim (trim s) = trim s"
  by (rule trim_fix) (rule ws_len_trim ws_len_rev_trim)+

lemma trim_Nil [simp]: "trim [] = []"
  by (simp add: trim_fix)

lemma length_trim_le: "length (trim s) \<le> length s"
proof -
  have "length (trim s) \<le> length (trim_start s)"
    unfolding trim_def by (rule prefix_length_le [OF prefix_trim_end])
  also have "\<dots> \<le> length s"
    unfolding trim_start_def by (rule suffix_length_le [OF suffix_strip_by])
  finally show ?thesis .
qed

section \<open>Facts about case folding, splitting and decimals\<close>

lemma of_char_less_256: "(of_char c :: nat) < 256"
  using of_char_mod_256 [of c, where ?'a = nat] by (metis mod_less_divisor zero_less_numeral)

lemma ascii_lower_ascii_lower [simp]: "ascii_lower (ascii_lower c) = ascii_lower c"
  by (simp add: ascii_lower_def of_char_of)

lemma to_ascii_lowercase_idem [simp]:
  "to_ascii_lowercase (to_ascii_lowercase s) = to_ascii_lowercase s"
  by (simp add: to_ascii_lowercase_def)

lemma length_to_ascii_lowercase [simp]: "length (to_ascii_lowercase s) = length s"
  by (simp add: to_ascii_lowercase_def)

lemma to_ascii_lowercase_Nil [simp]: "to_ascii_lowercase s = [] \<longleftrightarrow> s = []"
  by (simp add: to_ascii_lowercase_def)

lemma strip_prefix_Some: "strip_prefix p s = Some r \<longleftrightarrow> s = p @ r"
  by (induction p s rule: strip_prefix.induct) auto

lemma split_once_Some: "split_once d s = Some (a, b) \<longleftrightarrow> s = a @ d # b \<and> d \<notin> set a"
proof (induction s arbitrary: a)
  case Nil
  show ?case by simp
next
  case (Cons c s)
  show ?case
  proof (cases a)
    case Nil
    then show ?thesis by auto
  next
    case (Cons x xs)
    with Cons.IH [of xs] show ?thesis by auto
  qed
qed

lemma split_once_None: "split_once d s = None \<longleftrightarrow> d \<notin> set s"
  by (induction s) auto

lemma rsplit_once_Some: "rsplit_once d s = Some (a, b) \<longleftrightarrow> s = a @ d # b \<and> d \<notin> set b"
proof -
  have "rsplit_once d s = Some (a, b) \<longleftrightarrow> split_once d (rev s) = Some (rev b, rev a)"
    by (auto simp: rsplit_once_def)
  also have "\<dots> \<longleftrightarrow> rev s = rev b @ d # rev a \<and> d \<notin> set b"
    by (simp add: split_once_Some)
  also have "rev s = rev b @ d # rev a \<longleftrightarrow> s = a @ d # b"
    by (metis append.assoc append_Cons append_Nil rev.simps(2) rev_append rev_rev_ident)
  finally show ?thesis .
qed

lemma rsplit_once_None: "rsplit_once d s = None \<longleftrightarrow> d \<notin> set s"
  by (simp add: rsplit_once_def split_once_None)

lemma of_char_digit_char: "d < 10 \<Longrightarrow> (of_char (digit_char d) :: nat) = 48 + d"
  by (simp add: digit_char_def of_char_of)

lemma is_digit_digit_char: "d < 10 \<Longrightarrow> is_digit (digit_char d)"
  by (simp add: is_digit_def of_char_digit_char)

lemma digit_val_digit_char: "d < 10 \<Longrightarrow> digit_val (digit_char d) = d"
  by (simp add: digit_val_def of_char_digit_char)

lemma dec_val_snoc: "dec_val (s @ [c]) = 10 * dec_val s + digit_val c"
  by (simp add: dec_val_def)

lemma nat_to_string_digits: "list_all is_digit (nat_to_string n)"
proof (induction n rule: nat_to_string.induct)
  case (1 n)
  then show ?case
    by (subst nat_to_string.simps) (simp add: is_digit_digit_char)
qed

lemma nat_to_string_not_Nil [simp]: "nat_to_string n \<noteq> []"
  by (subst nat_to_string.simps) simp

lemma dec_val_nat_to_string [simp]: "dec_val (nat_to_string n) = n"
proof (induction n rule: nat_to_string.induct)
  case (1 n)
  show ?case
  proof (cases "n < 10")
    case True
    then show ?thesis
      by (subst nat_to_string.simps) (simp add: dec_val_def digit_val_digit_char)
  next
    case False
    with "1.IH" show ?thesis
      by (subst nat_to_string.simps) (simp add: dec_val_snoc digit_val_digit_char)
  qed
qed

lemma digit_not_plus: "is_digit c \<Longrightarrow> c \<noteq> CHR ''+''"
  by (auto simp: is_digit_def)

lemma parse_u16_nat_to_string [simp]: "n < 65536 \<Longrightarrow> parse_u16 (nat_to_string n) = Some (of_nat n)"
proof -
  assume n: "n < 65536"
  obtain c s where cs: "nat_to_string n = c # s"
    by (cases "nat_to_string n") auto
  have "is_digit c" using nat_to_string_digits [of n] cs by simp
  then have "strip_prefix ''+'' (nat_to_string n) = None"
    using digit_not_plus cs by auto
  with n show ?thesis by (simp add: parse_u16_def nat_to_string_digits)
qed

section \<open>Framed byte streams\<close>

text \<open>
  The contract of a self-delimiting encoding on a byte stream: decoding the encoding of a valid
  value gives the value back and leaves exactly what follows it. A stream of such encodings then
  has one reading only.
\<close>

locale framed_codec =
  fixes enc :: "'m \<Rightarrow> 'b list"
    and dec :: "'b list \<Rightarrow> 'e + 'm \<times> 'b list"
    and ok :: "'m \<Rightarrow> bool"
  assumes dec_enc: "ok m \<Longrightarrow> dec (enc m @ rest) = Inr (m, rest)"
    and enc_nonempty: "ok m \<Longrightarrow> enc m \<noteq> []"
begin

lemma enc_append_inject:
  assumes "ok m" and "ok m'" and "enc m @ r = enc m' @ r'"
  shows "m = m' \<and> r = r'"
proof -
  have "Inr (m, r) = dec (enc m @ r)" by (rule dec_enc [OF assms(1), symmetric])
  also have "\<dots> = dec (enc m' @ r')" by (simp only: assms(3))
  also have "\<dots> = Inr (m', r')" by (rule dec_enc [OF assms(2)])
  finally show ?thesis by simp
qed

lemma stream_inject:
  assumes "list_all ok ms" and "list_all ok ms'"
    and "concat (map enc ms) = concat (map enc ms')"
  shows "ms = ms'"
  using assms
proof (induction ms arbitrary: ms')
  case Nil
  then show ?case by (cases ms') (auto simp: enc_nonempty)
next
  case (Cons m ms)
  from Cons.prems have "concat (map enc ms') \<noteq> []"
    using enc_nonempty [of m] by (metis append_is_Nil_conv concat.simps(2) list.pred_inject(2) list.simps(9))
  then obtain n ns where ms': "ms' = n # ns" by (cases ms') simp_all
  have "m = n \<and> concat (map enc ms) = concat (map enc ns)"
    by (rule enc_append_inject) (use Cons.prems ms' in simp_all)
  with Cons.prems ms' Cons.IH [of ns] show ?case by simp
qed

end

section \<open>Runs\<close>

text \<open>A sequence of operations on a state, with the result of each: the interleaving of the calls
  that several tasks make on a structure behind a mutex.\<close>

fun run_ops :: "('s \<Rightarrow> 'e \<Rightarrow> 'r \<times> 's) \<Rightarrow> 's \<Rightarrow> 'e list \<Rightarrow> 'r list \<times> 's" where
  "run_ops f s [] = ([], s)"
| "run_ops f s (e # es) =
     (let (r, s') = f s e; (rs, s'') = run_ops f s' es in (r # rs, s''))"

lemma run_ops_Cons:
  "run_ops f s (e # es) =
     (fst (f s e) # fst (run_ops f (snd (f s e)) es), snd (run_ops f (snd (f s e)) es))"
  by (simp add: case_prod_beta Let_def)

lemma length_run_ops [simp]: "length (fst (run_ops f s es)) = length es"
  by (induction es arbitrary: s) (simp_all add: run_ops_Cons del: run_ops.simps(2))

lemma run_ops_invariant:
  assumes "\<And>s e. e \<in> set es \<Longrightarrow> I s \<Longrightarrow> I (snd (f s e))" and "I s"
  shows "I (snd (run_ops f s es))"
  using assms
  by (induction es arbitrary: s) (simp_all add: run_ops_Cons del: run_ops.simps(2))

lemma run_ops_nth:
  "i < length es \<Longrightarrow> \<exists>s'. fst (run_ops f s es) ! i = fst (f s' (es ! i))"
proof (induction es arbitrary: s i)
  case Nil
  then show ?case by simp
next
  case (Cons e es)
  then show ?case
    by (cases i) (auto simp: run_ops_Cons simp del: run_ops.simps(2))
qed

end
