(* ===== verification/Message_Codec.thy ===== *)
theory Message_Codec
  imports Rust_Prelude
begin

text \<open>
  The control protocol of \<open>core/src/msg\<close>: the message structs of \<open>types.rs\<close> as records, the
  \<open>Message\<close> enum, its type bytes, and the framing of \<open>codec.rs\<close> (one type byte, the body length
  as a little-endian 32-bit integer, the JSON body).

  \<open>serde_json\<close> is not part of the repository: its encoders and decoders are the fields of the
  record \<open>serde\<close>, an argument of the operations. A floating-point field is kept as its bit
  pattern. A reader is the list of bytes still to come before the end of the stream; a writer is
  a \<open>sink\<close> that may stop accepting bytes at any point, so that an I/O error can happen in the
  middle of a frame.
\<close>

section \<open>The messages\<close>


record Login =
  login_version :: string
  login_hostname :: string
  login_os :: string
  login_arch :: string
  login_user :: string
  login_agent_id :: string
  login_auth_digest :: string
  login_timestamp :: i64
  login_session_id :: string
  login_pool_count :: i32

record LoginResp =
  lr_version :: string
  lr_session_id :: string
  lr_error :: string

record NewTunnel =
  nt_tunnel_name :: string
  nt_protocol :: string
  nt_remote_port :: i32
  nt_local_ip :: string
  nt_local_port :: i32
  nt_domains :: "string list"
  nt_locations :: "string list"
  nt_basic_auth_user :: string
  nt_basic_auth_password :: string
  nt_host_header_rewrite :: string
  nt_headers :: "string \<rightharpoonup> string"
  nt_response_headers :: "string \<rightharpoonup> string"
  nt_bandwidth :: f64
  nt_bandwidth_limit_side :: string

record NewTunnelResp =
  ntr_tunnel_name :: string
  ntr_remote_addr :: string
  ntr_error :: string

record CloseTunnel =
  ct_tunnel_name :: string

record NewDataConn =
  ndc_session_id :: string
  ndc_auth_digest :: string
  ndc_timestamp :: i64

record StartDataConn =
  sdc_tunnel_name :: string
  sdc_src_addr :: string
  sdc_src_port :: u16
  sdc_dst_addr :: string
  sdc_dst_port :: u16
  sdc_error :: string

record Ping =
  ping_auth_digest :: string
  ping_timestamp :: i64

record Pong =
  pong_error :: string

record KickOut =
  ko_reason :: string

record UdpSocketAddr =
  usa_ip :: string
  usa_port :: u16

record UdpPacket =
  up_content :: "u8 list"
  up_local_addr :: "UdpSocketAddr option"
  up_remote_addr :: "UdpSocketAddr option"

datatype Message =
    Login Login
  | LoginResp LoginResp
  | NewTunnel NewTunnel
  | NewTunnelResp NewTunnelResp
  | CloseTunnel CloseTunnel
  | ReqDataConn
  | NewDataConn NewDataConn
  | StartDataConn StartDataConn
  | Ping Ping
  | Pong Pong
  | UdpPacket UdpPacket
  | KickOut KickOut

definition TYPE_LOGIN :: u8 where "TYPE_LOGIN = 65"
definition TYPE_LOGIN_RESP :: u8 where "TYPE_LOGIN_RESP = 97"
definition TYPE_NEW_TUNNEL :: u8 where "TYPE_NEW_TUNNEL = 84"
definition TYPE_NEW_TUNNEL_RESP :: u8 where "TYPE_NEW_TUNNEL_RESP = 116"
definition TYPE_CLOSE_TUNNEL :: u8 where "TYPE_CLOSE_TUNNEL = 88"
definition TYPE_NEW_DATA_CONN :: u8 where "TYPE_NEW_DATA_CONN = 87"
definition TYPE_REQ_DATA_CONN :: u8 where "TYPE_REQ_DATA_CONN = 81"
definition TYPE_START_DATA_CONN :: u8 where "TYPE_START_DATA_CONN = 83"
definition TYPE_PING :: u8 where "TYPE_PING = 71"
definition TYPE_PONG :: u8 where "TYPE_PONG = 103"
definition TYPE_UDP_PACKET :: u8 where "TYPE_UDP_PACKET = 68"
definition TYPE_KICK_OUT :: u8 where "TYPE_KICK_OUT = 69"

lemmas type_defs =
  TYPE_LOGIN_def TYPE_LOGIN_RESP_def TYPE_NEW_TUNNEL_def TYPE_NEW_TUNNEL_RESP_def
  TYPE_CLOSE_TUNNEL_def TYPE_NEW_DATA_CONN_def TYPE_REQ_DATA_CONN_def TYPE_START_DATA_CONN_def
  TYPE_PING_def TYPE_PONG_def TYPE_UDP_PACKET_def TYPE_KICK_OUT_def

fun type_byte :: "Message \<Rightarrow> u8" where
  "type_byte (Login _) = TYPE_LOGIN"
| "type_byte (LoginResp _) = TYPE_LOGIN_RESP"
| "type_byte (NewTunnel _) = TYPE_NEW_TUNNEL"
| "type_byte (NewTunnelResp _) = TYPE_NEW_TUNNEL_RESP"
| "type_byte (CloseTunnel _) = TYPE_CLOSE_TUNNEL"
| "type_byte ReqDataConn = TYPE_REQ_DATA_CONN"
| "type_byte (NewDataConn _) = TYPE_NEW_DATA_CONN"
| "type_byte (StartDataConn _) = TYPE_START_DATA_CONN"
| "type_byte (Ping _) = TYPE_PING"
| "type_byte (Pong _) = TYPE_PONG"
| "type_byte (UdpPacket _) = TYPE_UDP_PACKET"
| "type_byte (KickOut _) = TYPE_KICK_OUT"

section \<open>Errors, readers and writers\<close>

datatype io_error = UnexpectedEof | WriteFailed

datatype 'j read_error = ReadIo io_error | ReadJson 'j | UnknownType u8 | TooLarge u32

datatype 'j write_error = WriteIo io_error | WriteJson 'j

record 'j serde =
  to_vec_Login :: "Login \<Rightarrow> 'j + u8 list"
  to_vec_LoginResp :: "LoginResp \<Rightarrow> 'j + u8 list"
  to_vec_NewTunnel :: "NewTunnel \<Rightarrow> 'j + u8 list"
  to_vec_NewTunnelResp :: "NewTunnelResp \<Rightarrow> 'j + u8 list"
  to_vec_CloseTunnel :: "CloseTunnel \<Rightarrow> 'j + u8 list"
  to_vec_ReqDataConn :: "'j + u8 list"
  to_vec_NewDataConn :: "NewDataConn \<Rightarrow> 'j + u8 list"
  to_vec_StartDataConn :: "StartDataConn \<Rightarrow> 'j + u8 list"
  to_vec_Ping :: "Ping \<Rightarrow> 'j + u8 list"
  to_vec_Pong :: "Pong \<Rightarrow> 'j + u8 list"
  to_vec_UdpPacket :: "UdpPacket \<Rightarrow> 'j + u8 list"
  to_vec_KickOut :: "KickOut \<Rightarrow> 'j + u8 list"
  from_slice_Login :: "u8 list \<Rightarrow> 'j + Login"
  from_slice_LoginResp :: "u8 list \<Rightarrow> 'j + LoginResp"
  from_slice_NewTunnel :: "u8 list \<Rightarrow> 'j + NewTunnel"
  from_slice_NewTunnelResp :: "u8 list \<Rightarrow> 'j + NewTunnelResp"
  from_slice_CloseTunnel :: "u8 list \<Rightarrow> 'j + CloseTunnel"
  from_slice_ReqDataConn :: "u8 list \<Rightarrow> 'j + unit"
  from_slice_NewDataConn :: "u8 list \<Rightarrow> 'j + NewDataConn"
  from_slice_StartDataConn :: "u8 list \<Rightarrow> 'j + StartDataConn"
  from_slice_Ping :: "u8 list \<Rightarrow> 'j + Ping"
  from_slice_Pong :: "u8 list \<Rightarrow> 'j + Pong"
  from_slice_UdpPacket :: "u8 list \<Rightarrow> 'j + UdpPacket"
  from_slice_KickOut :: "u8 list \<Rightarrow> 'j + KickOut"

text \<open>A writer: the bytes written so far and how many more it takes before it fails
  (\<^const>\<open>None\<close>: it never fails).\<close>

record sink =
  sink_out :: "u8 list"
  sink_room :: "nat option"

definition write_all :: "sink \<Rightarrow> u8 list \<Rightarrow> bool \<times> sink" where
  "write_all w bs =
     (case sink_room w of
        None \<Rightarrow> (True, w\<lparr>sink_out := sink_out w @ bs\<rparr>)
      | Some r \<Rightarrow>
          if length bs \<le> r
          then (True, w\<lparr>sink_out := sink_out w @ bs, sink_room := Some (r - length bs)\<rparr>)
          else (False, w\<lparr>sink_out := sink_out w @ take r bs, sink_room := Some 0\<rparr>))"

definition u32_to_le :: "u32 \<Rightarrow> u8 list" where
  "u32_to_le n = [ucast n, ucast (drop_bit 8 n), ucast (drop_bit 16 n), ucast (drop_bit 24 n)]"

definition u32_of_le :: "u8 \<Rightarrow> u8 \<Rightarrow> u8 \<Rightarrow> u8 \<Rightarrow> u32" where
  "u32_of_le a b c d =
     ucast a OR push_bit 8 (ucast b) OR push_bit 16 (ucast c) OR push_bit 24 (ucast d)"

definition MAX_MSG_SIZE :: u32 where
  "MAX_MSG_SIZE = 4 * 1024 * 1024"

section \<open>Writing and reading a message\<close>

fun encode_body :: "'j serde \<Rightarrow> Message \<Rightarrow> 'j + u8 list" where
  "encode_body J (Login m) = to_vec_Login J m"
| "encode_body J (LoginResp m) = to_vec_LoginResp J m"
| "encode_body J (NewTunnel m) = to_vec_NewTunnel J m"
| "encode_body J (NewTunnelResp m) = to_vec_NewTunnelResp J m"
| "encode_body J (CloseTunnel m) = to_vec_CloseTunnel J m"
| "encode_body J ReqDataConn = to_vec_ReqDataConn J"
| "encode_body J (NewDataConn m) = to_vec_NewDataConn J m"
| "encode_body J (StartDataConn m) = to_vec_StartDataConn J m"
| "encode_body J (Ping m) = to_vec_Ping J m"
| "encode_body J (Pong m) = to_vec_Pong J m"
| "encode_body J (UdpPacket m) = to_vec_UdpPacket J m"
| "encode_body J (KickOut m) = to_vec_KickOut J m"

text \<open>\<open>body.len() as u32\<close> keeps the low 32 bits of the length: \<^const>\<open>of_nat\<close> at width 32.\<close>

definition write_msg :: "'j serde \<Rightarrow> sink \<Rightarrow> Message \<Rightarrow> ('j write_error + unit) \<times> sink" where
  "write_msg J w msg =
     (case encode_body J msg of
        Inl e \<Rightarrow> (Inl (WriteJson e), w)
      | Inr body \<Rightarrow>
          (case write_all w [type_byte msg] of
             (False, w1) \<Rightarrow> (Inl (WriteIo WriteFailed), w1)
           | (True, w1) \<Rightarrow>
               (case write_all w1 (u32_to_le (of_nat (length body))) of
                  (False, w2) \<Rightarrow> (Inl (WriteIo WriteFailed), w2)
                | (True, w2) \<Rightarrow>
                    (case write_all w2 body of
                       (False, w3) \<Rightarrow> (Inl (WriteIo WriteFailed), w3)
                     | (True, w3) \<Rightarrow> (Inr (), w3)))))"

definition lift_json :: "('a \<Rightarrow> Message) \<Rightarrow> 'j + 'a \<Rightarrow> 'j read_error + Message" where
  "lift_json f r = (case r of Inl e \<Rightarrow> Inl (ReadJson e) | Inr m \<Rightarrow> Inr (f m))"

definition decode_body :: "'j serde \<Rightarrow> u8 \<Rightarrow> u8 list \<Rightarrow> 'j read_error + Message" where
  "decode_body J ty buf =
     (if ty = TYPE_LOGIN then lift_json Login (from_slice_Login J buf)
      else if ty = TYPE_LOGIN_RESP then lift_json LoginResp (from_slice_LoginResp J buf)
      else if ty = TYPE_NEW_TUNNEL then lift_json NewTunnel (from_slice_NewTunnel J buf)
      else if ty = TYPE_NEW_TUNNEL_RESP
        then lift_json NewTunnelResp (from_slice_NewTunnelResp J buf)
      else if ty = TYPE_CLOSE_TUNNEL then lift_json CloseTunnel (from_slice_CloseTunnel J buf)
      else if ty = TYPE_REQ_DATA_CONN
        then lift_json (\<lambda>_. ReqDataConn) (from_slice_ReqDataConn J buf)
      else if ty = TYPE_NEW_DATA_CONN then lift_json NewDataConn (from_slice_NewDataConn J buf)
      else if ty = TYPE_START_DATA_CONN
        then lift_json StartDataConn (from_slice_StartDataConn J buf)
      else if ty = TYPE_PING then lift_json Ping (from_slice_Ping J buf)
      else if ty = TYPE_PONG then lift_json Pong (from_slice_Pong J buf)
      else if ty = TYPE_UDP_PACKET then lift_json UdpPacket (from_slice_UdpPacket J buf)
      else if ty = TYPE_KICK_OUT then lift_json KickOut (from_slice_KickOut J buf)
      else Inl (UnknownType ty))"

text \<open>The reader after a successful read is returned with the message.\<close>

fun read_msg :: "'j serde \<Rightarrow> u8 list \<Rightarrow> 'j read_error + Message \<times> u8 list" where
  "read_msg J (ty # l0 # l1 # l2 # l3 # input) =
     (let len = u32_of_le l0 l1 l2 l3
      in if len > MAX_MSG_SIZE then Inl (TooLarge len)
         else if length input < unat len then Inl (ReadIo UnexpectedEof)
         else (case decode_body J ty (take (unat len) input) of
                 Inl e \<Rightarrow> Inl e
               | Inr m \<Rightarrow> Inr (m, drop (unat len) input)))"
| "read_msg J _ = Inl (ReadIo UnexpectedEof)"


section \<open>Frames\<close>

text \<open>The bytes of a message whose body is known, and the predicate that a message is within the
  reader's size limit and survives the JSON library: its body, decoded under its own type byte,
  is the message again. The JSON round trip is a fact about the library for this message; it fails
  for instance for a bandwidth that is not a number.\<close>

definition frame_of :: "Message \<Rightarrow> u8 list \<Rightarrow> u8 list" where
  "frame_of m body = type_byte m # u32_to_le (of_nat (length body)) @ body"

definition json_faithful :: "'j serde \<Rightarrow> Message \<Rightarrow> bool" where
  "json_faithful J m \<longleftrightarrow>
     (\<forall>body. encode_body J m = Inr body \<longrightarrow> decode_body J (type_byte m) body = Inr m)"

definition sendable :: "'j serde \<Rightarrow> Message \<Rightarrow> bool" where
  "sendable J m \<longleftrightarrow>
     (case encode_body J m of
        Inl _ \<Rightarrow> False
      | Inr body \<Rightarrow> length body \<le> unat MAX_MSG_SIZE \<and> json_faithful J m)"

definition has_room :: "sink \<Rightarrow> nat \<Rightarrow> bool" where
  "has_room w n \<longleftrightarrow> (case sink_room w of None \<Rightarrow> True | Some r \<Rightarrow> n \<le> r)"

definition frame :: "'j serde \<Rightarrow> Message \<Rightarrow> u8 list" where
  "frame J m = (case encode_body J m of Inl _ \<Rightarrow> [] | Inr body \<Rightarrow> frame_of m body)"

lemma u32_of_le_to_le [simp]:
  "u32_of_le (ucast n) (ucast (drop_bit 8 n)) (ucast (drop_bit 16 n)) (ucast (drop_bit 24 n)) = n"
  unfolding u32_of_le_def
proof (rule bit_word_eqI)
  fix i assume "i < LENGTH(32)"
  then consider "i < 8" | "8 \<le> i" "i < 16" | "16 \<le> i" "i < 24" | "24 \<le> i" "i < 32"
    by fastforce
  then show "bit (ucast (ucast n :: u8) OR push_bit 8 (ucast (ucast (drop_bit 8 n) :: u8)) OR
      push_bit 16 (ucast (ucast (drop_bit 16 n) :: u8)) OR
      push_bit 24 (ucast (ucast (drop_bit 24 n) :: u8)) :: u32) i = bit n i"
    by cases (simp_all add: bit_simps less_diff_conv2)
qed

lemma length_u32_to_le [simp]: "length (u32_to_le n) = 4"
  by (simp add: u32_to_le_def)

lemma length_frame_of [simp]: "length (frame_of m body) = 5 + length body"
  by (simp add: frame_of_def)

lemma unat_MAX_MSG_SIZE: "unat MAX_MSG_SIZE = 4194304"
  by (simp add: MAX_MSG_SIZE_def)

lemma read_frame_of:
  "read_msg J (frame_of m body @ rest) =
     (let len = (of_nat (length body) :: u32)
      in if len > MAX_MSG_SIZE then Inl (TooLarge len)
         else if length body + length rest < unat len then Inl (ReadIo UnexpectedEof)
         else (case decode_body J (type_byte m) (take (unat len) (body @ rest)) of
                 Inl e \<Rightarrow> Inl e
               | Inr m' \<Rightarrow> Inr (m', drop (unat len) (body @ rest))))"
  by (simp add: frame_of_def u32_to_le_def Let_def)

lemma write_all_prefix:
  "write_all w bs = (b, w') \<Longrightarrow>
     \<exists>k \<le> length bs. sink_out w' = sink_out w @ take k bs \<and> (b \<longrightarrow> k = length bs)"
  by (auto simp: write_all_def split: option.splits if_splits
      intro: exI [of _ "length bs"]) (metis nle_le take_all)

lemma write_all_room:
  assumes "has_room w (length bs + n)"
  obtains w' where "write_all w bs = (True, w')" and "sink_out w' = sink_out w @ bs"
    and "has_room w' n"
  using assms by (auto simp: write_all_def has_room_def split: option.splits)

lemma lift_json_not_UnknownType [simp]: "lift_json f r \<noteq> Inl (UnknownType t)"
  by (simp add: lift_json_def split: sum.split)

lemma type_byte_hits:
  "list_all (\<lambda>ty. ty \<in> range type_byte)
     [TYPE_LOGIN, TYPE_LOGIN_RESP, TYPE_NEW_TUNNEL, TYPE_NEW_TUNNEL_RESP,
      TYPE_CLOSE_TUNNEL, TYPE_NEW_DATA_CONN, TYPE_REQ_DATA_CONN, TYPE_START_DATA_CONN,
      TYPE_PING, TYPE_PONG, TYPE_UDP_PACKET, TYPE_KICK_OUT]"
  using rangeI [of type_byte "Login undefined"] rangeI [of type_byte "LoginResp undefined"]
    rangeI [of type_byte "NewTunnel undefined"] rangeI [of type_byte "NewTunnelResp undefined"]
    rangeI [of type_byte "CloseTunnel undefined"] rangeI [of type_byte "NewDataConn undefined"]
    rangeI [of type_byte ReqDataConn] rangeI [of type_byte "StartDataConn undefined"]
    rangeI [of type_byte "Ping undefined"] rangeI [of type_byte "Pong undefined"]
    rangeI [of type_byte "UdpPacket undefined"] rangeI [of type_byte "KickOut undefined"]
  by simp

lemma type_byte_decode_UnknownType:
  "decode_body J ty buf = Inl (UnknownType t) \<longleftrightarrow> t = ty \<and> ty \<notin> range type_byte"
proof -
  have "ty \<in> range type_byte \<longleftrightarrow>
      ty \<in> {TYPE_LOGIN, TYPE_LOGIN_RESP, TYPE_NEW_TUNNEL, TYPE_NEW_TUNNEL_RESP,
        TYPE_CLOSE_TUNNEL, TYPE_NEW_DATA_CONN, TYPE_REQ_DATA_CONN, TYPE_START_DATA_CONN,
        TYPE_PING, TYPE_PONG, TYPE_UDP_PACKET, TYPE_KICK_OUT}" (is "_ \<longleftrightarrow> ty \<in> ?S")
  proof
    assume "ty \<in> range type_byte"
    then obtain m where "ty = type_byte m" by blast
    then show "ty \<in> ?S" by (cases m) auto
  next
    assume "ty \<in> ?S"
    then show "ty \<in> range type_byte"
      using type_byte_hits by (elim insertE) (simp_all only: list.pred_inject empty_iff)
  qed
  then show ?thesis by (auto simp add: decode_body_def)
qed

lemma decode_body_type_byte: "decode_body J ty buf = Inr m \<Longrightarrow> type_byte m = ty"
  by (auto simp: decode_body_def lift_json_def split: sum.splits if_splits)


lemma read_frame_of_fits:
  assumes "length body \<le> unat MAX_MSG_SIZE"
  shows "read_msg J (frame_of m body @ rest) =
    (case decode_body J (type_byte m) body of Inl e \<Rightarrow> Inl e | Inr m' \<Rightarrow> Inr (m', rest))"
proof -
  have len: "unat (of_nat (length body) :: u32) = length body"
    using assms by (simp add: unat_of_nat unat_MAX_MSG_SIZE)
  then have "\<not> MAX_MSG_SIZE < (of_nat (length body) :: u32)"
    using assms by (simp add: word_less_nat_alt)
  with len show ?thesis by (simp add: read_frame_of Let_def split: sum.split)
qed

lemma sendable_cases:
  assumes "sendable J m"
  obtains body where "encode_body J m = Inr body" and "length body \<le> unat MAX_MSG_SIZE"
    and "decode_body J (type_byte m) body = Inr m" and "frame J m = frame_of m body"
  using assms by (auto simp: sendable_def json_faithful_def frame_def split: sum.splits)

interpretation message_frames: framed_codec "frame J" "read_msg J" "sendable J" for J
proof unfold_locales
  fix m rest assume "sendable J m"
  then show "read_msg J (frame J m @ rest) = Inr (m, rest)"
    by (rule sendable_cases) (simp add: read_frame_of_fits)
next
  fix m assume "sendable J m"
  then show "frame J m \<noteq> []" by (rule sendable_cases) (simp add: frame_of_def)
qed

section \<open>What a write leaves in the writer\<close>

lemma write_msg_frame:
  assumes "encode_body J m = Inr body" and "write_msg J w m = (r, w')"
  shows "\<exists>k \<le> length (frame_of m body). sink_out w' = sink_out w @ take k (frame_of m body) \<and>
    (r = Inr () \<longrightarrow> k = length (frame_of m body))"
proof -
  let ?len = "u32_to_le (of_nat (length body))"
  obtain b1 w1 where s1: "write_all w [type_byte m] = (b1, w1)" by fastforce
  obtain b2 w2 where s2: "write_all w1 ?len = (b2, w2)" by fastforce
  obtain b3 w3 where s3: "write_all w2 body = (b3, w3)" by fastforce
  from write_all_prefix [OF s1] obtain k1 where k1: "k1 \<le> 1"
    "sink_out w1 = sink_out w @ take k1 [type_byte m]" "b1 \<longrightarrow> k1 = 1" by auto
  from write_all_prefix [OF s2] obtain k2 where k2: "k2 \<le> 4"
    "sink_out w2 = sink_out w1 @ take k2 ?len" "b2 \<longrightarrow> k2 = 4" by auto
  from write_all_prefix [OF s3] obtain k3 where k3: "k3 \<le> length body"
    "sink_out w3 = sink_out w2 @ take k3 body" "b3 \<longrightarrow> k3 = length body" by auto
  let ?k = "if \<not> b1 then k1 else if \<not> b2 then 1 + k2 else 5 + k3"
  have w': "(r, w') = (if \<not> b1 then (Inl (WriteIo WriteFailed), w1)
      else if \<not> b2 then (Inl (WriteIo WriteFailed), w2)
      else if \<not> b3 then (Inl (WriteIo WriteFailed), w3) else (Inr (), w3))"
    using assms s1 s2 s3 by (cases b1; cases b2; cases b3) (simp_all add: write_msg_def)
  have "take k1 (frame_of m body) = take k1 [type_byte m]"
    using k1 by (cases k1) (auto simp: frame_of_def)
  moreover have "take (1 + k2) (frame_of m body) = type_byte m # take k2 ?len"
    using k2 by (simp add: frame_of_def)
  moreover have "take (5 + k3) (frame_of m body) = type_byte m # ?len @ take k3 body"
    using k3 by (simp add: frame_of_def numeral_eq_Suc)
  ultimately show ?thesis
    using w' k1 k2 k3 by (intro exI [of _ ?k]) (auto split: if_splits)
qed

lemma write_msg_room:
  assumes "encode_body J m = Inr body" and "has_room w (5 + length body)"
  shows "\<exists>w'. write_msg J w m = (Inr (), w') \<and> sink_out w' = sink_out w @ frame_of m body"
proof -
  let ?len = "u32_to_le (of_nat (length body))"
  from assms(2) have "has_room w (length [type_byte m] + (4 + length body))" by simp
  then obtain w1 where w1: "write_all w [type_byte m] = (True, w1)"
      "sink_out w1 = sink_out w @ [type_byte m]" "has_room w1 (4 + length body)"
    by (rule write_all_room)
  from w1(3) have "has_room w1 (length ?len + length body)" by simp
  then obtain w2 where w2: "write_all w1 ?len = (True, w2)" "sink_out w2 = sink_out w1 @ ?len"
      "has_room w2 (length body)"
    by (rule write_all_room)
  from w2(3) have "has_room w2 (length body + 0)" by simp
  then obtain w3 where w3: "write_all w2 body = (True, w3)" "sink_out w3 = sink_out w2 @ body"
    by (rule write_all_room)
  show ?thesis
    using assms(1) w1 w2 w3 by (simp add: write_msg_def frame_of_def)
qed

section \<open>Properties\<close>


text \<open>A JSON library that knows pings, pongs and data-connection requests; every other encoding
  is an error, and a pong has a body of five million spaces.\<close>

definition ping_serde :: "string serde" where
  "ping_serde =
     \<lparr>to_vec_Login = (\<lambda>_. Inl ''x''), to_vec_LoginResp = (\<lambda>_. Inl ''x''),
      to_vec_NewTunnel = (\<lambda>_. Inl ''x''), to_vec_NewTunnelResp = (\<lambda>_. Inl ''x''),
      to_vec_CloseTunnel = (\<lambda>_. Inl ''x''), to_vec_ReqDataConn = Inr [123, 125],
      to_vec_NewDataConn = (\<lambda>_. Inl ''x''), to_vec_StartDataConn = (\<lambda>_. Inl ''x''),
      to_vec_Ping = (\<lambda>_. Inr [123, 125]), to_vec_Pong = (\<lambda>p. Inr (replicate 5000000 32)),
      to_vec_UdpPacket = (\<lambda>_. Inl ''x''), to_vec_KickOut = (\<lambda>_. Inl ''x''),
      from_slice_Login = (\<lambda>_. Inl ''x''), from_slice_LoginResp = (\<lambda>_. Inl ''x''),
      from_slice_NewTunnel = (\<lambda>_. Inl ''x''), from_slice_NewTunnelResp = (\<lambda>_. Inl ''x''),
      from_slice_CloseTunnel = (\<lambda>_. Inl ''x''), from_slice_ReqDataConn = (\<lambda>_. Inr ()),
      from_slice_NewDataConn = (\<lambda>_. Inl ''x''), from_slice_StartDataConn = (\<lambda>_. Inl ''x''),
      from_slice_Ping = (\<lambda>_. Inr \<lparr>ping_auth_digest = [], ping_timestamp = 0\<rparr>),
      from_slice_Pong = (\<lambda>_. Inr \<lparr>pong_error = []\<rparr>),
      from_slice_UdpPacket = (\<lambda>_. Inl ''x''), from_slice_KickOut = (\<lambda>_. Inl ''x'')\<rparr>"


text \<open>A stream of messages has one reading: two sequences of sendable messages whose frames
  concatenate to the same bytes are the same sequence, so the type byte and the length field
  delimit the frames completely.\<close>

theorem message_stream_unambiguous:
  assumes "list_all (sendable J) ms" and "list_all (sendable J) ms'"
    and "concat (map (frame J) ms) = concat (map (frame J) ms')"
  shows "ms = ms'"
  using assms by (rule message_frames.stream_inject)

theorem message_stream_unambiguous_witness:
  "[ReqDataConn, ReqDataConn] = [ReqDataConn, ReqDataConn]"
  by (rule message_stream_unambiguous [where J = ping_serde])
    (simp_all add: sendable_def json_faithful_def ping_serde_def decode_body_def lift_json_def
      type_defs unat_MAX_MSG_SIZE)





text \<open>A failed write leaves a prefix: if the writer fails, the bytes it took are a prefix of
  the message's frame; a write that succeeds has written the whole frame; and a message that the
  JSON library cannot encode leaves the writer untouched.\<close>

theorem write_msg_prefix:
  assumes "write_msg J w m = (r, w')"
  shows "case encode_body J m of
      Inl e \<Rightarrow> r = Inl (WriteJson e) \<and> w' = w
    | Inr body \<Rightarrow> (\<exists>k \<le> 5 + length body. sink_out w' = sink_out w @ take k (frame_of m body) \<and>
        (r = Inr () \<longrightarrow> k = 5 + length body))"
proof (cases "encode_body J m")
  case (Inl e)
  with assms show ?thesis by (simp add: write_msg_def)
next
  case (Inr body)
  with write_msg_frame [OF Inr assms] show ?thesis by simp
qed

theorem write_msg_prefix_witness:
  "case encode_body ping_serde ReqDataConn of
      Inl e \<Rightarrow> Inl (WriteIo WriteFailed) = (Inl (WriteJson e) :: string write_error + unit) \<and>
        \<lparr>sink_out = [81, 2, 0], sink_room = Some 0\<rparr> = \<lparr>sink_out = [], sink_room = Some 3\<rparr>
    | Inr body \<Rightarrow> (\<exists>k \<le> 5 + length body.
        sink_out \<lparr>sink_out = [81, 2, 0], sink_room = Some 0\<rparr> =
          sink_out \<lparr>sink_out = [], sink_room = Some 3\<rparr> @ take k (frame_of ReqDataConn body) \<and>
        ((Inl (WriteIo WriteFailed) :: string write_error + unit) = Inr () \<longrightarrow>
          k = 5 + length body))"
  by (rule write_msg_prefix)
    (simp add: write_msg_def write_all_def ping_serde_def type_defs u32_to_le_def)

end
