(* ===== verification/Auth.thy ===== *)
theory Auth
  imports Rust_Prelude
begin

text \<open>
  Token authentication, \<open>core/src/auth\<close>: the replay cache of \<open>replay.rs\<close> and the digest check of
  \<open>token.rs\<close>. HMAC-SHA256 and the hexadecimal codec are crates, not part of the repository: they
  are the fields of the record \<open>crypto\<close>. An \<open>Instant\<close> is a number of nanoseconds. The cache's hash
  map is an association list, since its size matters.

  Integers wrap around, as in the release profile of the workspace (it does not switch overflow
  checks on).
\<close>

section \<open>Constants and errors\<close>

definition AUTH_SKEW_SECS :: int where
  "AUTH_SKEW_SECS = 180"

definition REPLAY_TTL_SECS :: nat where
  "REPLAY_TTL_SECS = nat AUTH_SKEW_SECS * 2"

definition REPLAY_MAX_ENTRIES :: nat where
  "REPLAY_MAX_ENTRIES = 100000"

datatype AuthFailure = EmptyDigest | InvalidDigest | TimestampSkew | Replay | Capacity

fun AuthFailure_as_str :: "AuthFailure \<Rightarrow> string" where
  "AuthFailure_as_str EmptyDigest = ''empty authentication digest''"
| "AuthFailure_as_str InvalidDigest = ''invalid authentication digest''"
| "AuthFailure_as_str TimestampSkew = ''timestamp outside allowed window''"
| "AuthFailure_as_str Replay = ''authentication digest reused''"
| "AuthFailure_as_str Capacity = ''authentication replay cache full''"

section \<open>The replay cache\<close>

type_synonym instant = nat

record ReplayCache =
  rc_inner :: "(string \<times> instant) list"

definition from_secs :: "nat \<Rightarrow> nat" where
  "from_secs n = n * 1000000000"

definition purge_expired :: "(string \<times> instant) list \<Rightarrow> instant \<Rightarrow> (string \<times> instant) list" where
  "purge_expired m now = filter (\<lambda>(_, exp). exp > now) m"

definition accept_at ::
    "ReplayCache \<Rightarrow> string \<Rightarrow> instant \<Rightarrow> (AuthFailure + unit) \<times> ReplayCache" where
  "accept_at c digest now =
     (let m = purge_expired (rc_inner c) now
      in if map_of m digest \<noteq> None then (Inl Replay, c\<lparr>rc_inner := m\<rparr>)
         else if length m \<ge> REPLAY_MAX_ENTRIES then (Inl Capacity, c\<lparr>rc_inner := m\<rparr>)
         else (Inr (), c\<lparr>rc_inner := (digest, now + from_secs REPLAY_TTL_SECS) # m\<rparr>))"

definition ReplayCache_new :: ReplayCache where
  "ReplayCache_new = \<lparr>rc_inner = []\<rparr>"

section \<open>Digests\<close>

record crypto =
  hmac_sha256 :: "string \<Rightarrow> string \<Rightarrow> u8 list"
  verify_slice :: "u8 list \<Rightarrow> u8 list \<Rightarrow> bool"
  hex_encode :: "u8 list \<Rightarrow> string"
  hex_decode :: "string \<Rightarrow> u8 list option"

definition i64_to_string :: "i64 \<Rightarrow> string" where
  "i64_to_string x = int_to_string (sint x)"

definition compute_auth_digest :: "crypto \<Rightarrow> string \<Rightarrow> i64 \<Rightarrow> string" where
  "compute_auth_digest C token timestamp =
     hex_encode C (hmac_sha256 C token (i64_to_string timestamp))"

definition wrapping_abs :: "i64 \<Rightarrow> i64" where
  "wrapping_abs x = (if sint x < 0 then - x else x)"

definition verify_auth_digest ::
    "crypto \<Rightarrow> string \<Rightarrow> string \<Rightarrow> i64 \<Rightarrow> i64 \<Rightarrow> ReplayCache option \<Rightarrow> instant \<Rightarrow>
     (AuthFailure + unit) \<times> ReplayCache option" where
  "verify_auth_digest C token auth_digest timestamp now_secs replay now =
     (if token = [] then (Inr (), replay)
      else if auth_digest = [] then (Inl EmptyDigest, replay)
      else if sint (wrapping_abs (now_secs - timestamp)) > AUTH_SKEW_SECS
        then (Inl TimestampSkew, replay)
      else (case hex_decode C auth_digest of
              None \<Rightarrow> (Inl InvalidDigest, replay)
            | Some expected \<Rightarrow>
                if \<not> verify_slice C (hmac_sha256 C token (i64_to_string timestamp)) expected
                then (Inl InvalidDigest, replay)
                else (case replay of
                        None \<Rightarrow> (Inr (), None)
                      | Some cache \<Rightarrow>
                          (case accept_at cache auth_digest now of
                             (r, cache') \<Rightarrow> (r, Some cache')))))"

definition verify_login ::
    "crypto \<Rightarrow> string \<Rightarrow> string \<Rightarrow> i64 \<Rightarrow> i64 \<Rightarrow> ReplayCache \<Rightarrow> instant \<Rightarrow>
     (AuthFailure + unit) \<times> ReplayCache" where
  "verify_login C token auth_digest timestamp now_secs replay now =
     (case verify_auth_digest C token auth_digest timestamp now_secs (Some replay) now of
        (r, c) \<Rightarrow> (r, case c of Some c' \<Rightarrow> c' | None \<Rightarrow> replay))"

text \<open>\<open>unix_now_secs\<close>: the seconds since the epoch, 0 when the clock is before it.\<close>

definition unix_now_secs :: "int \<Rightarrow> i64" where
  "unix_now_secs nanos_since_epoch =
     (if nanos_since_epoch < 0 then 0 else word_of_int (nanos_since_epoch div 1000000000))"

section \<open>The contract of a replay guard\<close>

text \<open>What the login relies on: a key that was accepted is blocked until it expires, whatever
  else is accepted in between. The lemma inside is the client's: two acceptances of one key are
  at least a lifetime apart.\<close>

locale replay_guard =
  fixes accept :: "'c \<Rightarrow> 'k \<Rightarrow> instant \<Rightarrow> ('e + unit) \<times> 'c"
    and expiry :: "'c \<Rightarrow> 'k \<Rightarrow> instant option"
    and ttl :: nat
  assumes accept_ok: "fst (accept c k t) = Inr () \<Longrightarrow> expiry (snd (accept c k t)) k = Some (t + ttl)"
    and accept_blocked: "expiry c k = Some e \<Longrightarrow> t < e \<Longrightarrow> fst (accept c k t) \<noteq> Inr ()"
    and accept_keeps: "expiry c k = Some e \<Longrightarrow> t < e \<Longrightarrow> expiry (snd (accept c k' t)) k = Some e"
begin

lemma blocked_run:
  assumes "expiry c k = Some e" and "sorted (map snd evs)" and "j < length evs"
    and "fst (evs ! j) = k" and "fst (run_ops (\<lambda>c (k, t). accept c k t) c evs) ! j = Inr ()"
  shows "e \<le> snd (evs ! j)"
  using assms
proof (induction evs arbitrary: c j)
  case Nil
  then show ?case by simp
next
  case (Cons ev evs)
  obtain k0 t0 where ev: "ev = (k0, t0)" by (cases ev)
  show ?case
  proof (cases "t0 < e")
    case True
    show ?thesis
    proof (cases j)
      case 0
      with Cons.prems ev True accept_blocked [of c k e t0] show ?thesis
        by (simp add: run_ops_Cons del: run_ops.simps(2))
    next
      case (Suc i)
      have "expiry (snd (accept c k0 t0)) k = Some e"
        using Cons.prems(1) True by (rule accept_keeps)
      with Cons.prems Cons.IH [of "snd (accept c k0 t0)" i] Suc ev show ?thesis
        by (simp add: run_ops_Cons del: run_ops.simps(2))
    qed
  next
    case False
    have "t0 \<le> snd ((ev # evs) ! j)"
      using Cons.prems(2,3) ev by (cases j) auto
    with False show ?thesis by simp
  qed
qed

lemma accepts_ttl_apart:
  assumes "sorted (map snd evs)" and "i < j" and "j < length evs"
    and "fst (evs ! i) = fst (evs ! j)"
    and "fst (run_ops (\<lambda>c (k, t). accept c k t) c evs) ! i = Inr ()"
    and "fst (run_ops (\<lambda>c (k, t). accept c k t) c evs) ! j = Inr ()"
  shows "snd (evs ! i) + ttl \<le> snd (evs ! j)"
  using assms
proof (induction evs arbitrary: c i j)
  case Nil
  then show ?case by simp
next
  case (Cons ev evs)
  obtain k0 t0 where ev: "ev = (k0, t0)" by (cases ev)
  from Cons.prems obtain j' where j: "j = Suc j'" by (cases j) auto
  show ?case
  proof (cases i)
    case 0
    with Cons.prems ev have "expiry (snd (accept c k0 t0)) k0 = Some (t0 + ttl)"
      by (intro accept_ok) (simp add: run_ops_Cons del: run_ops.simps(2))
    from blocked_run [OF this, of evs j'] 0 Cons.prems ev j show ?thesis
      by (simp add: run_ops_Cons del: run_ops.simps(2))
  next
    case (Suc i')
    with Cons.prems Cons.IH [of i' j' "snd (accept c k0 t0)"] ev j show ?thesis
      by (simp add: run_ops_Cons del: run_ops.simps(2))
  qed
qed

end

lemma map_of_purge_expired:
  "map_of m k = Some e \<Longrightarrow> now < e \<Longrightarrow> map_of (purge_expired m now) k = Some e"
  by (induction m) (auto simp: purge_expired_def split: if_splits)

interpretation cache: replay_guard accept_at "\<lambda>c :: ReplayCache. map_of (rc_inner c)"
  "from_secs REPLAY_TTL_SECS"
proof unfold_locales
  fix c :: ReplayCache and k t
  assume "fst (accept_at c k t) = Inr ()"
  then show "map_of (rc_inner (snd (accept_at c k t))) k = Some (t + from_secs REPLAY_TTL_SECS)"
    by (simp add: accept_at_def Let_def split: if_splits)
next
  fix c :: ReplayCache and k e t
  assume "map_of (rc_inner c) k = Some e" and "t < e"
  then show "fst (accept_at c k t) \<noteq> Inr ()"
    by (simp add: accept_at_def Let_def map_of_purge_expired)
next
  fix c :: ReplayCache and k e t k'
  assume "map_of (rc_inner c) k = Some e" and "t < e"
  then have "map_of (purge_expired (rc_inner c) t) k = Some e" by (rule map_of_purge_expired)
  then show "map_of (rc_inner (snd (accept_at c k' t))) k = Some e"
    by (auto simp: accept_at_def Let_def)
qed

section \<open>The skew check on 64-bit integers\<close>

lemma sint_diff:
  fixes a b :: i64
  assumes "0 \<le> sint a" and "sint a < 2 ^ 62"
  shows "sint (a - b) =
    (if sint a - sint b < 2 ^ 63 then sint a - sint b else sint a - sint b - 2 ^ 64)"
proof -
  have b: "- (2 ^ 63) \<le> sint b" "sint b < 2 ^ 63"
    using sint_range_size [of b] by (simp_all add: word_size)
  have "sint (a - b) = signed_take_bit 63 (sint a - sint b)"
    by (simp add: sint_word_ariths(2))
  also have "\<dots> = (sint a - sint b + 2 ^ 63) mod 2 ^ 64 - 2 ^ 63"
    by (simp add: signed_take_bit_eq_take_bit_shift take_bit_eq_mod)
  also have "\<dots> = (if sint a - sint b < 2 ^ 63 then sint a - sint b
      else sint a - sint b - 2 ^ 64)"
  proof (cases "sint a - sint b < 2 ^ 63")
    case True
    then show ?thesis using assms b by (simp add: mod_pos_pos_trivial)
  next
    case False
    have "(sint a - sint b + 2 ^ 63) mod 2 ^ 64 = (sint a - sint b + 2 ^ 63 - 2 ^ 64) mod 2 ^ 64"
      by (metis minus_mod_self2)
    also have "\<dots> = sint a - sint b + 2 ^ 63 - 2 ^ 64"
      using assms b False by (intro mod_pos_pos_trivial) simp_all
    finally show ?thesis using False by simp
  qed
  finally show ?thesis .
qed

lemma sint_uminus_i64:
  fixes x :: i64
  shows "sint (- x) = (if sint x = - (2 ^ 63) then - (2 ^ 63) else - sint x)"
proof -
  have x: "- (2 ^ 63) \<le> sint x" "sint x < 2 ^ 63"
    using sint_range_size [of x] by (simp_all add: word_size)
  have "sint (- x) = signed_take_bit 63 (- sint x)"
    by (simp add: sint_word_ariths(4))
  also have "\<dots> = (- sint x + 2 ^ 63) mod 2 ^ 64 - 2 ^ 63"
    by (simp add: signed_take_bit_eq_take_bit_shift take_bit_eq_mod)
  finally show ?thesis using x by (auto simp: mod_pos_pos_trivial)
qed

lemma sint_wrapping_abs:
  "sint (wrapping_abs x) = (if sint x = - (2 ^ 63) then - (2 ^ 63) else \<bar>sint x\<bar>)"
  by (auto simp: wrapping_abs_def sint_uminus_i64)

lemma skew_passes_iff:
  fixes now ts :: i64
  assumes "0 \<le> sint now" and "sint now < 2 ^ 62"
  shows "\<not> sint (wrapping_abs (now - ts)) > AUTH_SKEW_SECS \<longleftrightarrow>
    \<bar>sint now - sint ts\<bar> \<le> 180 \<or> sint now - sint ts = 2 ^ 63"
proof -
  have ts: "- (2 ^ 63) \<le> sint ts" "sint ts < 2 ^ 63"
    using sint_range_size [of ts] by (simp_all add: word_size)
  define d where "d = now - ts"
  have "sint d =
      (if sint now - sint ts < 2 ^ 63 then sint now - sint ts else sint now - sint ts - 2 ^ 64)"
    unfolding d_def by (rule sint_diff [OF assms])
  then show ?thesis
    using assms ts unfolding d_def [symmetric]
    by (simp add: sint_wrapping_abs AUTH_SKEW_SECS_def abs_if) linarith
qed

section \<open>Logins as a replay guard\<close>

lemma verify_login_cases:
  assumes "token \<noteq> []"
  shows "verify_login C token d ts now c t =
    (if d = [] then (Inl EmptyDigest, c)
     else if sint (wrapping_abs (now - ts)) > AUTH_SKEW_SECS then (Inl TimestampSkew, c)
     else if \<not> (\<exists>expected. hex_decode C d = Some expected \<and>
         verify_slice C (hmac_sha256 C token (i64_to_string ts)) expected)
       then (Inl InvalidDigest, c)
     else accept_at c d t)"
  using assms
  by (auto simp: verify_login_def verify_auth_digest_def split: option.splits prod.splits)

lemma verify_login_OkD:
  assumes "token \<noteq> []" and "fst (verify_login C token d ts now c t) = Inr ()"
  shows "d \<noteq> []" and "\<not> sint (wrapping_abs (now - ts)) > AUTH_SKEW_SECS"
    and "\<exists>expected. hex_decode C d = Some expected \<and>
      verify_slice C (hmac_sha256 C token (i64_to_string ts)) expected"
    and "verify_login C token d ts now c t = accept_at c d t"
  using assms by (auto simp: verify_login_cases split: if_splits)

text \<open>The check of a login as \<open>register_control\<close> makes it: the wall clock and the monotonic clock
  are read together; \<open>off\<close> is the distance between them in nanoseconds.\<close>

definition check_login ::
    "crypto \<Rightarrow> string \<Rightarrow> int \<Rightarrow> ReplayCache \<Rightarrow> string \<times> i64 \<Rightarrow> instant \<Rightarrow>
     (AuthFailure + unit) \<times> ReplayCache" where
  "check_login C token off c login now =
     verify_login C token (fst login) (snd login) (unix_now_secs (int now + off)) c now"

interpretation login: replay_guard "check_login C (a # tok) off"
  "\<lambda>c k. map_of (rc_inner c) (fst k)" "from_secs REPLAY_TTL_SECS" for C a tok off
proof unfold_locales
  fix c :: ReplayCache and k t
  assume "fst (check_login C (a # tok) off c k t) = Inr ()"
  then show "map_of (rc_inner (snd (check_login C (a # tok) off c k t))) (fst k) =
      Some (t + from_secs REPLAY_TTL_SECS)"
    by (auto simp: check_login_def verify_login_cases intro: cache.accept_ok split: if_splits)
next
  fix c :: ReplayCache and k :: "string \<times> i64" and e t
  assume "map_of (rc_inner c) (fst k) = Some e" and "t < e"
  then show "fst (check_login C (a # tok) off c k t) \<noteq> Inr ()"
    using cache.accept_blocked by (auto simp: check_login_def verify_login_cases)
next
  fix c :: ReplayCache and k k' :: "string \<times> i64" and e t
  assume "map_of (rc_inner c) (fst k) = Some e" and "t < e"
  then show "map_of (rc_inner (snd (check_login C (a # tok) off c k' t))) (fst k) = Some e"
    using cache.accept_keeps by (auto simp: check_login_def verify_login_cases)
qed

section \<open>Properties\<close>

lemma sint_unix_now_secs:
  assumes "0 \<le> x" and "x div 1000000000 < 2 ^ 62"
  shows "sint (unix_now_secs x) = x div 1000000000"
proof -
  have "0 \<le> x div 1000000000" using assms(1) by simp
  then have "signed_take_bit 63 (x div 1000000000) = x div 1000000000"
    using assms(2) by (intro signed_take_bit_int_eq_self) simp_all
  then show ?thesis using assms by (simp add: unix_now_secs_def sint_sbintrunc')
qed

definition clock_ok :: "int \<Rightarrow> instant \<Rightarrow> bool" where
  "clock_ok off t \<longleftrightarrow> 0 \<le> int t + off \<and> (int t + off) div 1000000000 < 2 ^ 62"

definition wall_secs :: "int \<Rightarrow> instant \<Rightarrow> int" where
  "wall_secs off t = (int t + off) div 1000000000"

lemma check_login_skew:
  assumes "token \<noteq> []" and "clock_ok off t" and "fst (check_login C token off c k t) = Inr ()"
  shows "\<bar>wall_secs off t - sint (snd k)\<bar> \<le> 180 \<or> wall_secs off t - sint (snd k) = 2 ^ 63"
proof -
  have now: "sint (unix_now_secs (int t + off)) = wall_secs off t"
    using assms(2) by (simp add: clock_ok_def wall_secs_def sint_unix_now_secs)
  moreover have "0 \<le> wall_secs off t" "wall_secs off t < 2 ^ 62"
    using assms(2) by (auto simp: clock_ok_def wall_secs_def)
  ultimately show ?thesis
    using verify_login_OkD(2) [OF assms(1)] assms(3)
      skew_passes_iff [of "unix_now_secs (int t + off)" "snd k"]
    by (simp add: check_login_def)
qed


lemma length_purge_le: "length (purge_expired m t) \<le> length m"
  by (simp add: purge_expired_def)

lemma purge_expired_None: "map_of m x = None \<Longrightarrow> map_of (purge_expired m t) x = None"
  by (induction m) (auto simp: purge_expired_def split: if_splits)

text \<open>A cryptographic library in which the tag of every message is the length of the key, and the
  hexadecimal codec is a single byte.\<close>

definition toy_crypto :: crypto where
  "toy_crypto = \<lparr>hmac_sha256 = (\<lambda>k m. [of_nat (length k)]), verify_slice = (=),
     hex_encode = (\<lambda>b. ''ab''), hex_decode = (\<lambda>s. if length s = 2 then Some [2] else None)\<rparr>"


text \<open>C16. The boundary is reachable: a login sent with a timestamp 180 seconds ahead of the
  server's clock is accepted, and the very same message is accepted a second time 360 seconds
  later, because the cache entry expires at the instant at which the timestamp is still inside the
  allowed window.\<close>

theorem login_replayed_at_boundary:
  assumes "token \<noteq> []" and "d \<noteq> []" and "hex_decode C d = Some tag"
    and "verify_slice C (hmac_sha256 C token (i64_to_string (of_nat (n + 180)))) tag"
    and "n < 2 ^ 61"
  shows "fst (run_ops (\<lambda>c (k, t). check_login C token 0 c k t) ReplayCache_new
      [((d, of_nat (n + 180)), n * 1000000000), ((d, of_nat (n + 180)), (n + 360) * 1000000000)]) =
    [Inr (), Inr ()]"
proof -
  have "(of_nat (n + 180) :: i64) = word_of_int (int n + 180)" by simp
  then have ts: "sint (of_nat (n + 180) :: i64) = int n + 180"
    using assms(5) by (simp only: sint_sbintrunc') (simp add: signed_take_bit_int_eq_self)
  have now: "sint (unix_now_secs (int (m * 1000000000))) = int m" if "m < 2 ^ 62" for m
    using that sint_unix_now_secs [of "int (m * 1000000000)"] by simp
  have skew: "\<not> sint (wrapping_abs (unix_now_secs (int (m * 1000000000)) - of_nat (n + 180))) >
      AUTH_SKEW_SECS" if "m = n \<or> m = n + 360" for m
    using that assms(5) ts now [of m]
      skew_passes_iff [of "unix_now_secs (int (m * 1000000000))" "of_nat (n + 180)"]
    by fastforce
  show ?thesis
    using assms(1-4) skew [of n] skew [of "n + 360"]
    by (simp add: check_login_def verify_login_cases accept_at_def ReplayCache_new_def
        purge_expired_def REPLAY_MAX_ENTRIES_def REPLAY_TTL_SECS_def AUTH_SKEW_SECS_def
        from_secs_def algebra_simps)
qed

theorem login_replayed_at_boundary_witness:
  "fst (run_ops (\<lambda>c (k, t). check_login toy_crypto ''tk'' 0 c k t) ReplayCache_new
      [((''ab'', of_nat (1000 + 180)), 1000 * 1000000000),
       ((''ab'', of_nat (1000 + 180)), (1000 + 360) * 1000000000)]) = [Inr (), Inr ()]"
  by (rule login_replayed_at_boundary [where tag = "[2]"]) (simp_all add: toy_crypto_def)

text \<open>C17. The cache is keyed by the digest as text, while the check is on the bytes it decodes to.
  Two different spellings of the same tag (the hexadecimal codec accepts upper and lower case) are
  both accepted, at the same instant: a captured login can be replayed by changing the case of a
  letter.\<close>

theorem login_replayed_by_respelling:
  assumes "token \<noteq> []" and "d \<noteq> []" and "d' \<noteq> []" and "d \<noteq> d'"
    and "hex_decode C d = Some tag" and "hex_decode C d' = Some tag"
    and "fst (check_login C token off c (d, ts) t) = Inr ()"
    and "map_of (rc_inner c) d' = None" and "length (rc_inner c) + 1 < REPLAY_MAX_ENTRIES"
  shows "fst (check_login C token off (snd (check_login C token off c (d, ts) t)) (d', ts) t) =
    Inr ()"
proof -
  have first: "verify_login C token d ts (unix_now_secs (int t + off)) c t = accept_at c d t"
      "\<not> sint (wrapping_abs (unix_now_secs (int t + off) - ts)) > AUTH_SKEW_SECS"
      "verify_slice C (hmac_sha256 C token (i64_to_string ts)) tag"
    using verify_login_OkD [OF assms(1) assms(7) [unfolded check_login_def]] assms(5) by simp_all
  from assms(7) first(1) have c1: "snd (accept_at c d t) =
      c\<lparr>rc_inner := (d, t + from_secs REPLAY_TTL_SECS) # purge_expired (rc_inner c) t\<rparr>"
    by (simp add: check_login_def accept_at_def Let_def split: if_splits)
  have "fst (accept_at (snd (accept_at c d t)) d' t) = Inr ()"
    unfolding c1
    using assms(4,8,9) length_purge_le [of "rc_inner c" t]
      length_purge_le [of "(d, t + from_secs REPLAY_TTL_SECS) # purge_expired (rc_inner c) t" t]
    by (simp add: accept_at_def Let_def purge_expired_None)
  then show ?thesis
    using assms(1,3,6) first by (simp add: check_login_def verify_login_cases)
qed

theorem login_replayed_by_respelling_witness:
  "fst (check_login toy_crypto ''tk'' 0
      (snd (check_login toy_crypto ''tk'' 0 ReplayCache_new (''ab'', 1000) 1000000000000))
      (''AB'', 1000) 1000000000000) = Inr ()"
  by (rule login_replayed_by_respelling [where tag = "[2]"])
    (simp_all add: toy_crypto_def check_login_def verify_login_cases accept_at_def
      purge_expired_def ReplayCache_new_def unix_now_secs_def AUTH_SKEW_SECS_def wrapping_abs_def
      REPLAY_MAX_ENTRIES_def)

text \<open>C18. An accepted login is authentic: with a token configured, it carries a digest that
  decodes to a tag the HMAC library verifies for exactly its timestamp, and the timestamp is within
  180 seconds of the server's clock, except for the one timestamp whose distance to the clock is
  two to the power 63, where the 64-bit subtraction wraps around.\<close>

theorem login_accepted_sound:
  assumes "token \<noteq> []" and "clock_ok off t"
    and "fst (check_login C token off c (d, ts) t) = Inr ()"
  shows "(\<exists>tag. hex_decode C d = Some tag \<and>
      verify_slice C (hmac_sha256 C token (i64_to_string ts)) tag) \<and>
    (\<bar>wall_secs off t - sint ts\<bar> \<le> 180 \<or> wall_secs off t - sint ts = 2 ^ 63)"
  using check_login_skew [OF assms] verify_login_OkD(3) [OF assms(1)] assms(3)
  by (simp add: check_login_def)

theorem login_accepted_sound_witness:
  "(\<exists>tag. hex_decode toy_crypto ''ab'' = Some tag \<and>
      verify_slice toy_crypto (hmac_sha256 toy_crypto ''tk'' (i64_to_string 1000)) tag) \<and>
    (\<bar>wall_secs 0 1000000000000 - sint (1000 :: i64)\<bar> \<le> 180 \<or>
     wall_secs 0 1000000000000 - sint (1000 :: i64) = 2 ^ 63)"
  by (rule login_accepted_sound [where c = ReplayCache_new])
    (simp_all add: toy_crypto_def check_login_def verify_login_cases accept_at_def clock_ok_def
      purge_expired_def ReplayCache_new_def unix_now_secs_def AUTH_SKEW_SECS_def wrapping_abs_def
      REPLAY_MAX_ENTRIES_def)

text \<open>A client that knows the token is let in: the digest that \<open>compute_auth_digest\<close> gives for
  a timestamp within 180 seconds of the server's clock is accepted by a cache that has room and
  does not hold the digest, given that the hexadecimal codec round trips on the tag and the HMAC
  library verifies the tag it computed.\<close>

theorem computed_digest_accepted:
  fixes now ts :: i64
  assumes "hex_decode C (hex_encode C (hmac_sha256 C token (i64_to_string ts))) =
      Some (hmac_sha256 C token (i64_to_string ts))"
    and "verify_slice C (hmac_sha256 C token (i64_to_string ts))
      (hmac_sha256 C token (i64_to_string ts))"
    and "compute_auth_digest C token ts \<noteq> []"
    and "0 \<le> sint now" and "sint now < 2 ^ 62" and "\<bar>sint now - sint ts\<bar> \<le> 180"
    and "map_of (rc_inner c) (compute_auth_digest C token ts) = None"
    and "length (rc_inner c) < REPLAY_MAX_ENTRIES"
  shows "fst (verify_login C token (compute_auth_digest C token ts) ts now c t) = Inr ()"
proof (cases "token = []")
  case True
  then show ?thesis by (simp add: verify_login_def verify_auth_digest_def)
next
  case False
  have "fst (accept_at c (compute_auth_digest C token ts) t) = Inr ()"
    using assms(7,8) length_purge_le [of "rc_inner c" t]
    by (simp add: accept_at_def Let_def purge_expired_None)
  then show ?thesis
    using False assms(1-6) skew_passes_iff [OF assms(4,5), of ts]
    by (simp add: verify_login_cases compute_auth_digest_def)
qed

theorem computed_digest_accepted_witness:
  "fst (verify_login toy_crypto ''tk'' (compute_auth_digest toy_crypto ''tk'' 1000) 1000 1100
     ReplayCache_new 5) = Inr ()"
  by (rule computed_digest_accepted)
    (simp_all add: toy_crypto_def compute_auth_digest_def ReplayCache_new_def REPLAY_MAX_ENTRIES_def)

definition cache_wf :: "ReplayCache \<Rightarrow> bool" where
  "cache_wf c \<longleftrightarrow> distinct (map fst (rc_inner c)) \<and> length (rc_inner c) \<le> REPLAY_MAX_ENTRIES"

lemma distinct_purge: "distinct (map fst m) \<Longrightarrow> distinct (map fst (purge_expired m now))"
  unfolding purge_expired_def by (induction m) auto

lemma accept_at_wf: "cache_wf c \<Longrightarrow> cache_wf (snd (accept_at c d t))"
  using length_purge_le [of "rc_inner c" t]
  by (auto simp: cache_wf_def accept_at_def Let_def distinct_purge map_of_eq_None_iff)

text \<open>C19. The replay cache stays bounded: after any sequence of acceptance attempts, whatever
  their results, it holds at most 100000 digests, each once.\<close>

theorem replay_cache_bounded:
  "cache_wf (snd (run_ops (\<lambda>c (d, t). accept_at c d t) ReplayCache_new evs))"
proof -
  have "cache_wf ReplayCache_new" by (simp add: cache_wf_def ReplayCache_new_def)
  then show ?thesis
    by (rule run_ops_invariant [rotated]) (simp add: accept_at_wf split: prod.split)
qed

end
