(* ===== verification/Rust_Utf8.thy ===== *)
theory Rust_Utf8
  imports Rust_Prelude
begin

text \<open>
  UTF-8 as the source meets it through the standard library: whether bytes are a \<open>str\<close>
  (\<open>String::from_utf8\<close>), the replacement of malformed bytes (\<open>String::from_utf8_lossy\<close>), and the
  slicing of a \<open>str\<close> at a byte index, which panics inside a character. The release profile has
  \<open>panic = "abort"\<close>, so a panic ends the process.
\<close>

datatype 'a exec = Panics | Returns 'a

definition exec_bind :: "'a exec \<Rightarrow> ('a \<Rightarrow> 'b exec) \<Rightarrow> 'b exec" where
  "exec_bind r f = (case r of Panics \<Rightarrow> Panics | Returns x \<Rightarrow> f x)"

lemma exec_bind_simps [simp]:
  "exec_bind Panics f = Panics"
  "exec_bind (Returns x) f = f x"
  by (simp_all add: exec_bind_def)

definition byte_in :: "nat \<Rightarrow> nat \<Rightarrow> char \<Rightarrow> bool" where
  "byte_in lo hi c \<longleftrightarrow> lo \<le> (of_char c :: nat) \<and> (of_char c :: nat) \<le> hi"

definition is_continuation :: "char \<Rightarrow> bool" where
  "is_continuation c \<longleftrightarrow> byte_in 128 191 c"

text \<open>The second byte a leading byte admits (RFC 3629, without surrogates and overlong forms).\<close>

definition second_ok :: "char \<Rightarrow> char \<Rightarrow> bool" where
  "second_ok a b \<longleftrightarrow>
     (if a = CHR 0xE0 then byte_in 160 191 b
      else if a = CHR 0xED then byte_in 128 159 b
      else if a = CHR 0xF0 then byte_in 144 191 b
      else if a = CHR 0xF4 then byte_in 128 143 b
      else is_continuation b)"

text \<open>The number of bytes a leading byte announces; 0 when it cannot start a character.\<close>

definition lead_len :: "char \<Rightarrow> nat" where
  "lead_len a =
     (if byte_in 0 127 a then 1 else if byte_in 194 223 a then 2
      else if byte_in 224 239 a then 3 else if byte_in 240 244 a then 4 else 0)"

text \<open>One step of the decoder: whether the front is a character, and how many bytes it takes. A
  malformed front takes its longest prefix that could still have become a character.\<close>

definition utf8_chunk :: "string \<Rightarrow> bool \<times> nat" where
  "utf8_chunk s =
     (let n = lead_len (hd s); t = tl s
      in if n = 0 then (False, 1)
         else if n = 1 then (True, 1)
         else if t = [] \<or> \<not> second_ok (hd s) (hd t) then (False, 1)
         else if n = 2 then (True, 2)
         else if length t < 2 \<or> \<not> is_continuation (t ! 1) then (False, 2)
         else if n = 3 then (True, 3)
         else if length t < 3 \<or> \<not> is_continuation (t ! 2) then (False, 3)
         else (True, 4))"

lemma utf8_chunk_pos: "0 < snd (utf8_chunk s)"
  by (simp add: utf8_chunk_def Let_def)

function utf8_valid :: "string \<Rightarrow> bool" where
  "utf8_valid s \<longleftrightarrow>
     (if s = [] then True else fst (utf8_chunk s) \<and> utf8_valid (drop (snd (utf8_chunk s)) s))"
  by pat_completeness auto
termination
  by (relation "measure length") (auto simp: utf8_chunk_pos)

definition from_utf8 :: "string \<Rightarrow> string option" where
  "from_utf8 s = (if utf8_valid s then Some s else None)"

definition REPLACEMENT :: string where
  "REPLACEMENT = [CHR 0xEF, CHR 0xBF, CHR 0xBD]"

function from_utf8_lossy :: "string \<Rightarrow> string" where
  "from_utf8_lossy s =
     (if s = [] then []
      else (if fst (utf8_chunk s) then take (snd (utf8_chunk s)) s else REPLACEMENT) @
             from_utf8_lossy (drop (snd (utf8_chunk s)) s))"
  by pat_completeness auto
termination
  by (relation "measure length") (auto simp: utf8_chunk_pos)

declare utf8_valid.simps [simp del] from_utf8_lossy.simps [simp del]

text \<open>\<open>str::is_char_boundary\<close>, and the slices \<open>&s[..i]\<close> and \<open>&s[i..]\<close>.\<close>

definition is_char_boundary :: "string \<Rightarrow> nat \<Rightarrow> bool" where
  "is_char_boundary s i \<longleftrightarrow> i = 0 \<or> i = length s \<or> i < length s \<and> \<not> is_continuation (s ! i)"

definition slice_to :: "string \<Rightarrow> nat \<Rightarrow> string exec" where
  "slice_to s i = (if is_char_boundary s i then Returns (take i s) else Panics)"

definition slice_from :: "string \<Rightarrow> nat \<Rightarrow> string exec" where
  "slice_from s i = (if is_char_boundary s i then Returns (drop i s) else Panics)"

section \<open>Facts\<close>

lemma utf8_valid_Nil [simp]: "utf8_valid []"
  by (simp add: utf8_valid.simps)

lemma from_utf8_lossy_Nil [simp]: "from_utf8_lossy [] = []"
  by (simp add: from_utf8_lossy.simps)

lemma from_utf8_lossy_valid: "utf8_valid s \<Longrightarrow> from_utf8_lossy s = s"
proof (induction s rule: utf8_valid.induct)
  case (1 s)
  show ?case
  proof (cases "s = []")
    case False
    with "1.prems" have "fst (utf8_chunk s)" "utf8_valid (drop (snd (utf8_chunk s)) s)"
      by (simp_all add: utf8_valid.simps [of s])
    with False "1.IH" show ?thesis
      by (subst from_utf8_lossy.simps) simp
  qed simp
qed

lemma chunk_good_append:
  assumes "s \<noteq> []" and "fst (utf8_chunk s)"
  shows "utf8_chunk (take (snd (utf8_chunk s)) s @ r) = utf8_chunk s"
    and "snd (utf8_chunk s) \<le> length s"
  using assms
  by (cases s; cases "tl s"; cases "tl (tl s)"; cases "tl (tl (tl s))";
      auto simp: utf8_chunk_def Let_def split: if_splits)+

lemma utf8_valid_chunk:
  assumes "s \<noteq> []" and "fst (utf8_chunk s)" and "utf8_valid r"
  shows "utf8_valid (take (snd (utf8_chunk s)) s @ r)"
proof -
  have "length (take (snd (utf8_chunk s)) s) = snd (utf8_chunk s)"
    using chunk_good_append(2) [OF assms(1,2)] by simp
  with assms show ?thesis
    by (subst utf8_valid.simps) (simp add: chunk_good_append(1))
qed

lemma utf8_valid_replacement: "utf8_valid r \<Longrightarrow> utf8_valid (REPLACEMENT @ r)"
  by (subst utf8_valid.simps)
    (simp add: REPLACEMENT_def utf8_chunk_def Let_def lead_len_def byte_in_def second_ok_def
      is_continuation_def)

theorem from_utf8_lossy_is_utf8: "utf8_valid (from_utf8_lossy s)"
proof (induction s rule: from_utf8_lossy.induct)
  case (1 s)
  then show ?case
    by (subst from_utf8_lossy.simps)
      (simp add: utf8_valid_replacement utf8_valid_chunk)
qed

end
