(* ===== verification/Gateway.thy ===== *)
theory Gateway
  imports Message_Codec Rust_Utf8
begin

text \<open>
  The HTTP and HTTPS gateways: the routing tables of \<open>server/src/tunnel/gw.rs\<close> and
  \<open>server/src/tunnel/https.rs\<close> with their host normalisation, domain expansion and basic
  authentication, and the registration of a tunnel in them (\<open>HttpTunnel::register\<close> of
  \<open>server/src/tunnel/http.rs\<close> and \<open>HttpsTunnel::register\<close>).

  A route carries a weak reference to its control session and the bandwidth limiter; the gateway
  only stores and returns them, so their types are parameters (\<^typ>\<open>'c\<close>, \<^typ>\<open>'l\<close>).
\<close>

section \<open>Host names\<close>

datatype gw_error =
    EmptyHttpDomain
  | EmptyHttpsDomain
  | HttpConflict string string
  | HttpsConflict string
  | NoDomains
  | EmptyDomainEntry
  | InvalidDomainEntry string
  | PrefixWildcard string
  | PrefixTooLong string
  | PrefixNeedsRoot string
  | WildcardUnsupported string

definition normalize_host :: "string \<Rightarrow> string" where
  "normalize_host host =
     (let host = trim host;
          without_port =
            (case strip_prefix ''['' host of
               Some h \<Rightarrow> (case split_once (CHR '']'') h of Some (a, _) \<Rightarrow> a | None \<Rightarrow> host)
             | None \<Rightarrow> takeWhile (\<lambda>c. c \<noteq> CHR '':'') host)
      in to_ascii_lowercase (trim_end_matches ''.'' (trim without_port)))"

definition is_host_under_root :: "string \<Rightarrow> string \<Rightarrow> bool" where
  "is_host_under_root host root \<longleftrightarrow> host = root \<or> suffix (''.'' @ root) host"

definition expand_domain_entry :: "string \<Rightarrow> string \<Rightarrow> gw_error + string" where
  "expand_domain_entry entry root =
     (let e = normalize_host entry
      in if e = [] then Inl EmptyDomainEntry
         else if prefix ''.'' e \<or> suffix ''.'' e \<or> contains_str ''..'' e
           then Inl (InvalidDomainEntry entry)
         else if CHR ''.'' \<notin> set e then
           (if CHR ''*'' \<in> set e then Inl (PrefixWildcard entry)
            else if 63 < length e then Inl (PrefixTooLong entry)
            else if root = [] then Inl (PrefixNeedsRoot entry)
            else Inr (normalize_host (e @ ''.'' @ root)))
         else if CHR ''*'' \<in> set e then Inl (WildcardUnsupported entry)
         else if root \<noteq> [] \<and> is_host_under_root e root then Inr e
         else Inr e)"

fun expand_all :: "string list \<Rightarrow> string \<Rightarrow> gw_error + string list" where
  "expand_all [] root = Inr []"
| "expand_all (e # es) root =
     rbind (expand_domain_entry e root) (\<lambda>d. rbind (expand_all es root) (\<lambda>ds. Inr (d # ds)))"

text \<open>\<open>out.retain(|d| seen.insert(d.clone()))\<close>: the first occurrence of each element stays.\<close>

fun retain_first :: "'a list \<Rightarrow> 'a list \<Rightarrow> 'a list" where
  "retain_first seen [] = []"
| "retain_first seen (x # xs) =
     (if x \<in> set seen then retain_first seen xs else x # retain_first (x # seen) xs)"

definition build_domains :: "string list \<Rightarrow> string \<Rightarrow> gw_error + string list" where
  "build_domains domains root_domain =
     (let root = normalize_host root_domain;
          entries = filter (\<lambda>d. d \<noteq> []) (map trim domains)
      in if entries = [] then Inl NoDomains
         else rbind (expand_all entries root) (\<lambda>out. Inr (retain_first [] out)))"

definition expand_locations :: "string list \<Rightarrow> string list" where
  "expand_locations locations = (if locations = [] then [[]] else locations)"

section \<open>The HTTP gateway\<close>

record ('c, 'l) HttpRoute =
  hr_tunnel_name :: string
  hr_control :: 'c
  hr_location :: string
  hr_host_header_rewrite :: string
  hr_basic_auth_user :: string
  hr_basic_auth_password :: string
  hr_limiter :: "'l option"

type_synonym ('c, 'l) DomainIndex = "string \<rightharpoonup> ('c, 'l) HttpRoute list"

record ('c, 'l) HttpGw =
  hg_routes :: "('c, 'l) DomainIndex"
  hg_listen_port :: u16

definition HttpGw_new :: "u16 \<Rightarrow> ('c, 'l) HttpGw" where
  "HttpGw_new listen_port = \<lparr>hg_routes = Map.empty, hg_listen_port = listen_port\<rparr>"

text \<open>\<open>list.sort_by(|a, b| b.location.cmp(&a.location))\<close>, a stable sort in descending order.\<close>

definition sort_routes :: "('c, 'l) HttpRoute list \<Rightarrow> ('c, 'l) HttpRoute list" where
  "sort_routes list = rev (sort_key hr_location (rev list))"

definition http_register ::
    "('c, 'l) HttpGw \<Rightarrow> string \<Rightarrow> ('c, 'l) HttpRoute \<Rightarrow> (gw_error + unit) \<times> ('c, 'l) HttpGw" where
  "http_register g domain route =
     (let key = normalize_host domain
      in if key = [] then (Inl EmptyHttpDomain, g)
         else
           let list = (case hg_routes g key of None \<Rightarrow> [] | Some l \<Rightarrow> l);
               put = (\<lambda>l. g\<lparr>hg_routes := (hg_routes g)(key \<mapsto> l)\<rparr>)
           in (case find (\<lambda>r. hr_location r = hr_location route) list of
                 Some existing \<Rightarrow>
                   if hr_tunnel_name existing \<noteq> hr_tunnel_name route
                   then (Inl (HttpConflict key (hr_location route)), put list)
                   else (Inr (), put (sort_routes
                          (filter (\<lambda>r. hr_location r \<noteq> hr_location route) list @ [route])))
               | None \<Rightarrow> (Inr (), put (sort_routes (list @ [route])))))"

definition http_unregister_tunnel :: "('c, 'l) HttpGw \<Rightarrow> string \<Rightarrow> ('c, 'l) HttpGw" where
  "http_unregister_tunnel g tunnel_name =
     g\<lparr>hg_routes := (\<lambda>key. case hg_routes g key of
         None \<Rightarrow> None
       | Some list \<Rightarrow>
           let list' = filter (\<lambda>r. hr_tunnel_name r \<noteq> tunnel_name) list
           in if list' = [] then None else Some list')\<rparr>"

definition match_location ::
    "('c, 'l) DomainIndex \<Rightarrow> string \<Rightarrow> string \<Rightarrow> ('c, 'l) HttpRoute option" where
  "match_location m host path =
     (case m host of None \<Rightarrow> None | Some list \<Rightarrow> find (\<lambda>route. prefix (hr_location route) path) list)"

definition http_lookup :: "('c, 'l) HttpGw \<Rightarrow> string \<Rightarrow> string \<Rightarrow> ('c, 'l) HttpRoute option" where
  "http_lookup g host path = match_location (hg_routes g) (normalize_host host) path"

section \<open>The HTTPS gateway\<close>

record ('c, 'l) HttpsRoute =
  sr_tunnel_name :: string
  sr_control :: 'c
  sr_limiter :: "'l option"

record ('c, 'l) HttpsGw =
  sg_routes :: "string \<rightharpoonup> ('c, 'l) HttpsRoute"
  sg_listen_port :: u16

definition HttpsGw_new :: "u16 \<Rightarrow> ('c, 'l) HttpsGw" where
  "HttpsGw_new listen_port = \<lparr>sg_routes = Map.empty, sg_listen_port = listen_port\<rparr>"

definition https_register ::
    "('c, 'l) HttpsGw \<Rightarrow> string \<Rightarrow> ('c, 'l) HttpsRoute \<Rightarrow> (gw_error + unit) \<times> ('c, 'l) HttpsGw" where
  "https_register g domain route =
     (let key = normalize_host domain;
          put = g\<lparr>sg_routes := (sg_routes g)(key \<mapsto> route)\<rparr>
      in if key = [] then (Inl EmptyHttpsDomain, g)
         else (case sg_routes g key of
                 Some existing \<Rightarrow>
                   if sr_tunnel_name existing \<noteq> sr_tunnel_name route
                   then (Inl (HttpsConflict key), g) else (Inr (), put)
               | None \<Rightarrow> (Inr (), put)))"

definition https_unregister_tunnel :: "('c, 'l) HttpsGw \<Rightarrow> string \<Rightarrow> ('c, 'l) HttpsGw" where
  "https_unregister_tunnel g tunnel_name =
     g\<lparr>sg_routes := (\<lambda>key. case sg_routes g key of
         None \<Rightarrow> None
       | Some r \<Rightarrow> if sr_tunnel_name r \<noteq> tunnel_name then Some r else None)\<rparr>"

definition https_lookup :: "('c, 'l) HttpsGw \<Rightarrow> string \<Rightarrow> ('c, 'l) HttpsRoute option" where
  "https_lookup g sni = sg_routes g (normalize_host sni)"

section \<open>Registering a tunnel\<close>

text \<open>The loops of \<open>HttpTunnel::register\<close> and \<open>HttpsTunnel::register\<close>: every route is registered in
  turn, and the first failure withdraws what the tunnel has.\<close>

fun register_all ::
    "('g \<Rightarrow> string \<Rightarrow> 'v \<Rightarrow> ('e + unit) \<times> 'g) \<Rightarrow> ('g \<Rightarrow> string \<Rightarrow> 'g) \<Rightarrow> string \<Rightarrow> 'g \<Rightarrow>
     (string \<times> 'v) list \<Rightarrow> ('e + unit) \<times> 'g" where
  "register_all reg unreg name g [] = (Inr (), g)"
| "register_all reg unreg name g ((domain, route) # rest) =
     (case reg g domain route of
        (Inl e, g') \<Rightarrow> (Inl e, unreg g' name)
      | (Inr _, g') \<Rightarrow> register_all reg unreg name g' rest)"

record HttpTunnel =
  ht_name :: string
  ht_domains :: "string list"
  ht_closed :: bool

definition http_routes ::
    "NewTunnel \<Rightarrow> 'c \<Rightarrow> 'l option \<Rightarrow> string list \<Rightarrow> (string \<times> ('c, 'l) HttpRoute) list" where
  "http_routes np control limiter domains =
     concat (map (\<lambda>domain. map (\<lambda>location.
       (domain, \<lparr>hr_tunnel_name = nt_tunnel_name np, hr_control = control, hr_location = location,
                 hr_host_header_rewrite = nt_host_header_rewrite np,
                 hr_basic_auth_user = nt_basic_auth_user np,
                 hr_basic_auth_password = nt_basic_auth_password np, hr_limiter = limiter\<rparr>))
       (expand_locations (nt_locations np))) domains)"

definition HttpTunnel_register ::
    "NewTunnel \<Rightarrow> 'c \<Rightarrow> ('c, 'l) HttpGw \<Rightarrow> string \<Rightarrow> 'l option \<Rightarrow>
     (gw_error + HttpTunnel) \<times> ('c, 'l) HttpGw" where
  "HttpTunnel_register np control gw sub_domain_host limiter =
     (case build_domains (nt_domains np) sub_domain_host of
        Inl e \<Rightarrow> (Inl e, gw)
      | Inr domains \<Rightarrow>
          let name = nt_tunnel_name np
          in (case register_all http_register http_unregister_tunnel name
                (http_unregister_tunnel gw name) (http_routes np control limiter domains) of
                (Inl e, gw') \<Rightarrow> (Inl e, gw')
              | (Inr _, gw') \<Rightarrow>
                  (Inr \<lparr>ht_name = name, ht_domains = domains, ht_closed = False\<rparr>, gw')))"

definition HttpTunnel_shutdown :: "HttpTunnel \<Rightarrow> ('c, 'l) HttpGw \<Rightarrow> HttpTunnel \<times> ('c, 'l) HttpGw" where
  "HttpTunnel_shutdown t gw =
     (if ht_closed t then (t, gw)
      else (t\<lparr>ht_closed := True\<rparr>, http_unregister_tunnel gw (ht_name t)))"

record HttpsTunnel =
  hst_name :: string
  hst_domains :: "string list"
  hst_closed :: bool

definition https_routes ::
    "NewTunnel \<Rightarrow> 'c \<Rightarrow> 'l option \<Rightarrow> string list \<Rightarrow> (string \<times> ('c, 'l) HttpsRoute) list" where
  "https_routes np control limiter domains =
     map (\<lambda>domain. (domain, \<lparr>sr_tunnel_name = nt_tunnel_name np, sr_control = control,
                              sr_limiter = limiter\<rparr>)) domains"

definition HttpsTunnel_register ::
    "NewTunnel \<Rightarrow> 'c \<Rightarrow> ('c, 'l) HttpsGw \<Rightarrow> string \<Rightarrow> 'l option \<Rightarrow>
     (gw_error + HttpsTunnel) \<times> ('c, 'l) HttpsGw" where
  "HttpsTunnel_register np control gw sub_domain_host limiter =
     (case build_domains (nt_domains np) sub_domain_host of
        Inl e \<Rightarrow> (Inl e, gw)
      | Inr domains \<Rightarrow>
          let name = nt_tunnel_name np
          in (case register_all https_register https_unregister_tunnel name
                (https_unregister_tunnel gw name) (https_routes np control limiter domains) of
                (Inl e, gw') \<Rightarrow> (Inl e, gw')
              | (Inr _, gw') \<Rightarrow>
                  (Inr \<lparr>hst_name = name, hst_domains = domains, hst_closed = False\<rparr>, gw')))"

definition HttpsTunnel_shutdown ::
    "HttpsTunnel \<Rightarrow> ('c, 'l) HttpsGw \<Rightarrow> HttpsTunnel \<times> ('c, 'l) HttpsGw" where
  "HttpsTunnel_shutdown t gw =
     (if hst_closed t then (t, gw)
      else (t\<lparr>hst_closed := True\<rparr>, https_unregister_tunnel gw (hst_name t)))"

section \<open>Basic authentication\<close>

text \<open>The base64 engine is a third-party crate: its decoder is a parameter.\<close>

definition parse_basic_auth ::
    "(string \<Rightarrow> string option) \<Rightarrow> string \<Rightarrow> (string \<times> string) option exec" where
  "parse_basic_auth b64_decode header_value =
     (let value = trim header_value
      in if length value < 6 then Returns None
         else exec_bind (slice_to value 6) (\<lambda>head.
           if \<not> eq_ignore_ascii_case head ''Basic '' then Returns None
           else exec_bind (slice_from value 6) (\<lambda>rest.
             Returns (case b64_decode (trim rest) of
                        None \<Rightarrow> None
                      | Some decoded \<Rightarrow>
                          (case from_utf8 decoded of
                             None \<Rightarrow> None
                           | Some t \<Rightarrow> split_once (CHR '':'') t)))))"

definition route_basic_auth_ok ::
    "(string \<Rightarrow> string option) \<Rightarrow> ('c, 'l) HttpRoute \<Rightarrow> bool \<Rightarrow> string option \<Rightarrow> string option \<Rightarrow> bool exec" where
  "route_basic_auth_ok b64_decode route is_proxy_request authorization proxy_authorization =
     (if hr_basic_auth_user route = [] \<and> hr_basic_auth_password route = [] then Returns True
      else (case (if is_proxy_request then proxy_authorization else authorization) of
              None \<Rightarrow> Returns False
            | Some h \<Rightarrow>
                exec_bind (parse_basic_auth b64_decode h) (\<lambda>creds.
                  Returns (case creds of
                             Some (u, p) \<Rightarrow>
                               u = hr_basic_auth_user route \<and> p = hr_basic_auth_password route
                           | None \<Rightarrow> False))))"

section \<open>What a routing table promises\<close>

text \<open>The abstract routing table is a partial function from routing keys to routes, and every route
  belongs to a tunnel. A gateway implements it when registering a route at a free key, or at a key
  of the same tunnel, stores it, a key of another tunnel is refused without any change, and
  withdrawing a tunnel removes its routes and no others.\<close>

locale router =
  fixes reg :: "'g \<Rightarrow> string \<Rightarrow> 'v \<Rightarrow> ('e + unit) \<times> 'g"
    and unreg :: "'g \<Rightarrow> string \<Rightarrow> 'g"
    and wf :: "'g \<Rightarrow> bool"
    and table :: "'g \<Rightarrow> 'k \<Rightarrow> 'v option"
    and key :: "string \<Rightarrow> 'v \<Rightarrow> 'k option"
    and tun :: "'v \<Rightarrow> string"
  assumes reg_wf: "wf g \<Longrightarrow> wf (snd (reg g d v))"
    and unreg_wf: "wf g \<Longrightarrow> wf (unreg g n)"
    and reg_ok: "wf g \<Longrightarrow> fst (reg g d v) = Inr () \<longleftrightarrow>
      (\<exists>k. key d v = Some k \<and> (\<forall>w. table g k = Some w \<longrightarrow> tun w = tun v))"
    and reg_stores: "wf g \<Longrightarrow> fst (reg g d v) = Inr () \<Longrightarrow> key d v = Some k \<Longrightarrow>
      table (snd (reg g d v)) = (table g)(k \<mapsto> v)"
    and reg_refused: "wf g \<Longrightarrow> fst (reg g d v) \<noteq> Inr () \<Longrightarrow> table (snd (reg g d v)) = table g"
    and unreg_table: "wf g \<Longrightarrow> table (unreg g n) k =
      (case table g k of None \<Rightarrow> None | Some v \<Rightarrow> if tun v = n then None else Some v)"
begin

lemma register_all_Cons:
  "register_all reg unreg n g ((d, v) # l) =
     (if fst (reg g d v) = Inr () then register_all reg unreg n (snd (reg g d v)) l
      else (map_sum id (\<lambda>_. ()) (fst (reg g d v)), unreg (snd (reg g d v)) n))"
  by (cases "reg g d v"; cases "fst (reg g d v)") auto

lemma register_all_wf: "wf g \<Longrightarrow> wf (snd (register_all reg unreg n g l))"
proof (induction l arbitrary: g)
  case Nil
  then show ?case by simp
next
  case (Cons dv l)
  then show ?case
    by (cases dv) (simp add: register_all_Cons reg_wf unreg_wf del: register_all.simps(2))
qed

lemma register_all_iff:
  assumes "wf g" and "\<forall>dv \<in> set l. tun (snd dv) = n"
  shows "fst (register_all reg unreg n g l) = Inr () \<longleftrightarrow>
    (\<forall>(d, v) \<in> set l. \<exists>k. key d v = Some k \<and> (\<forall>w. table g k = Some w \<longrightarrow> tun w = n))"
  using assms
proof (induction l arbitrary: g)
  case Nil
  then show ?case by simp
next
  case (Cons dv l)
  obtain d v where dv: "dv = (d, v)" by (cases dv)
  have v: "tun v = n" using Cons.prems(2) dv by auto
  show ?case
  proof (cases "fst (reg g d v) = Inr ()")
    case False
    then have "fst (register_all reg unreg n g (dv # l)) \<noteq> Inr ()"
      by (cases "fst (reg g d v)") (simp_all add: dv register_all_Cons del: register_all.simps(2))
    with False reg_ok [OF Cons.prems(1)] v dv show ?thesis by auto
  next
    case True
    then obtain k where k: "key d v = Some k" "\<And>w. table g k = Some w \<Longrightarrow> tun w = n"
      using reg_ok [OF Cons.prems(1)] v by auto
    have t: "table (snd (reg g d v)) = (table g)(k \<mapsto> v)"
      by (rule reg_stores [OF Cons.prems(1) True k(1)])
    have same: "(\<forall>w. table (snd (reg g d v)) k' = Some w \<longrightarrow> tun w = n) \<longleftrightarrow>
        (\<forall>w. table g k' = Some w \<longrightarrow> tun w = n)" for k'
      using k v t by (cases "k' = k") auto
    from True k Cons.prems Cons.IH [of "snd (reg g d v)"] show ?thesis
      by (simp add: dv register_all_Cons reg_wf same del: register_all.simps(2))
  qed
qed

lemma register_all_stores:
  assumes "wf g" and "\<forall>dv \<in> set l. tun (snd dv) = n"
    and "fst (register_all reg unreg n g l) = Inr ()"
  shows "table (snd (register_all reg unreg n g l)) =
    table g ++ map_of (rev (map (\<lambda>(d, v). (the (key d v), v)) l))"
  using assms
proof (induction l arbitrary: g)
  case Nil
  then show ?case by simp
next
  case (Cons dv l)
  obtain d v where dv: "dv = (d, v)" by (cases dv)
  have ok: "fst (reg g d v) = Inr ()"
    using Cons.prems(3) dv
    by (cases "fst (reg g d v)") (auto simp: register_all_Cons simp del: register_all.simps(2))
  then obtain k where k: "key d v = Some k" using reg_ok [OF Cons.prems(1)] by blast
  from ok k reg_stores [OF Cons.prems(1) ok k] Cons.prems Cons.IH [of "snd (reg g d v)"]
  show ?case
    by (simp add: dv register_all_Cons reg_wf del: register_all.simps(2) fun_upd_apply)
qed

lemma register_all_foreign:
  assumes "wf g" and "\<forall>dv \<in> set l. tun (snd dv) = n" and "tun w \<noteq> n"
  shows "table (snd (register_all reg unreg n g l)) k = Some w \<longleftrightarrow> table g k = Some w"
  using assms
proof (induction l arbitrary: g)
  case Nil
  then show ?case by simp
next
  case (Cons dv l)
  obtain d v where dv: "dv = (d, v)" by (cases dv)
  have v: "tun v = n" using Cons.prems(2) dv by auto
  have step: "table (snd (reg g d v)) k = Some w \<longleftrightarrow> table g k = Some w"
  proof (cases "fst (reg g d v) = Inr ()")
    case True
    then obtain k' where "key d v = Some k'" "\<forall>w. table g k' = Some w \<longrightarrow> tun w = n"
      using reg_ok [OF Cons.prems(1)] v by auto
    with True Cons.prems(1,3) v show ?thesis by (auto simp: reg_stores)
  qed (simp add: reg_refused Cons.prems(1))
  then have "table (unreg (snd (reg g d v)) n) k = Some w \<longleftrightarrow> table g k = Some w"
    using Cons.prems(1,3) by (auto simp: unreg_table reg_wf split: option.splits)
  with step Cons.prems Cons.IH [of "snd (reg g d v)"] show ?case
    by (simp add: dv register_all_Cons reg_wf del: register_all.simps(2))
qed

lemma register_all_failed_own:
  assumes "wf g" and "fst (register_all reg unreg n g l) \<noteq> Inr ()"
    and "table (snd (register_all reg unreg n g l)) k = Some w"
  shows "tun w \<noteq> n"
  using assms
proof (induction l arbitrary: g)
  case Nil
  then show ?case by simp
next
  case (Cons dv l)
  obtain d v where dv: "dv = (d, v)" by (cases dv)
  from Cons.prems Cons.IH [of "snd (reg g d v)"] show ?case
    by (cases "fst (reg g d v) = Inr ()")
      (auto simp: dv register_all_Cons reg_wf unreg_table simp del: register_all.simps(2)
        split: if_splits option.splits)
qed

text \<open>After withdrawing and registering a tunnel, a route is an old one of another tunnel or, when
  everything was registered, one of the new ones.\<close>

lemma register_all_origin:
  assumes "wf g" and "\<forall>dv \<in> set l. tun (snd dv) = n"
    and w: "table (snd (register_all reg unreg n (unreg g n) l)) k = Some w"
  shows "tun w \<noteq> n \<and> table g k = Some w \<or>
    fst (register_all reg unreg n (unreg g n) l) = Inr () \<and> w \<in> snd ` set l"
proof (cases "fst (register_all reg unreg n (unreg g n) l) = Inr ()")
  case True
  let ?m = "map_of (rev (map (\<lambda>(d, v). (the (key d v), v)) l))"
  have t: "(table (unreg g n) ++ ?m) k = Some w"
    using w register_all_stores [OF unreg_wf [OF assms(1)] assms(2) True] by simp
  show ?thesis
  proof (cases "?m k")
    case None
    with t have "table (unreg g n) k = Some w" by (simp add: map_add_def)
    then show ?thesis using assms(1) by (auto simp: unreg_table split: option.splits if_splits)
  next
    case (Some v)
    with t have "?m k = Some w" by (simp add: map_add_def)
    then obtain d where "(d, w) \<in> set l" by (auto dest!: map_of_SomeD)
    then show ?thesis using True by force
  qed
next
  case False
  have "tun w \<noteq> n" by (rule register_all_failed_own [OF unreg_wf [OF assms(1)] False w])
  moreover have "table (unreg g n) k = Some w"
    using register_all_foreign [OF unreg_wf [OF assms(1)] assms(2) \<open>tun w \<noteq> n\<close>] w by simp
  ultimately show ?thesis using assms(1) by (auto simp: unreg_table split: option.splits if_splits)
qed

lemma register_all_rollback:
  assumes "wf g" and "\<forall>dv \<in> set l. tun (snd dv) = n"
    and "fst (register_all reg unreg n g l) \<noteq> Inr ()"
  shows "table (snd (register_all reg unreg n g l)) = table (unreg g n)"
proof
  fix k
  have "table (snd (register_all reg unreg n g l)) k = Some w \<longleftrightarrow> table (unreg g n) k = Some w" for w
    using register_all_failed_own [OF assms(1,3), of k w]
      register_all_foreign [OF assms(1,2), where w = w and k = k] assms(1)
    by (cases "tun w = n") (auto simp: unreg_table split: option.splits if_splits)
  then show "table (snd (register_all reg unreg n g l)) k = table (unreg g n) k"
    by (metis not_Some_eq)
qed

end

section \<open>The HTTP gateway is a routing table\<close>

definition desc_locations :: "('c, 'l) HttpRoute list \<Rightarrow> bool" where
  "desc_locations list = sorted_wrt (\<lambda>a b. hr_location b < hr_location a) list"

definition http_wf :: "('c, 'l) HttpGw \<Rightarrow> bool" where
  "http_wf g \<longleftrightarrow> (\<forall>key list. hg_routes g key = Some list \<longrightarrow> list \<noteq> [] \<and> desc_locations list)"

definition http_table :: "('c, 'l) HttpGw \<Rightarrow> string \<times> string \<Rightarrow> ('c, 'l) HttpRoute option" where
  "http_table g kl =
     (case hg_routes g (fst kl) of
        None \<Rightarrow> None | Some list \<Rightarrow> find (\<lambda>r. hr_location r = snd kl) list)"

definition http_key :: "string \<Rightarrow> ('c, 'l) HttpRoute \<Rightarrow> (string \<times> string) option" where
  "http_key d v = (if normalize_host d = [] then None else Some (normalize_host d, hr_location v))"

lemma desc_distinct: "desc_locations list \<Longrightarrow> distinct (map hr_location list)"
  unfolding desc_locations_def by (induction list) auto

lemma desc_filter: "desc_locations list \<Longrightarrow> desc_locations (filter P list)"
  by (simp add: desc_locations_def sorted_wrt_filter)

lemma set_sort_routes [simp]: "set (sort_routes list) = set list"
  by (simp add: sort_routes_def)

lemma sort_routes_not_Nil [simp]: "sort_routes list = [] \<longleftrightarrow> list = []"
  using set_sort_routes [of list] by (metis set_empty)

lemma desc_sort_routes: "distinct (map hr_location list) \<Longrightarrow> desc_locations (sort_routes list)"
proof -
  assume "distinct (map hr_location list)"
  then have "distinct (map hr_location (sort_key hr_location (rev list)))"
    by (simp add: distinct_map inj_on_def)
  then have "sorted_wrt (<) (map hr_location (sort_key hr_location (rev list)))"
    by (simp add: strict_sorted_iff)
  then show ?thesis
    by (simp add: desc_locations_def sort_routes_def sorted_wrt_rev sorted_wrt_map)
qed

lemma find_location_iff:
  "distinct (map hr_location list) \<Longrightarrow>
    find (\<lambda>r. hr_location r = l) list = Some r \<longleftrightarrow> r \<in> set list \<and> hr_location r = l"
  by (induction list) (auto simp: image_iff)

lemma find_location_None:
  "find (\<lambda>r. hr_location r = l) list = None \<longleftrightarrow> l \<notin> hr_location ` set list"
  by (auto simp: find_None_iff)

lemma desc_set_unique:
  "desc_locations xs \<Longrightarrow> desc_locations ys \<Longrightarrow> set xs = set ys \<Longrightarrow> xs = ys"
proof (induction xs arbitrary: ys)
  case Nil
  then show ?case by simp
next
  case (Cons x xs)
  then obtain y ys' where ys: "ys = y # ys'" by (cases ys) auto
  have d: "\<forall>r \<in> set xs. hr_location r < hr_location x" "\<forall>r \<in> set ys'. hr_location r < hr_location y"
    and s: "insert x (set xs) = insert y (set ys')"
    using Cons.prems by (simp_all add: ys desc_locations_def)
  have "x = y"
    using d s by (metis insert_iff less_asym)
  with d s have "set xs = set ys'" by (metis insert_ident less_irrefl)
  with Cons \<open>x = y\<close> show ?case by (simp add: ys desc_locations_def)
qed

lemma http_table_iff:
  "http_wf g \<Longrightarrow> http_table g (k, l) = Some r \<longleftrightarrow>
    (\<exists>list. hg_routes g k = Some list \<and> r \<in> set list \<and> hr_location r = l)"
  by (auto simp: http_table_def http_wf_def find_location_iff desc_distinct split: option.splits)

lemma http_wf_route: "http_wf g \<Longrightarrow> hg_routes g k = Some list \<Longrightarrow> \<exists>r. r \<in> set list"
  by (metis http_wf_def ex_in_conv set_empty)

lemma http_table_inject:
  assumes "http_wf g" and "http_wf g'" and "http_table g = http_table g'"
  shows "hg_routes g = hg_routes g'"
proof
  fix k
  have mem: "(\<exists>list. hg_routes g k = Some list \<and> r \<in> set list) \<longleftrightarrow>
      (\<exists>list. hg_routes g' k = Some list \<and> r \<in> set list)" for r
    using http_table_iff [OF assms(1), of k "hr_location r" r]
      http_table_iff [OF assms(2), of k "hr_location r" r] assms(3) by auto
  show "hg_routes g k = hg_routes g' k"
  proof (cases "hg_routes g k")
    case None
    with mem http_wf_route [OF assms(2), of k] show ?thesis
      by (cases "hg_routes g' k") auto
  next
    case (Some list)
    then obtain list' where l': "hg_routes g' k = Some list'"
      using mem http_wf_route [OF assms(1), of k] by auto
    with Some mem have "set list = set list'" by auto
    with assms(1,2) Some l' show ?thesis by (auto simp: http_wf_def desc_set_unique)
  qed
qed

text \<open>The list a registration writes back: without the route's location, and with the route.\<close>

definition put_route :: "('c, 'l) HttpRoute \<Rightarrow> ('c, 'l) HttpRoute list \<Rightarrow> ('c, 'l) HttpRoute list" where
  "put_route v list = sort_routes (filter (\<lambda>r. hr_location r \<noteq> hr_location v) list @ [v])"

lemma put_route_wf:
  "desc_locations list \<Longrightarrow> put_route v list \<noteq> [] \<and> desc_locations (put_route v list)"
  unfolding put_route_def
  by (auto simp: desc_filter [THEN desc_distinct] intro!: desc_sort_routes)

lemma set_put_route:
  "set (put_route v list) = insert v {r \<in> set list. hr_location r \<noteq> hr_location v}"
  by (auto simp: put_route_def)

lemma http_register_cases:
  assumes "http_wf g"
  shows "http_register g d v =
    (if normalize_host d = [] then (Inl EmptyHttpDomain, g)
     else (case http_table g (normalize_host d, hr_location v) of
             Some w \<Rightarrow> if hr_tunnel_name w \<noteq> hr_tunnel_name v
               then (Inl (HttpConflict (normalize_host d) (hr_location v)), g)
               else (Inr (), g\<lparr>hg_routes := (hg_routes g)(normalize_host d \<mapsto>
                 put_route v (case hg_routes g (normalize_host d) of None \<Rightarrow> [] | Some l \<Rightarrow> l))\<rparr>)
           | None \<Rightarrow> (Inr (), g\<lparr>hg_routes := (hg_routes g)(normalize_host d \<mapsto>
                 put_route v (case hg_routes g (normalize_host d) of None \<Rightarrow> [] | Some l \<Rightarrow> l))\<rparr>)))"
proof -
  have none: "filter (\<lambda>r. hr_location r \<noteq> hr_location v) list = list"
    if "find (\<lambda>r. hr_location r = hr_location v) list = None" for list :: "('a, 'b) HttpRoute list"
    using that by (auto simp: find_None_iff filter_id_conv)
  show ?thesis
    by (auto simp: http_register_def http_table_def Let_def put_route_def none map_upd_triv
        split: option.splits)
qed

lemma http_register_wf: "http_wf g \<Longrightarrow> http_wf (snd (http_register g d v))"
  using put_route_wf [of "case hg_routes g (normalize_host d) of None \<Rightarrow> [] | Some l \<Rightarrow> l" v]
  by (auto simp: http_register_cases http_wf_def desc_locations_def split: option.splits)

lemma http_unregister_routes:
  "hg_routes (http_unregister_tunnel g n) k = Some list' \<longleftrightarrow>
    (\<exists>list. hg_routes g k = Some list \<and> list' = filter (\<lambda>r. hr_tunnel_name r \<noteq> n) list \<and> list' \<noteq> [])"
  by (auto simp: http_unregister_tunnel_def Let_def split: option.splits)

lemma http_unregister_wf: "http_wf g \<Longrightarrow> http_wf (http_unregister_tunnel g n)"
  by (auto simp: http_wf_def http_unregister_routes desc_filter)

lemma http_register_stores:
  assumes "http_wf g" and "fst (http_register g d v) = Inr ()"
  shows "http_table (snd (http_register g d v)) = (http_table g)((normalize_host d, hr_location v) \<mapsto> v)"
proof
  fix kl :: "string \<times> string"
  obtain k l where kl: "kl = (k, l)" by (cases kl)
  let ?old = "case hg_routes g (normalize_host d) of None \<Rightarrow> [] | Some l \<Rightarrow> l"
  have new: "snd (http_register g d v) =
      g\<lparr>hg_routes := (hg_routes g)(normalize_host d \<mapsto> put_route v ?old)\<rparr>"
    using assms by (auto simp: http_register_cases split: option.splits if_splits)
  have "http_table (snd (http_register g d v)) (k, l) = Some r \<longleftrightarrow>
      ((http_table g)((normalize_host d, hr_location v) \<mapsto> v)) (k, l) = Some r" for r
    using http_register_wf [OF assms(1), of d v] assms(1)
    by (auto simp: http_table_iff new set_put_route split: option.splits)
  then show "http_table (snd (http_register g d v)) kl =
      ((http_table g)((normalize_host d, hr_location v) \<mapsto> v)) kl"
    by (metis kl not_Some_eq)
qed

lemma http_unregister_table:
  assumes "http_wf g"
  shows "http_table (http_unregister_tunnel g n) kl =
    (case http_table g kl of None \<Rightarrow> None | Some v \<Rightarrow> if hr_tunnel_name v = n then None else Some v)"
proof -
  obtain k l where kl: "kl = (k, l)" by (cases kl)
  have "http_table (http_unregister_tunnel g n) (k, l) = Some r \<longleftrightarrow>
      http_table g (k, l) = Some r \<and> hr_tunnel_name r \<noteq> n" for r
    using assms
    by (cases "hg_routes g k")
      (auto simp: http_table_iff http_unregister_wf http_unregister_routes filter_empty_conv)
  then show ?thesis unfolding kl by (rule option_filter_eqI)
qed

interpretation http: router http_register http_unregister_tunnel http_wf http_table http_key hr_tunnel_name
proof unfold_locales
  fix g :: "('c, 'l) HttpGw" and d v
  assume "http_wf g"
  then show "fst (http_register g d v) = Inr () \<longleftrightarrow> (\<exists>k. http_key d v = Some k \<and>
      (\<forall>w. http_table g k = Some w \<longrightarrow> hr_tunnel_name w = hr_tunnel_name v))"
    by (auto simp: http_register_cases http_key_def split: option.splits)
  then show "fst (http_register g d v) \<noteq> Inr () \<Longrightarrow> http_table (snd (http_register g d v)) = http_table g"
    using \<open>http_wf g\<close> by (auto simp: http_register_cases split: option.splits if_splits)
qed (auto simp: http_register_wf http_unregister_wf http_register_stores http_unregister_table
    http_key_def split: if_splits)

section \<open>The HTTPS gateway is a routing table\<close>

definition https_key :: "string \<Rightarrow> ('c, 'l) HttpsRoute \<Rightarrow> string option" where
  "https_key d v = (if normalize_host d = [] then None else Some (normalize_host d))"

interpretation https: router https_register https_unregister_tunnel "\<lambda>_. True" sg_routes https_key
    sr_tunnel_name
  by unfold_locales
    (auto simp: https_register_def https_unregister_tunnel_def https_key_def Let_def
      split: option.splits if_splits)

section \<open>Reachable gateways\<close>

inductive http_reachable :: "('c, 'l) HttpGw \<Rightarrow> bool" where
  new: "http_reachable (HttpGw_new port)"
| register: "http_reachable g \<Longrightarrow> http_reachable (snd (http_register g d v))"
| unregister: "http_reachable g \<Longrightarrow> http_reachable (http_unregister_tunnel g n)"

lemma http_reachable_wf: "http_reachable g \<Longrightarrow> http_wf g"
proof (induction rule: http_reachable.induct)
  case (new port)
  show ?case by (simp add: http_wf_def HttpGw_new_def)
qed (simp_all add: http_register_wf http_unregister_wf)

lemma register_all_reachable:
  "http_reachable g \<Longrightarrow>
    http_reachable (snd (register_all http_register http_unregister_tunnel n g l))"
proof (induction l arbitrary: g)
  case Nil
  then show ?case by simp
next
  case (Cons dv l)
  then show ?case
    by (cases dv) (simp add: http.register_all_Cons http_reachable.intros del: register_all.simps(2))
qed

lemma HttpTunnel_register_reachable:
  "http_reachable g \<Longrightarrow> http_reachable (snd (HttpTunnel_register np c g root lim))"
  using register_all_reachable [of "http_unregister_tunnel g (nt_tunnel_name np)"]
  by (auto simp: HttpTunnel_register_def Let_def http_reachable.intros
      split: sum.split prod.split dest: arg_cong [where f = snd]) (metis snd_conv http_reachable.unregister)+

section \<open>Longest-prefix matching\<close>

lemma prefix_less_iff:
  "prefix a p \<Longrightarrow> prefix b p \<Longrightarrow> a < b \<longleftrightarrow> length a < length (b :: string)"
proof -
  have less: "x < y" if "strict_prefix x y" for x y :: string
  proof -
    from that obtain c s where "y = x @ c # s" by (auto elim: strict_prefixE')
    then show ?thesis by (induction x arbitrary: y) auto
  qed
  assume "prefix a p" "prefix b p"
  then consider "a = b" | "strict_prefix a b" | "strict_prefix b a"
    by (metis prefix_order.le_less prefix_same_cases)
  then show ?thesis
    by cases (use less prefix_length_less in \<open>force+\<close>)
qed

lemma find_desc_longest:
  assumes "desc_locations list"
  shows "find (\<lambda>r. prefix (hr_location r) path) list = Some r \<longleftrightarrow>
    r \<in> set list \<and> prefix (hr_location r) path \<and>
    (\<forall>v \<in> set list. prefix (hr_location v) path \<longrightarrow> length (hr_location v) \<le> length (hr_location r))"
  using assms
proof (induction list)
  case Nil
  then show ?case by simp
next
  case (Cons a list)
  then have IH: "find (\<lambda>r. prefix (hr_location r) path) list = Some r \<longleftrightarrow>
      r \<in> set list \<and> prefix (hr_location r) path \<and>
      (\<forall>v \<in> set list. prefix (hr_location v) path \<longrightarrow> length (hr_location v) \<le> length (hr_location r))"
    and below: "\<And>v. v \<in> set list \<Longrightarrow> hr_location v < hr_location a"
    by (simp_all add: desc_locations_def)
  show ?case
  proof (cases "prefix (hr_location a) path")
    case True
    have "length (hr_location v) < length (hr_location a)"
      if "v \<in> set list" "prefix (hr_location v) path" for v
      using below [OF that(1)] prefix_less_iff [OF that(2) True] by simp
    with True show ?thesis by (fastforce simp: less_imp_le)
  qed (auto simp: IH)
qed

lemma http_lookup_longest:
  assumes "http_wf g"
  shows "http_lookup g host path = Some r \<longleftrightarrow>
    http_table g (normalize_host host, hr_location r) = Some r \<and> prefix (hr_location r) path \<and>
    (\<forall>l v. http_table g (normalize_host host, l) = Some v \<and> prefix l path \<longrightarrow>
      length l \<le> length (hr_location r))"
proof (cases "hg_routes g (normalize_host host)")
  case None
  then show ?thesis by (simp add: http_lookup_def match_location_def http_table_iff [OF assms])
next
  case (Some list)
  with assms have "desc_locations list" by (auto simp: http_wf_def)
  with Some show ?thesis
    by (auto simp: http_lookup_def match_location_def http_table_iff [OF assms] find_desc_longest)
qed

lemma http_lookup_None:
  assumes "http_wf g" and "http_lookup g host path = None" and "prefix l path"
  shows "http_table g (normalize_host host, l) = None"
  using assms
  by (auto simp: http_lookup_def match_location_def http_table_def find_None_iff
      split: option.splits)

section \<open>Registering a tunnel in a gateway\<close>

lemma http_routes_tunnel: "\<forall>dv \<in> set (http_routes np c lim ds). hr_tunnel_name (snd dv) = nt_tunnel_name np"
  by (auto simp: http_routes_def)

lemma https_routes_tunnel:
  "\<forall>dv \<in> set (https_routes np c lim ds). sr_tunnel_name (snd dv) = nt_tunnel_name np"
  by (auto simp: https_routes_def)

lemma HttpTunnel_register_Inr:
  "HttpTunnel_register np c g root lim = (Inr t, g') \<longleftrightarrow>
    (\<exists>ds. build_domains (nt_domains np) root = Inr ds \<and>
      t = \<lparr>ht_name = nt_tunnel_name np, ht_domains = ds, ht_closed = False\<rparr> \<and>
      register_all http_register http_unregister_tunnel (nt_tunnel_name np)
        (http_unregister_tunnel g (nt_tunnel_name np)) (http_routes np c lim ds) = (Inr (), g'))"
  by (auto simp: HttpTunnel_register_def Let_def split: sum.splits prod.splits)

lemma HttpTunnel_register_Inl:
  "HttpTunnel_register np c g root lim = (Inl e, g') \<Longrightarrow>
    (build_domains (nt_domains np) root = Inl e \<and> g' = g) \<or>
    (\<exists>ds. build_domains (nt_domains np) root = Inr ds \<and>
      register_all http_register http_unregister_tunnel (nt_tunnel_name np)
        (http_unregister_tunnel g (nt_tunnel_name np)) (http_routes np c lim ds) = (Inl e, g'))"
  by (auto simp: HttpTunnel_register_def Let_def split: sum.splits prod.splits)

lemma hg_listen_port_register_all:
  "hg_listen_port (snd (register_all http_register http_unregister_tunnel n g l)) = hg_listen_port g"
proof (induction l arbitrary: g)
  case Nil
  then show ?case by simp
next
  case (Cons dv l)
  have "hg_listen_port (snd (http_register g d v)) = hg_listen_port g" for d v and g :: "('a, 'b) HttpGw"
    by (simp add: http_register_def Let_def split: option.split)
  moreover have "hg_listen_port (http_unregister_tunnel g n) = hg_listen_port g"
    for g :: "('a, 'b) HttpGw"
    by (simp add: http_unregister_tunnel_def)
  ultimately show ?case
    using Cons by (cases dv) (simp add: http.register_all_Cons del: register_all.simps(2))
qed

lemma HttpTunnel_register_foreign:
  assumes "http_wf g" and "HttpTunnel_register np c g root lim = (res, g')"
    and "hr_tunnel_name w \<noteq> nt_tunnel_name np"
  shows "http_table g' kl = Some w \<longleftrightarrow> http_table g kl = Some w"
proof -
  have un: "http_table (http_unregister_tunnel g (nt_tunnel_name np)) kl = Some w \<longleftrightarrow>
      http_table g kl = Some w"
    using assms(1,3) by (auto simp: http.unreg_table split: option.splits)
  have all: "http_table (snd (register_all http_register http_unregister_tunnel (nt_tunnel_name np)
      (http_unregister_tunnel g (nt_tunnel_name np)) (http_routes np c lim ds))) kl = Some w \<longleftrightarrow>
      http_table g kl = Some w" for ds
    using http.register_all_foreign [OF http_unregister_wf [OF assms(1)] http_routes_tunnel assms(3)] un
    by metis
  show ?thesis
    using assms(2) all
    by (cases res) (auto simp: HttpTunnel_register_Inr dest!: HttpTunnel_register_Inl, (metis snd_conv)+)
qed

lemma HttpTunnel_register_wf:
  assumes "http_wf g" and "HttpTunnel_register np c g root lim = (res, g')"
  shows "http_wf g'"
proof -
  have "http_wf (snd (register_all http_register http_unregister_tunnel (nt_tunnel_name np)
      (http_unregister_tunnel g (nt_tunnel_name np)) (http_routes np c lim ds)))" for ds
    by (rule http.register_all_wf [OF http_unregister_wf [OF assms(1)]])
  with assms show ?thesis
    by (cases res) (auto simp: HttpTunnel_register_Inr dest!: HttpTunnel_register_Inl, (metis snd_conv)+)
qed

lemma retain_first_set: "set (retain_first seen xs) = set xs - set seen"
  by (induction seen xs rule: retain_first.induct) auto

lemma retain_first_distinct: "distinct (retain_first seen xs)"
  by (induction seen xs rule: retain_first.induct) (auto simp: retain_first_set)

lemma HttpTunnel_register_rolled_back:
  assumes "http_wf g" and "HttpTunnel_register np c g root lim = (Inl e, g')"
    and "build_domains (nt_domains np) root = Inr ds"
  shows "g' = http_unregister_tunnel g (nt_tunnel_name np)"
proof -
  let ?n = "nt_tunnel_name np"
  let ?gu = "http_unregister_tunnel g ?n"
  have wf: "http_wf ?gu" using assms(1) by (rule http_unregister_wf)
  have all: "register_all http_register http_unregister_tunnel ?n ?gu (http_routes np c lim ds) = (Inl e, g')"
    using HttpTunnel_register_Inl [OF assms(2)] assms(3) by auto
  then have "fst (register_all http_register http_unregister_tunnel ?n ?gu (http_routes np c lim ds)) \<noteq> Inr ()"
    by simp
  from http.register_all_rollback [OF wf http_routes_tunnel this] all
  have "http_table g' = http_table (http_unregister_tunnel ?gu ?n)" by simp
  also have "\<dots> = http_table ?gu"
    by (rule ext) (simp add: http.unreg_table wf assms(1) split: option.split)
  finally have "hg_routes g' = hg_routes ?gu"
    using http_table_inject [OF HttpTunnel_register_wf [OF assms(1,2)] wf] by simp
  moreover have "hg_listen_port g' = hg_listen_port ?gu"
    using all hg_listen_port_register_all [of ?n ?gu "http_routes np c lim ds"] by simp
  ultimately show ?thesis by simp
qed

lemma HttpTunnel_register_served:
  assumes "http_wf g" and "HttpTunnel_register np c g root lim = (Inr t, g')"
    and "d \<in> set (ht_domains t)" and "l \<in> set (expand_locations (nt_locations np))"
  shows "\<exists>r. http_table g' (normalize_host d, l) = Some r \<and> hr_tunnel_name r = nt_tunnel_name np"
proof -
  let ?n = "nt_tunnel_name np"
  let ?gu = "http_unregister_tunnel g ?n"
  let ?rs = "http_routes np c lim (ht_domains t)"
  let ?l = "map (\<lambda>(d, v). (the (http_key d v), v)) ?rs"
  have wf: "http_wf ?gu" using assms(1) by (rule http_unregister_wf)
  have all: "register_all http_register http_unregister_tunnel ?n ?gu ?rs = (Inr (), g')"
    using assms(2) by (auto simp: HttpTunnel_register_Inr)
  have keys: "\<forall>(d, v) \<in> set ?rs. http_key d v \<noteq> None"
    using http.register_all_iff [OF wf http_routes_tunnel [of np c lim "ht_domains t"]] all by fastforce
  obtain v where v: "(d, v) \<in> set ?rs" "hr_location v = l"
    using assms(3,4) by (force simp: http_routes_def)
  then have "http_key d v = Some (normalize_host d, l)"
    using keys by (auto simp: http_key_def split: if_splits)
  then have "((normalize_host d, l), v) \<in> set ?l"
    using v(1) by (auto intro!: image_eqI [where x = "(d, v)"])
  then have "(normalize_host d, l) \<in> fst ` set ?l"
    by (rule image_eqI [rotated]) simp
  then have "map_of (rev ?l) (normalize_host d, l) \<noteq> None"
    by (simp only: map_of_eq_None_iff set_rev not_not)
  then obtain r where r: "map_of (rev ?l) (normalize_host d, l) = Some r" by blast
  then have "hr_tunnel_name r = ?n"
    using http_routes_tunnel [of np c lim "ht_domains t"] by (fastforce dest!: map_of_SomeD)
  with r show ?thesis
    using http.register_all_stores [OF wf http_routes_tunnel [of np c lim "ht_domains t"]] all by simp
qed

section \<open>Properties\<close>

text \<open>C12. Longest-prefix routing: in every gateway that registrations and withdrawals can produce, a
  request is answered by the route of its host with the longest location that is a prefix of the
  path, and by no route exactly when no registered location is one. The code keeps the routes in
  descending lexicographic order of location and takes the first that matches.\<close>

theorem http_lookup_longest_prefix:
  assumes "http_reachable g"
  shows "http_lookup g host path = Some r \<longleftrightarrow>
    http_table g (normalize_host host, hr_location r) = Some r \<and> prefix (hr_location r) path \<and>
    (\<forall>l v. http_table g (normalize_host host, l) = Some v \<and> prefix l path \<longrightarrow>
      length l \<le> length (hr_location r))"
  by (rule http_lookup_longest [OF http_reachable_wf [OF assms]])

text \<open>A tunnel for the concrete instances below.\<close>

definition demo_tunnel :: "string \<Rightarrow> string list \<Rightarrow> NewTunnel" where
  "demo_tunnel n locs =
     \<lparr>nt_tunnel_name = n, nt_protocol = ''http'', nt_remote_port = 0, nt_local_ip = [],
      nt_local_port = 80, nt_domains = [''a.b''], nt_locations = locs, nt_basic_auth_user = [],
      nt_basic_auth_password = [], nt_host_header_rewrite = [], nt_headers = Map.empty,
      nt_response_headers = Map.empty, nt_bandwidth = 0, nt_bandwidth_limit_side = []\<rparr>"

lemma demo_tunnel_fields:
  "nt_tunnel_name (demo_tunnel n locs) = n" "nt_domains (demo_tunnel n locs) = [''a.b'']"
  "nt_locations (demo_tunnel n locs) = locs"
  by (simp_all add: demo_tunnel_def)

definition demo_route :: "string \<Rightarrow> string \<Rightarrow> (unit, unit) HttpRoute" where
  "demo_route n loc =
     \<lparr>hr_tunnel_name = n, hr_control = (), hr_location = loc, hr_host_header_rewrite = [],
      hr_basic_auth_user = [], hr_basic_auth_password = [], hr_limiter = None\<rparr>"

definition demo_gw :: "(unit, unit) HttpGw" where
  "demo_gw = snd (http_register (HttpGw_new 80) ''a.b'' (demo_route ''web'' ''/''))"

lemma demo_norm: "normalize_host ''a.b'' = ''a.b''"
  by (simp add: normalize_host_def str_simps)

lemma demo_domains: "build_domains [''a.b''] [] = Inr [''a.b'']"
  by (simp add: build_domains_def expand_domain_entry_def demo_norm normalize_host_def
      suffix_to_prefix Let_def str_simps)

lemma demo_gw_reachable: "http_reachable demo_gw"
  unfolding demo_gw_def by (intro http_reachable.intros)

lemma demo_gw_eq: "demo_gw = \<lparr>hg_routes = [''a.b'' \<mapsto> [demo_route ''web'' ''/'']], hg_listen_port = 80\<rparr>"
  by (simp add: demo_gw_def http_register_def HttpGw_new_def demo_norm Let_def sort_routes_def)

theorem http_lookup_longest_prefix_witness:
  "http_lookup demo_gw ''a.b'' ''/x'' = Some (demo_route ''web'' ''/'') \<longleftrightarrow>
    http_table demo_gw (normalize_host ''a.b'', hr_location (demo_route ''web'' ''/'')) =
      Some (demo_route ''web'' ''/'') \<and>
    prefix (hr_location (demo_route ''web'' ''/'')) ''/x'' \<and>
    (\<forall>l v. http_table demo_gw (normalize_host ''a.b'', l) = Some v \<and> prefix l ''/x'' \<longrightarrow>
      length l \<le> length (hr_location (demo_route ''web'' ''/'')))"
  by (rule http_lookup_longest_prefix [OF demo_gw_reachable])



text \<open>C21. Registering a tunnel does not take traffic from another tunnel except under a longer
  location: whether the registration succeeds or fails, a request that another tunnel's route
  answered before is answered by the same route afterwards, or by a route of the registered tunnel
  with a strictly longer location.\<close>

theorem http_registration_isolated:
  assumes "http_reachable g" and "HttpTunnel_register np c g root lim = (res, g')"
    and "http_lookup g host path = Some r" and "hr_tunnel_name r \<noteq> nt_tunnel_name np"
  shows "\<exists>r'. http_lookup g' host path = Some r' \<and>
    (r' = r \<or> hr_tunnel_name r' = nt_tunnel_name np \<and> length (hr_location r) < length (hr_location r'))"
proof -
  have wf: "http_wf g" "http_wf g'"
    using http_reachable_wf [OF assms(1)] HttpTunnel_register_wf [OF _ assms(2)] by auto
  note foreign = HttpTunnel_register_foreign [OF wf(1) assms(2)]
  have old: "http_table g (normalize_host host, hr_location r) = Some r" "prefix (hr_location r) path"
    "\<And>l v. http_table g (normalize_host host, l) = Some v \<Longrightarrow> prefix l path \<Longrightarrow>
      length l \<le> length (hr_location r)"
    using assms(3) by (auto simp: http_lookup_longest [OF wf(1)])
  have r: "http_table g' (normalize_host host, hr_location r) = Some r"
    using foreign [OF assms(4)] old(1) by simp
  then obtain r' where r': "http_lookup g' host path = Some r'"
    using http_lookup_None [OF wf(2) _ old(2)] by (cases "http_lookup g' host path") auto
  then have new: "http_table g' (normalize_host host, hr_location r') = Some r'"
    "prefix (hr_location r') path" "length (hr_location r) \<le> length (hr_location r')"
    using r old(2) by (auto simp: http_lookup_longest [OF wf(2)])
  have "r' = r" if "length (hr_location r') = length (hr_location r)"
    using new r that old(2) by (metis option.inject prefix_length_prefix prefix_order.antisym order_refl)
  moreover have "hr_tunnel_name r' = nt_tunnel_name np"
    if "length (hr_location r) < length (hr_location r')"
    using foreign [of r'] new old(3) that by force
  ultimately show ?thesis using r' new(3) by (cases "length (hr_location r') = length (hr_location r)") auto
qed

lemma demo_lookup: "http_lookup demo_gw ''a.b'' ''/x'' = Some (demo_route ''web'' ''/'')"
  by (simp add: http_lookup_def match_location_def demo_gw_eq demo_norm) (simp add: demo_route_def)

theorem http_registration_isolated_witness:
  "\<exists>r'. http_lookup (snd (HttpTunnel_register (demo_tunnel ''api'' [''/x'']) () demo_gw [] None))
      ''a.b'' ''/x'' = Some r' \<and>
    (r' = demo_route ''web'' ''/'' \<or> hr_tunnel_name r' = nt_tunnel_name (demo_tunnel ''api'' [''/x'']) \<and>
      length (hr_location (demo_route ''web'' ''/'')) < length (hr_location r'))"
  by (rule http_registration_isolated [OF demo_gw_reachable surjective_pairing demo_lookup])
    (simp add: demo_route_def demo_tunnel_fields)

text \<open>The HTTPS gateway registers a tunnel exactly when each of its domains has a name that is free
  or already the tunnel's own; it then answers the names of these domains with the tunnel's route
  and every other name as before without the tunnel's old routes. When it refuses, it answers as
  before without the tunnel's old routes.\<close>

theorem https_registration:
  assumes "build_domains (nt_domains np) root = Inr ds"
  shows "case HttpsTunnel_register np c g root lim of
      (Inr t, g') \<Rightarrow>
        (\<forall>d \<in> set ds. normalize_host d \<noteq> [] \<and>
          (\<forall>w. sg_routes g (normalize_host d) = Some w \<longrightarrow> sr_tunnel_name w = nt_tunnel_name np)) \<and>
        (\<forall>k. sg_routes g' k =
          (if k \<in> normalize_host ` set ds
           then Some \<lparr>sr_tunnel_name = nt_tunnel_name np, sr_control = c, sr_limiter = lim\<rparr>
           else sg_routes (https_unregister_tunnel g (nt_tunnel_name np)) k))
    | (Inl e, g') \<Rightarrow>
        (\<exists>d \<in> set ds. normalize_host d = [] \<or>
          (\<exists>w. sg_routes g (normalize_host d) = Some w \<and> sr_tunnel_name w \<noteq> nt_tunnel_name np)) \<and>
        sg_routes g' = sg_routes (https_unregister_tunnel g (nt_tunnel_name np))"
proof -
  let ?n = "nt_tunnel_name np"
  let ?gu = "https_unregister_tunnel g ?n"
  let ?rs = "https_routes np c lim ds"
  let ?all = "register_all https_register https_unregister_tunnel ?n ?gu ?rs"
  note own = https_routes_tunnel [of np c lim ds]
  have free: "(\<forall>w. sg_routes ?gu k = Some w \<longrightarrow> sr_tunnel_name w = ?n) \<longleftrightarrow>
      (\<forall>w. sg_routes g k = Some w \<longrightarrow> sr_tunnel_name w = ?n)" for k
    by (auto simp: https_unregister_tunnel_def split: option.splits)
  have iff: "fst ?all = Inr () \<longleftrightarrow> (\<forall>d \<in> set ds. normalize_host d \<noteq> [] \<and>
      (\<forall>w. sg_routes g (normalize_host d) = Some w \<longrightarrow> sr_tunnel_name w = ?n))"
    by (subst https.register_all_iff [OF TrueI own])
      (auto simp: https_routes_def https_key_def free split: if_splits)
  have twice: "sg_routes (https_unregister_tunnel ?gu ?n) = sg_routes ?gu"
    by (auto simp: https_unregister_tunnel_def split: option.splits)
  show ?thesis
  proof (cases "fst ?all = Inr ()")
    case True
    have "sg_routes (snd ?all) k = (if k \<in> normalize_host ` set ds
        then Some \<lparr>sr_tunnel_name = ?n, sr_control = c, sr_limiter = lim\<rparr> else sg_routes ?gu k)" for k
    proof -
      have "map (\<lambda>(d, v). (the (https_key d v), v)) ?rs = map (\<lambda>d. (normalize_host d,
          \<lparr>sr_tunnel_name = ?n, sr_control = c, sr_limiter = lim\<rparr>)) ds"
        using True iff by (auto simp: https_routes_def https_key_def)
      then show ?thesis
        using https.register_all_stores [OF TrueI own True]
        by (auto simp: map_add_def map_of_rev_const split: option.split)
    qed
    with True iff assms show ?thesis
      by (cases ?all) (auto simp: HttpsTunnel_register_def Let_def)
  next
    case False
    with iff assms https.register_all_rollback [OF TrueI own False] twice show ?thesis
      by (cases ?all) (auto simp: HttpsTunnel_register_def Let_def split: sum.split)
  qed
qed

theorem https_registration_witness:
  "case HttpsTunnel_register (demo_tunnel ''api'' []) () (HttpsGw_new 443 :: (unit, unit) HttpsGw) [] None of
      (Inr t, g') \<Rightarrow>
        (\<forall>d \<in> set [''a.b'']. normalize_host d \<noteq> [] \<and>
          (\<forall>w. sg_routes (HttpsGw_new 443 :: (unit, unit) HttpsGw) (normalize_host d) = Some w \<longrightarrow>
            sr_tunnel_name w = ''api'')) \<and>
        (\<forall>k. sg_routes g' k =
          (if k \<in> normalize_host ` set [''a.b'']
           then Some \<lparr>sr_tunnel_name = ''api'', sr_control = (), sr_limiter = None\<rparr>
           else sg_routes (https_unregister_tunnel (HttpsGw_new 443 :: (unit, unit) HttpsGw) ''api'') k))
    | (Inl e, g') \<Rightarrow>
        (\<exists>d \<in> set [''a.b'']. normalize_host d = [] \<or>
          (\<exists>w. sg_routes (HttpsGw_new 443 :: (unit, unit) HttpsGw) (normalize_host d) = Some w \<and>
            sr_tunnel_name w \<noteq> ''api'')) \<and>
        sg_routes g' = sg_routes (https_unregister_tunnel (HttpsGw_new 443 :: (unit, unit) HttpsGw) ''api'')"
  using https_registration [where np = "demo_tunnel ''api'' []" and root = "[]" and c = "()" and
      lim = None and g = "HttpsGw_new 443 :: (unit, unit) HttpsGw", unfolded demo_tunnel_fields,
      OF demo_domains] .

text \<open>Basic authentication. A route without credentials admits everyone. A route with credentials
  never admits a request without the header of its kind, and it admits the credentials whose
  encoding the header carries exactly when they are the route's user and password.\<close>

theorem basic_auth_decides:
  assumes "b64_decode code = Some (user @ '':'' @ pass)" and "utf8_valid (user @ '':'' @ pass)"
    and "CHR '':'' \<notin> set user" and "trim (''Basic '' @ code) = ''Basic '' @ code" and "trim code = code"
    and "code \<noteq> []" and "\<not> is_continuation (hd code)"
  shows "route_basic_auth_ok b64_decode route proxy
      (if proxy then other else Some (''Basic '' @ code)) (if proxy then Some (''Basic '' @ code) else other) =
    Returns ((hr_basic_auth_user route = [] \<and> hr_basic_auth_password route = []) \<or>
      (hr_basic_auth_user route = user \<and> hr_basic_auth_password route = pass))"
proof -
  have "split_once (CHR '':'') (user @ '':'' @ pass) = Some (user, pass)"
    using assms(3) by (simp add: split_once_Some)
  moreover have "is_char_boundary (''Basic '' @ code) 6"
    using assms(6,7) by (cases code) (simp_all add: is_char_boundary_def)
  ultimately have "parse_basic_auth b64_decode (''Basic '' @ code) = Returns (Some (user, pass))"
    using assms
    by (simp add: parse_basic_auth_def slice_to_def slice_from_def from_utf8_def eq_ignore_ascii_case_def)
  then show ?thesis by (auto simp: route_basic_auth_ok_def)
qed

theorem basic_auth_decides_witness:
  "route_basic_auth_ok (\<lambda>s. if s = ''dTpw'' then Some ''u:p'' else None)
      ((demo_route ''web'' ''/'')\<lparr>hr_basic_auth_user := ''u'', hr_basic_auth_password := ''p''\<rparr>) False
      (if False then None else Some (''Basic '' @ ''dTpw'')) (if False then Some (''Basic '' @ ''dTpw'') else None) =
    Returns ((hr_basic_auth_user ((demo_route ''web'' ''/'')
        \<lparr>hr_basic_auth_user := ''u'', hr_basic_auth_password := ''p''\<rparr>) = [] \<and>
      hr_basic_auth_password ((demo_route ''web'' ''/'')
        \<lparr>hr_basic_auth_user := ''u'', hr_basic_auth_password := ''p''\<rparr>) = []) \<or>
     (hr_basic_auth_user ((demo_route ''web'' ''/'')
        \<lparr>hr_basic_auth_user := ''u'', hr_basic_auth_password := ''p''\<rparr>) = ''u'' \<and>
      hr_basic_auth_password ((demo_route ''web'' ''/'')
        \<lparr>hr_basic_auth_user := ''u'', hr_basic_auth_password := ''p''\<rparr>) = ''p''))"
  by (rule basic_auth_decides)
    (simp_all add: str_simps utf8_valid.simps utf8_chunk_def lead_len_def byte_in_def is_continuation_def)



text \<open>A host of letters, digits, hyphens and dots is unchanged by trimming.\<close>

definition host_char :: "char \<Rightarrow> bool" where
  "host_char c \<longleftrightarrow> byte_in 48 57 c \<or> byte_in 65 90 c \<or> byte_in 97 122 c \<or> c = CHR ''-'' \<or> c = CHR ''.''"

lemma host_char_not_ws:
  assumes "host_char c"
  shows "\<not> ws1 c" "\<not> ws2 c d" "\<not> ws3 c d e" "\<not> ws2 d c" "\<not> ws3 d e c" "c \<noteq> CHR '':''" "c \<noteq> CHR ''[''"
  using assms by (auto simp: host_char_def byte_in_def ws1_def ws2_def ws3_def)

lemma trim_host_chars:
  assumes "s \<noteq> []" and "host_char (hd s)" and "host_char (last s)"
  shows "trim s = s"
proof (rule trim_fix)
  show "ws_len s = 0"
    using assms(1,2) by (cases s rule: ws_len.cases) (simp_all add: host_char_not_ws)
  have "rev s \<noteq> []" "host_char (hd (rev s))" using assms(1,3) by (simp_all add: hd_rev)
  then show "ws_len_rev (rev s) = 0"
    by (cases "rev s" rule: ws_len_rev.cases) (simp_all add: host_char_not_ws)
qed

lemma normalize_host_trimmed:
  assumes "trim s = s" and "strip_prefix ''['' s = None" and "takeWhile (\<lambda>c. c \<noteq> CHR '':'') s = h"
    and "trim h = h"
  shows "normalize_host s = to_ascii_lowercase (trim_end_matches ''.'' h)"
  using assms by (simp add: normalize_host_def)

lemma normalize_host_port:
  assumes "h \<noteq> []" and "list_all host_char h" and "list_all is_digit port" and "port \<noteq> []"
  shows "normalize_host (h @ '':'' @ port) = to_ascii_lowercase (trim_end_matches ''.'' h)"
proof (rule normalize_host_trimmed)
  obtain c t where h: "h = c # t" using \<open>h \<noteq> []\<close> by (cases h) auto
  have "host_char (last port)"
    using assms(3,4) by (auto simp: list_all_iff is_digit_def host_char_def byte_in_def)
  with assms h show "trim (h @ '':'' @ port) = h @ '':'' @ port"
    by (intro trim_host_chars) auto
  show "strip_prefix ''['' (h @ '':'' @ port) = None"
    using assms(2) h host_char_not_ws(7) by auto
  show "takeWhile (\<lambda>c. c \<noteq> CHR '':'') (h @ '':'' @ port) = h"
    using assms(2) by (simp add: takeWhile_append list_all_iff host_char_not_ws)
  show "trim h = h" using assms(1,2) by (intro trim_host_chars) (auto simp: list_all_iff)
qed

lemma normalize_host_plain:
  assumes "h \<noteq> []" and "list_all host_char h"
  shows "normalize_host h = to_ascii_lowercase (trim_end_matches ''.'' h)"
proof (rule normalize_host_trimmed)
  obtain c t where h: "h = c # t" using \<open>h \<noteq> []\<close> by (cases h) auto
  show "trim h = h" "trim h = h"
    using assms by (auto intro!: trim_host_chars simp: list_all_iff)
  show "strip_prefix ''['' h = None" using assms(2) h host_char_not_ws(7) by auto
  have "\<forall>c \<in> set h. c \<noteq> CHR '':''"
    using assms(2) host_char_not_ws(6) by (auto simp: list_all_iff)
  then show "takeWhile (\<lambda>c. c \<noteq> CHR '':'') h = h" by (simp only: takeWhile_eq_all_conv)
qed

lemma host_char_ascii_lower: "host_char c \<Longrightarrow> host_char (ascii_lower c)"
  by (auto simp: host_char_def ascii_lower_def byte_in_def of_char_of)

lemma ascii_lower_dot: "ascii_lower c = CHR ''.'' \<longleftrightarrow> c = CHR ''.''"
proof
  assume "ascii_lower c = CHR ''.''"
  then have "(of_char (ascii_lower c) :: nat) = 46" by simp
  then show "c = CHR ''.''"
    using \<open>ascii_lower c = CHR ''.''\<close>
    by (cases "65 \<le> (of_char c :: nat) \<and> (of_char c :: nat) \<le> 90")
      (simp_all add: ascii_lower_def of_char_of)
qed (simp add: ascii_lower_def)

lemma trim_dots_lower:
  "trim_end_matches ''.'' (to_ascii_lowercase h) = to_ascii_lowercase (trim_end_matches ''.'' h)"
  by (simp add: trim_end_matches_def to_ascii_lowercase_def rev_map dropWhile_map comp_def ascii_lower_dot)

text \<open>A request finds the routes of its host whatever the letter case of the Host header, with or
  without a port and with or without a trailing dot: all these spellings have the same key.\<close>

theorem normalize_host_spellings:
  assumes "h \<noteq> []" and "list_all host_char h" and "list_all is_digit port" and "port \<noteq> []"
  shows "normalize_host h = to_ascii_lowercase (trim_end_matches ''.'' h) \<and>
    normalize_host (h @ '':'' @ port) = normalize_host h \<and>
    normalize_host (to_ascii_lowercase h) = normalize_host h \<and>
    normalize_host (h @ ''.'') = normalize_host h"
proof -
  have lower: "to_ascii_lowercase h \<noteq> []" "list_all host_char (to_ascii_lowercase h)"
    using assms(1,2) by (auto simp: to_ascii_lowercase_def list_all_iff host_char_ascii_lower)
  have dot: "h @ ''.'' \<noteq> []" "list_all host_char (h @ ''.'')"
    using assms(2) by (simp_all add: host_char_def)
  show ?thesis
    using normalize_host_plain [OF assms(1,2)] normalize_host_port [OF assms]
      normalize_host_plain [OF lower] normalize_host_plain [OF dot]
    by (simp add: trim_dots_lower) (simp add: trim_end_matches_def)
qed

theorem normalize_host_spellings_witness:
  "normalize_host ''Ab.c'' = to_ascii_lowercase (trim_end_matches ''.'' ''Ab.c'') \<and>
    normalize_host (''Ab.c'' @ '':'' @ ''80'') = normalize_host ''Ab.c'' \<and>
    normalize_host (to_ascii_lowercase ''Ab.c'') = normalize_host ''Ab.c'' \<and>
    normalize_host (''Ab.c'' @ ''.'') = normalize_host ''Ab.c''"
  by (rule normalize_host_spellings) (simp_all add: host_char_def byte_in_def is_digit_def)

end
