(* ===== verification/Tunnel_Tables.thy ===== *)
theory Tunnel_Tables
  imports Rust_Prelude
begin

text \<open>
  The server's global tables: the claimed ports of \<open>server/src/tunnel/ports.rs\<close> (one table for TCP,
  one for UDP) and the tunnel names of \<open>server/src/tunnel/registry.rs\<close>. Each is a hash map behind a
  mutex, so its operations are atomic; the map is a partial function.
\<close>

section \<open>Ports\<close>

datatype table_error =
    InvalidRemotePort0
  | PortInUse u16 string
  | EmptyTunnelName
  | AlreadyRegistered string string u64

record PortTable =
  by_port :: "u16 \<rightharpoonup> string"

definition PortTable_new :: PortTable where
  "PortTable_new = \<lparr>by_port = Map.empty\<rparr>"

definition claim :: "PortTable \<Rightarrow> u16 \<Rightarrow> string \<Rightarrow> (table_error + unit) \<times> PortTable" where
  "claim t port tunnel_name =
     (if port = 0 then (Inl InvalidRemotePort0, t)
      else (case by_port t port of
              Some existing \<Rightarrow> (Inl (PortInUse port existing), t)
            | None \<Rightarrow> (Inr (), t\<lparr>by_port := (by_port t)(port \<mapsto> tunnel_name)\<rparr>)))"

definition release :: "PortTable \<Rightarrow> u16 \<Rightarrow> string \<Rightarrow> PortTable" where
  "release t port tunnel_name =
     (if by_port t port = Some tunnel_name then t\<lparr>by_port := (by_port t)(port := None)\<rparr> else t)"

section \<open>Names\<close>

record TunnelOwner =
  to_session_id :: string
  to_generation :: u64

record TunnelRegistry =
  by_name :: "string \<rightharpoonup> TunnelOwner"

definition TunnelRegistry_new :: TunnelRegistry where
  "TunnelRegistry_new = \<lparr>by_name = Map.empty\<rparr>"

definition try_insert ::
    "TunnelRegistry \<Rightarrow> string \<Rightarrow> TunnelOwner \<Rightarrow> (table_error + unit) \<times> TunnelRegistry" where
  "try_insert t name owner =
     (let name = trim name
      in if name = [] then (Inl EmptyTunnelName, t)
         else (case by_name t name of
                 Some existing \<Rightarrow>
                   (Inl (AlreadyRegistered name (to_session_id existing) (to_generation existing)), t)
               | None \<Rightarrow> (Inr (), t\<lparr>by_name := (by_name t)(name \<mapsto> owner)\<rparr>)))"

definition remove_if_owner :: "TunnelRegistry \<Rightarrow> string \<Rightarrow> TunnelOwner \<Rightarrow> TunnelRegistry" where
  "remove_if_owner t name owner =
     (if by_name t name = Some owner then t\<lparr>by_name := (by_name t)(name := None)\<rparr> else t)"

section \<open>The contract of a slot table\<close>

text \<open>What the control sessions rely on: a free valid slot can be claimed, a held slot cannot, and
  only its holder frees it. Two sessions therefore never hold one slot at the same time, whatever
  the order in which their calls reach the table.\<close>

datatype ('k, 'o) slot_op = Claim 'k 'o | Release 'k 'o

fun slot_key :: "('k, 'o) slot_op \<Rightarrow> 'k" where
  "slot_key (Claim k h) = k"
| "slot_key (Release k h) = k"

fun slot_step ::
    "('t \<Rightarrow> 'k \<Rightarrow> 'o \<Rightarrow> ('e + unit) \<times> 't) \<Rightarrow> ('t \<Rightarrow> 'k \<Rightarrow> 'o \<Rightarrow> 't) \<Rightarrow> 't \<Rightarrow> ('k, 'o) slot_op \<Rightarrow>
     ('e + unit) \<times> 't" where
  "slot_step clm rls t (Claim k h) = clm t k h"
| "slot_step clm rls t (Release k h) = (Inr (), rls t k h)"

locale slot_table =
  fixes clm :: "'t \<Rightarrow> 'k \<Rightarrow> 'o \<Rightarrow> ('e + unit) \<times> 't"
    and rls :: "'t \<Rightarrow> 'k \<Rightarrow> 'o \<Rightarrow> 't"
    and holder :: "'t \<Rightarrow> 'k \<Rightarrow> 'o option"
    and valid :: "'k \<Rightarrow> bool"
  assumes claim_free: "valid k \<Longrightarrow> holder t k = None \<Longrightarrow>
      fst (clm t k h) = Inr () \<and> holder (snd (clm t k h)) = (holder t)(k \<mapsto> h)"
    and claim_held: "valid k \<Longrightarrow> holder t k = Some h' \<Longrightarrow>
      fst (clm t k h) \<noteq> Inr () \<and> holder (snd (clm t k h)) = holder t"
    and release_holder: "holder (rls t k h) =
      (if holder t k = Some h then (holder t)(k := None) else holder t)"
begin

lemma claim_other: "valid k' \<Longrightarrow> k \<noteq> k' \<Longrightarrow> holder (snd (clm t k' h)) k = holder t k"
  using claim_free [of k' t h] claim_held [of k' t _ h] by (cases "holder t k'") auto

lemma step_keeps:
  assumes "holder t k = Some h" and "valid (slot_key ev)" and "ev \<noteq> Release k h"
  shows "holder (snd (slot_step clm rls t ev)) k = Some h"
proof (cases ev)
  case (Claim k' h')
  with assms claim_held [of k' t h h'] claim_other [of k' k t h'] show ?thesis
    by (cases "k' = k") simp_all
next
  case (Release k' h')
  with assms show ?thesis by (auto simp: release_holder)
qed

lemma held_until_released:
  assumes "holder t k = Some h" and "list_all (\<lambda>ev. valid (slot_key ev)) evs"
    and "Release k h \<notin> set evs"
  shows "holder (snd (run_ops (slot_step clm rls) t evs)) k = Some h"
  using assms
proof (induction evs arbitrary: t)
  case Nil
  then show ?case by simp
next
  case (Cons ev evs)
  then have "holder (snd (slot_step clm rls t ev)) k = Some h"
    by (intro step_keeps) auto
  with Cons show ?case by (simp add: run_ops_Cons del: run_ops.simps(2))
qed

lemma claim_fails_while_held:
  assumes "holder t k = Some h" and "list_all (\<lambda>ev. valid (slot_key ev)) evs"
    and "Release k h \<notin> set evs" and "i < length evs" and "evs ! i = Claim k h'"
  shows "fst (run_ops (slot_step clm rls) t evs) ! i \<noteq> Inr ()"
  using assms
proof (induction evs arbitrary: t i)
  case Nil
  then show ?case by simp
next
  case (Cons ev evs)
  show ?case
  proof (cases i)
    case 0
    with Cons.prems claim_held [of k t h h'] show ?thesis
      by (simp add: run_ops_Cons del: run_ops.simps(2))
  next
    case (Suc j)
    from Cons.prems have "holder (snd (slot_step clm rls t ev)) k = Some h"
      by (intro step_keeps) auto
    with Suc Cons.prems Cons.IH [of "snd (slot_step clm rls t ev)" j] show ?thesis
      by (simp add: run_ops_Cons del: run_ops.simps(2))
  qed
qed

end

interpretation ports: slot_table claim release by_port "\<lambda>p. p \<noteq> 0"
  by unfold_locales (auto simp: claim_def release_def split: option.splits)

interpretation names: slot_table try_insert remove_if_owner by_name "\<lambda>n. trim n = n \<and> n \<noteq> []"
  by unfold_locales (auto simp: try_insert_def remove_if_owner_def Let_def split: option.splits)

section \<open>Properties\<close>

text \<open>C20. Ports are exclusive: once a tunnel holds a port, it keeps it through every sequence of
  claims and releases by any tunnels in which it does not release the port itself, and every claim
  of the port in between fails.\<close>

theorem port_exclusive:
  assumes "by_port t p = Some n" and "list_all (\<lambda>ev. slot_key ev \<noteq> 0) evs"
    and "Release p n \<notin> set evs"
  shows "by_port (snd (run_ops (slot_step claim release) t evs)) p = Some n \<and>
    (\<forall>i n'. i < length evs \<and> evs ! i = Claim p n' \<longrightarrow>
      fst (run_ops (slot_step claim release) t evs) ! i \<noteq> Inr ())"
  using ports.held_until_released [OF assms] ports.claim_fails_while_held [OF assms] by blast

theorem port_exclusive_witness:
  "by_port (snd (run_ops (slot_step claim release) \<lparr>by_port = [22 \<mapsto> ''ssh'']\<rparr>
      [Claim 22 ''web'', Release 22 ''web''])) 22 = Some ''ssh'' \<and>
    fst (run_ops (slot_step claim release) \<lparr>by_port = [22 \<mapsto> ''ssh'']\<rparr>
      [Claim 22 ''web'', Release 22 ''web'']) ! 0 \<noteq> Inr ()"
  using port_exclusive [of "\<lparr>by_port = [22 \<mapsto> ''ssh'']\<rparr>" 22 "''ssh''"
      "[Claim 22 ''web'', Release 22 ''web'']"]
  by fastforce

text \<open>Tunnel names are exclusive across sessions: once a session generation has registered a
  name, no other registration of the name succeeds and nobody else can remove it, until that very
  owner removes it. The names are the ones without surrounding white space.\<close>

theorem name_exclusive:
  assumes "by_name t n = Some ow"
    and "list_all (\<lambda>ev. trim (slot_key ev) = slot_key ev \<and> slot_key ev \<noteq> []) evs"
    and "Release n ow \<notin> set evs"
  shows "by_name (snd (run_ops (slot_step try_insert remove_if_owner) t evs)) n = Some ow \<and>
    (\<forall>i ow'. i < length evs \<and> evs ! i = Claim n ow' \<longrightarrow>
      fst (run_ops (slot_step try_insert remove_if_owner) t evs) ! i \<noteq> Inr ())"
  using names.held_until_released [OF assms] names.claim_fails_while_held [OF assms] by blast

theorem name_exclusive_witness:
  "by_name (snd (run_ops (slot_step try_insert remove_if_owner)
      \<lparr>by_name = [''ssh'' \<mapsto> \<lparr>to_session_id = ''s'', to_generation = 1\<rparr>]\<rparr>
      [Claim ''ssh'' \<lparr>to_session_id = ''t'', to_generation = 2\<rparr>])) ''ssh'' =
      Some \<lparr>to_session_id = ''s'', to_generation = 1\<rparr> \<and>
    fst (run_ops (slot_step try_insert remove_if_owner)
      \<lparr>by_name = [''ssh'' \<mapsto> \<lparr>to_session_id = ''s'', to_generation = 1\<rparr>]\<rparr>
      [Claim ''ssh'' \<lparr>to_session_id = ''t'', to_generation = 2\<rparr>]) ! 0 \<noteq> Inr ()"
proof -
  have "trim ''ssh'' = ''ssh''" by (simp add: str_simps)
  then show ?thesis
    using name_exclusive [of "\<lparr>by_name = [''ssh'' \<mapsto> \<lparr>to_session_id = ''s'', to_generation = 1\<rparr>]\<rparr>"
        "''ssh''" "\<lparr>to_session_id = ''s'', to_generation = 1\<rparr>"
        "[Claim ''ssh'' \<lparr>to_session_id = ''t'', to_generation = 2\<rparr>]"]
    by fastforce
qed

end
