(* ===== verification/Metrics.thy ===== *)
theory Metrics
  imports Rust_Prelude
begin

text \<open>
  The in-memory metrics of \<open>server/src/metrics\<close>: the atomic counter, the daily and hourly rolling
  counters, and \<open>MemMetrics\<close> with its snapshots. Dates are day numbers and times are unix seconds
  with the local offset from UTC; the clock is an argument of every operation that reads it. The
  64-bit counts of the rolling counters are integers with the saturation of the code written out.
\<close>

section \<open>The clock\<close>

record clock =
  ck_date :: int
  ck_time :: int
  ck_offset :: int

definition truncate_hour :: "clock \<Rightarrow> int" where
  "truncate_hour t = ck_time t - (ck_time t + ck_offset t) mod 3600"

section \<open>Counters\<close>

type_synonym Counter = i64

definition Counter_new :: Counter where
  "Counter_new = 0"

definition counter_inc :: "Counter \<Rightarrow> i64 \<Rightarrow> Counter" where
  "counter_inc c delta = c + delta"

definition counter_dec :: "Counter \<Rightarrow> i64 \<Rightarrow> Counter" where
  "counter_dec c delta = c - delta"

definition counter_count :: "Counter \<Rightarrow> i64" where
  "counter_count c = c"

definition saturating_add_i64 :: "int \<Rightarrow> int \<Rightarrow> int" where
  "saturating_add_i64 a b = max (- (2 ^ 63)) (min (2 ^ 63 - 1) (a + b))"

text \<open>\<open>rotate_right\<close> on a vector, and the loop that clears its first slots.\<close>

definition rotate_right :: "nat \<Rightarrow> 'a list \<Rightarrow> 'a list" where
  "rotate_right n xs = drop (length xs - n) xs @ take (length xs - n) xs"

definition clear_first :: "nat \<Rightarrow> int list \<Rightarrow> int list" where
  "clear_first n xs = replicate (min n (length xs)) 0 @ drop n xs"

section \<open>Days\<close>

record DateCounter =
  dc_reserve_days :: nat
  dc_counts :: "int list"
  dc_last_date :: int

definition DateCounter_new :: "nat \<Rightarrow> clock \<Rightarrow> DateCounter" where
  "DateCounter_new reserve_days now =
     (let reserve_days = max reserve_days 1
      in \<lparr>dc_reserve_days = reserve_days, dc_counts = replicate reserve_days 0,
          dc_last_date = ck_date now\<rparr>)"

definition date_rotate :: "DateCounter \<Rightarrow> int \<Rightarrow> DateCounter" where
  "date_rotate c today =
     (if today \<le> dc_last_date c then c
      else let days = today - dc_last_date c
           in if days \<le> 0 then c
              else let shift = nat days
                   in if dc_reserve_days c \<le> shift
                      then c\<lparr>dc_counts := replicate (length (dc_counts c)) 0, dc_last_date := today\<rparr>
                      else c\<lparr>dc_counts := clear_first shift (rotate_right shift (dc_counts c)),
                             dc_last_date := today\<rparr>)"

definition today_count :: "DateCounter \<Rightarrow> clock \<Rightarrow> int \<times> DateCounter" where
  "today_count c now = (let c = date_rotate c (ck_date now) in (dc_counts c ! 0, c))"

definition last_days :: "DateCounter \<Rightarrow> nat \<Rightarrow> clock \<Rightarrow> int list \<times> DateCounter" where
  "last_days c days now =
     (let c = date_rotate c (ck_date now); n = min days (dc_reserve_days c) in (take n (dc_counts c), c))"

definition date_inc :: "DateCounter \<Rightarrow> int \<Rightarrow> clock \<Rightarrow> DateCounter" where
  "date_inc c delta now =
     (let c = date_rotate c (ck_date now)
      in c\<lparr>dc_counts := (dc_counts c)[0 := saturating_add_i64 (dc_counts c ! 0) delta]\<rparr>)"

section \<open>Hours\<close>

record HourCounter =
  hc_reserve_hours :: nat
  hc_counts :: "int list"
  hc_last_hour :: int

definition HourCounter_new :: "nat \<Rightarrow> clock \<Rightarrow> HourCounter" where
  "HourCounter_new reserve_hours now =
     (let reserve_hours = max reserve_hours 1
      in \<lparr>hc_reserve_hours = reserve_hours, hc_counts = replicate reserve_hours 0,
          hc_last_hour = truncate_hour now\<rparr>)"

definition hour_rotate :: "HourCounter \<Rightarrow> clock \<Rightarrow> HourCounter" where
  "hour_rotate c now =
     (let current = truncate_hour now
      in if current \<le> hc_last_hour c then c
         else let hours = (current - hc_last_hour c) div 3600
              in if hours \<le> 0 then c
                 else let shift = nat hours
                      in if hc_reserve_hours c \<le> shift
                         then c\<lparr>hc_counts := replicate (length (hc_counts c)) 0, hc_last_hour := current\<rparr>
                         else c\<lparr>hc_counts := clear_first shift (rotate_right shift (hc_counts c)),
                                hc_last_hour := current\<rparr>)"

definition last_hours :: "HourCounter \<Rightarrow> nat \<Rightarrow> clock \<Rightarrow> int list \<times> HourCounter" where
  "last_hours c hours now =
     (let c = hour_rotate c now; n = min hours (hc_reserve_hours c) in (take n (hc_counts c), c))"

definition hour_inc :: "HourCounter \<Rightarrow> int \<Rightarrow> clock \<Rightarrow> HourCounter" where
  "hour_inc c delta now =
     (let c = hour_rotate c now
      in c\<lparr>hc_counts := (hc_counts c)[0 := saturating_add_i64 (hc_counts c ! 0) delta]\<rparr>)"

section \<open>Rolling counters\<close>

text \<open>The ledger a rolling counter abbreviates: every amount is booked on the latest tick seen so far
  (a clock that goes back books on the tick it had reached).\<close>

fun book :: "int \<Rightarrow> (int \<Rightarrow> int) \<Rightarrow> (int \<times> int) list \<Rightarrow> int \<times> (int \<Rightarrow> int)" where
  "book cur b [] = (cur, b)"
| "book cur b ((t, d) # evs) = book (max cur t) (b(max cur t := b (max cur t) + d)) evs"

definition shifted :: "nat \<Rightarrow> int list \<Rightarrow> int list" where
  "shifted n xs = map (\<lambda>age. if age < n then 0 else xs ! (age - n)) [0..<length xs]"

lemma length_shifted [simp]: "length (shifted n xs) = length xs"
  by (simp add: shifted_def)

lemma clear_rotate: "n < length xs \<Longrightarrow> clear_first n (rotate_right n xs) = shifted n xs"
proof -
  assume "n < length xs"
  then have "clear_first n (rotate_right n xs) = replicate n 0 @ take (length xs - n) xs"
    by (simp add: clear_first_def rotate_right_def)
  also have "\<dots> = shifted n xs"
    using \<open>n < length xs\<close> by (intro nth_equalityI) (auto simp: shifted_def nth_append)
  finally show ?thesis .
qed

lemma all_shifted: "length xs \<le> n \<Longrightarrow> replicate (length xs) 0 = shifted n xs"
  by (rule nth_equalityI) (auto simp: shifted_def)

text \<open>The slots \<open>xs\<close> of a counter whose latest tick is \<open>l\<close> show the ledger \<open>b\<close>, of which nothing is
  booked after the latest tick.\<close>

definition shows_ledger :: "int list \<Rightarrow> int \<Rightarrow> (int \<Rightarrow> int) \<Rightarrow> bool" where
  "shows_ledger xs l b \<longleftrightarrow>
     (\<forall>age < length xs. xs ! age = b (l - int age)) \<and> (\<forall>t > l. b t = 0)"

locale rolling_counter =
  fixes wf :: "'c \<Rightarrow> bool"
    and counts :: "'c \<Rightarrow> int list"
    and latest :: "'c \<Rightarrow> int"
    and tick :: "'now \<Rightarrow> int"
    and rot :: "'c \<Rightarrow> 'now \<Rightarrow> 'c"
    and inc :: "'c \<Rightarrow> int \<Rightarrow> 'now \<Rightarrow> 'c"
    and clock_ok :: "'c \<Rightarrow> 'now \<Rightarrow> bool"
  assumes wf_nonempty: "wf c \<Longrightarrow> counts c \<noteq> []"
    and wf_inc: "wf c \<Longrightarrow> clock_ok c t \<Longrightarrow> wf (inc c d t)"
    and clock_ok_inc: "wf c \<Longrightarrow> clock_ok c t \<Longrightarrow> clock_ok (inc c d t) t' \<longleftrightarrow> clock_ok c t'"
    and rot_latest: "wf c \<Longrightarrow> clock_ok c t \<Longrightarrow> latest (rot c t) = max (latest c) (tick t)"
    and rot_counts: "wf c \<Longrightarrow> clock_ok c t \<Longrightarrow>
      counts (rot c t) = shifted (nat (tick t - latest c)) (counts c)"
    and inc_latest: "wf c \<Longrightarrow> clock_ok c t \<Longrightarrow> latest (inc c d t) = latest (rot c t)"
    and inc_counts: "wf c \<Longrightarrow> clock_ok c t \<Longrightarrow>
      counts (inc c d t) = (counts (rot c t))[0 := saturating_add_i64 (counts (rot c t) ! 0) d]"
begin

lemma shows_rot:
  assumes "wf c" and "clock_ok c t" and "shows_ledger (counts c) (latest c) b"
  shows "shows_ledger (counts (rot c t)) (latest (rot c t)) b"
proof -
  have "b (max (latest c) (tick t) - int age) = 0"
    if "age < nat (tick t - latest c)" for age
    using that assms(3) by (auto simp: shows_ledger_def max_def)
  moreover have "counts c ! (age - nat (tick t - latest c)) = b (max (latest c) (tick t) - int age)"
    if "\<not> age < nat (tick t - latest c)" "age < length (counts c)" for age
    using that assms(3) by (auto simp: shows_ledger_def max_def algebra_simps intro!: arg_cong [where f = b])
  ultimately show ?thesis
    using assms by (auto simp: shows_ledger_def rot_latest rot_counts shifted_def)
qed

lemma shows_inc:
  assumes "wf c" and "clock_ok c t" and "shows_ledger (counts c) (latest c) b" and "0 \<le> b (max (latest c) (tick t))"
    and "0 \<le> d" and "b (max (latest c) (tick t)) + d < 2 ^ 63"
  shows "shows_ledger (counts (inc c d t)) (latest (inc c d t)) (b(max (latest c) (tick t) := b (max (latest c) (tick t)) + d))"
proof -
  let ?m = "max (latest c) (tick t)"
  have r: "shows_ledger (counts (rot c t)) (latest (rot c t)) b" by (rule shows_rot [OF assms(1-3)])
  have len: "0 < length (counts (rot c t))"
    using wf_nonempty [OF assms(1)] assms(1,2) by (simp add: rot_counts)
  have head: "counts (rot c t) ! 0 = b ?m"
    using r len assms(1,2) by (auto simp: shows_ledger_def rot_latest)
  have "saturating_add_i64 (b ?m) d = b ?m + d"
    using assms(4-6) by (simp add: saturating_add_i64_def)
  then show ?thesis
    using r len head assms(1,2)
    by (auto simp: shows_ledger_def inc_latest inc_counts rot_latest nth_list_update)
qed

lemma history_exact:
  assumes "wf c" and "list_all (\<lambda>(t, d). clock_ok c t \<and> 0 \<le> d) evs" and "shows_ledger (counts c) (latest c) b"
    and "\<And>k. 0 \<le> b k" and "\<And>k. b k + sum_list (map snd evs) < 2 ^ 63"
  shows "shows_ledger (counts (fold (\<lambda>(t, d) c. inc c d t) evs c))
    (latest (fold (\<lambda>(t, d) c. inc c d t) evs c))
    (snd (book (latest c) b (map (\<lambda>(t, d). (tick t, d)) evs)))"
  using assms
proof (induction evs arbitrary: c b)
  case Nil
  then show ?case by simp
next
  case (Cons ev evs)
  obtain t d where ev: "ev = (t, d)" by (cases ev)
  let ?m = "max (latest c) (tick t)"
  have td: "clock_ok c t" "0 \<le> d" "list_all (\<lambda>(t, d). clock_ok c t \<and> 0 \<le> d) evs"
    using Cons.prems(2) by (simp_all add: ev)
  have rest: "0 \<le> sum_list (map snd evs)"
    using td(3) by (fastforce simp: list_all_iff intro!: sum_list_nonneg)
  have bound: "b k + d + sum_list (map snd evs) < 2 ^ 63" for k
    using Cons.prems(5) [of k] by (simp add: ev)
  have one: "b ?m + d < 2 ^ 63" using bound [of ?m] rest by linarith
  have "shows_ledger (counts (fold (\<lambda>(t, d) c. inc c d t) evs (inc c d t)))
      (latest (fold (\<lambda>(t, d) c. inc c d t) evs (inc c d t)))
      (snd (book (latest (inc c d t)) (b(?m := b ?m + d)) (map (\<lambda>(t, d). (tick t, d)) evs)))"
  proof (rule Cons.IH)
    show "wf (inc c d t)" by (rule wf_inc [OF Cons.prems(1) td(1)])
    show "list_all (\<lambda>(t', d'). clock_ok (inc c d t) t' \<and> 0 \<le> d') evs"
      using td(3) by (simp add: clock_ok_inc [OF Cons.prems(1) td(1)])
    show "shows_ledger (counts (inc c d t)) (latest (inc c d t)) (b(?m := b ?m + d))"
      by (rule shows_inc [OF Cons.prems(1) td(1) Cons.prems(3) Cons.prems(4) td(2) one])
    show "0 \<le> (b(?m := b ?m + d)) k" for k using Cons.prems(4) [of k] Cons.prems(4) [of ?m] td(2) by simp
    show "(b(?m := b ?m + d)) k + sum_list (map snd evs) < 2 ^ 63" for k
      using bound [of k] bound [of ?m] td(2) by (auto split: if_splits)
  qed
  then show ?case
    by (simp add: ev inc_latest [OF Cons.prems(1) td(1)] rot_latest [OF Cons.prems(1) td(1)])
qed

lemma wf_fold:
  assumes "wf c" and "list_all (\<lambda>(t, d). clock_ok c t) evs"
  shows "wf (fold (\<lambda>(t, d) c. inc c d t) evs c) \<and>
    (\<forall>t. clock_ok (fold (\<lambda>(t, d) c. inc c d t) evs c) t \<longleftrightarrow> clock_ok c t) \<and>
    latest (fold (\<lambda>(t, d) c. inc c d t) evs c) = fst (book (latest c) b (map (\<lambda>(t, d). (tick t, d)) evs))"
  using assms
proof (induction evs arbitrary: c b)
  case Nil
  then show ?case by simp
next
  case (Cons ev evs)
  obtain t d where ev: "ev = (t, d)" by (cases ev)
  have ok: "wf c" "clock_ok c t" using Cons.prems by (simp_all add: ev)
  have "list_all (\<lambda>(t', d'). clock_ok (inc c d t) t') evs"
    using Cons.prems(2) by (simp add: ev clock_ok_inc [OF ok])
  from Cons.IH [OF wf_inc [OF ok] this] show ?case
    by (simp add: ev clock_ok_inc [OF ok] inc_latest [OF ok] rot_latest [OF ok])
qed

lemma window_exact:
  assumes "wf c" and "list_all (\<lambda>(t, d). clock_ok c t \<and> 0 \<le> d) evs" and "clock_ok c now"
    and "\<forall>x \<in> set (counts c). x = 0" and "sum_list (map snd evs) < 2 ^ 63"
    and "book (latest c) (\<lambda>_. 0) (map (\<lambda>(t, d). (tick t, d)) evs) = (l, b)"
    and "age < length (counts (rot (fold (\<lambda>(t, d) c. inc c d t) evs c) now))"
  shows "counts (rot (fold (\<lambda>(t, d) c. inc c d t) evs c) now) ! age = b (max l (tick now) - int age)"
proof -
  let ?c = "fold (\<lambda>(t, d) c. inc c d t) evs c"
  have oks: "list_all (\<lambda>(t, d). clock_ok c t) evs"
    using assms(2) by (auto simp: list_all_iff)
  have c: "wf ?c" "clock_ok ?c now" "latest ?c = l"
    using wf_fold [OF assms(1) oks, of "\<lambda>_. 0"] assms(3,6) by simp_all
  have "shows_ledger (counts c) (latest c) (\<lambda>_. 0)" using assms(4) by (simp add: shows_ledger_def)
  from history_exact [OF assms(1,2) this] have "shows_ledger (counts ?c) (latest ?c) b"
    using assms(5,6) by simp
  from shows_rot [OF c(1,2) this] show ?thesis
    using assms(7) c by (auto simp: shows_ledger_def rot_latest)
qed

end

lemma shifted_0 [simp]: "shifted 0 xs = xs"
  by (simp add: shifted_def map_nth)

lemma shifted_not_Nil [simp]: "shifted n xs = [] \<longleftrightarrow> xs = []"
  by (simp add: shifted_def)

lemma date_rotate_shifted:
  assumes "length (dc_counts c) = dc_reserve_days c"
  shows "date_rotate c today = (if today \<le> dc_last_date c then c
    else c\<lparr>dc_counts := shifted (nat (today - dc_last_date c)) (dc_counts c), dc_last_date := today\<rparr>)"
  by (auto simp: date_rotate_def Let_def clear_rotate all_shifted simp flip: assms)

interpretation days: rolling_counter "\<lambda>c. dc_counts c \<noteq> [] \<and> length (dc_counts c) = dc_reserve_days c"
    dc_counts dc_last_date ck_date "\<lambda>c now. date_rotate c (ck_date now)" date_inc "\<lambda>_ _. True"
  by unfold_locales (auto simp: date_inc_def Let_def date_rotate_shifted)

lemma hour_aligned_div:
  assumes "a mod 3600 = b mod (3600 :: int)"
  shows "(a - b) div 3600 = a div 3600 - b div 3600" "a \<le> b \<longleftrightarrow> a div 3600 \<le> b div 3600"
proof -
  have d: "a - b = 3600 * (a div 3600 - b div 3600)"
    using assms by (metis add_diff_cancel_right mult_div_mod_eq right_diff_distrib)
  show "(a - b) div 3600 = a div 3600 - b div 3600" unfolding d by simp
  have "a \<le> b \<longleftrightarrow> a - b \<le> 0" by simp
  also have "\<dots> \<longleftrightarrow> a div 3600 \<le> b div 3600" unfolding d by (simp add: mult_le_0_iff)
  finally show "a \<le> b \<longleftrightarrow> a div 3600 \<le> b div 3600" .
qed

lemma hour_rotate_aligned:
  assumes "hc_counts c \<noteq> []" and "length (hc_counts c) = hc_reserve_hours c"
    and "truncate_hour t mod 3600 = hc_last_hour c mod 3600"
  shows "hour_rotate c t = (if truncate_hour t \<le> hc_last_hour c then c
    else c\<lparr>hc_counts := shifted (nat (truncate_hour t div 3600 - hc_last_hour c div 3600)) (hc_counts c),
           hc_last_hour := truncate_hour t\<rparr>)"
  using assms(1) hour_aligned_div [OF assms(3)]
  by (auto simp: hour_rotate_def Let_def clear_rotate all_shifted simp flip: assms(2))

interpretation hours: rolling_counter "\<lambda>c. hc_counts c \<noteq> [] \<and> length (hc_counts c) = hc_reserve_hours c"
    hc_counts "\<lambda>c. hc_last_hour c div 3600" "\<lambda>now. truncate_hour now div 3600" hour_rotate hour_inc
    "\<lambda>c now. truncate_hour now mod 3600 = hc_last_hour c mod 3600"
proof unfold_locales
  fix c :: HourCounter and t d
  assume wf: "hc_counts c \<noteq> [] \<and> length (hc_counts c) = hc_reserve_hours c"
    and ok: "truncate_hour t mod 3600 = hc_last_hour c mod 3600"
  note rotated = hour_rotate_aligned [OF conjunct1 [OF wf] conjunct2 [OF wf] ok]
  show "hc_counts (hour_inc c d t) \<noteq> [] \<and> length (hc_counts (hour_inc c d t)) = hc_reserve_hours (hour_inc c d t)"
    using wf by (auto simp: hour_inc_def Let_def rotated simp flip: length_greater_0_conv)
  show "truncate_hour t' mod 3600 = hc_last_hour (hour_inc c d t) mod 3600 \<longleftrightarrow>
      truncate_hour t' mod 3600 = hc_last_hour c mod 3600" for t'
    using ok by (simp add: hour_inc_def Let_def rotated)
  show "hc_last_hour (hour_rotate c t) div 3600 = max (hc_last_hour c div 3600) (truncate_hour t div 3600)"
    using hour_aligned_div(2) [OF ok] by (auto simp: rotated max_def)
  show "hc_counts (hour_rotate c t) =
      shifted (nat (truncate_hour t div 3600 - hc_last_hour c div 3600)) (hc_counts c)"
    using hour_aligned_div(2) [OF ok] by (auto simp: rotated)
qed (auto simp: hour_inc_def Let_def)

section \<open>The metrics store\<close>

datatype TrafficWindow = Days7 | Hours24

definition TrafficWindow_parse :: "string \<Rightarrow> TrafficWindow" where
  "TrafficWindow_parse raw =
     (if to_ascii_lowercase (trim raw) \<in> {''24h'', ''hour'', ''hours'', ''1d''} then Hours24 else Days7)"

definition RESERVE_DAYS :: nat where "RESERVE_DAYS = 7"

definition RESERVE_HOURS :: nat where "RESERVE_HOURS = 24"

record ServerSnapshot =
  ss_total_traffic_in :: nat
  ss_total_traffic_out :: nat
  ss_active_connections :: nat
  ss_client_counts :: nat
  ss_total_client_counts :: nat
  ss_tunnel_type_counts :: "string \<rightharpoonup> nat"

record TunnelSnapshot =
  ts_name :: string
  ts_tunnel_type :: string
  ts_user :: string
  ts_session_id :: string
  ts_today_traffic_in :: nat
  ts_today_traffic_out :: nat
  ts_active_connections :: nat
  ts_last_start_at :: "int option"
  ts_last_close_at :: "int option"

record TunnelStats =
  tst_tunnel_type :: string
  tst_user :: string
  tst_session_id :: string
  tst_traffic_in :: DateCounter
  tst_traffic_out :: DateCounter
  tst_traffic_in_hourly :: HourCounter
  tst_traffic_out_hourly :: HourCounter
  tst_active_connections :: Counter
  tst_last_start_unix :: "int option"
  tst_last_close_unix :: "int option"

definition TunnelStats_new :: "string \<Rightarrow> string \<Rightarrow> string \<Rightarrow> clock \<Rightarrow> TunnelStats" where
  "TunnelStats_new tunnel_type user session_id now =
     \<lparr>tst_tunnel_type = tunnel_type, tst_user = user, tst_session_id = session_id,
      tst_traffic_in = DateCounter_new RESERVE_DAYS now,
      tst_traffic_out = DateCounter_new RESERVE_DAYS now,
      tst_traffic_in_hourly = HourCounter_new RESERVE_HOURS now,
      tst_traffic_out_hourly = HourCounter_new RESERVE_HOURS now,
      tst_active_connections = Counter_new, tst_last_start_unix = None, tst_last_close_unix = None\<rparr>"

text \<open>The set of clients seen is a list without duplicates; its order stands for the iteration order of
  the hash set, on which nothing below depends.\<close>

record MemMetrics =
  mm_total_traffic_in :: DateCounter
  mm_total_traffic_out :: DateCounter
  mm_total_traffic_in_hourly :: HourCounter
  mm_total_traffic_out_hourly :: HourCounter
  mm_active_connections :: Counter
  mm_client_counts :: Counter
  mm_seen_clients :: "string list"
  mm_tunnel_type_counts :: "string \<rightharpoonup> Counter"
  mm_tunnels :: "string \<rightharpoonup> TunnelStats"

definition MemMetrics_new :: "clock \<Rightarrow> MemMetrics" where
  "MemMetrics_new now =
     \<lparr>mm_total_traffic_in = DateCounter_new RESERVE_DAYS now,
      mm_total_traffic_out = DateCounter_new RESERVE_DAYS now,
      mm_total_traffic_in_hourly = HourCounter_new RESERVE_HOURS now,
      mm_total_traffic_out_hourly = HourCounter_new RESERVE_HOURS now,
      mm_active_connections = Counter_new, mm_client_counts = Counter_new, mm_seen_clients = [],
      mm_tunnel_type_counts = Map.empty, mm_tunnels = Map.empty\<rparr>"

text \<open>\<open>x.max(0) as usize\<close> for a counter, and \<open>x.max(0) as u64\<close> for a count.\<close>

definition shown_counter :: "Counter \<Rightarrow> nat" where
  "shown_counter c = nat (max 0 (sint (counter_count c)))"

definition server_snapshot :: "MemMetrics \<Rightarrow> clock \<Rightarrow> ServerSnapshot \<times> MemMetrics" where
  "server_snapshot g now =
     (let (tin, cin) = today_count (mm_total_traffic_in g) now;
          (tout, cout) = today_count (mm_total_traffic_out g) now
      in (\<lparr>ss_total_traffic_in = nat (max 0 tin), ss_total_traffic_out = nat (max 0 tout),
           ss_active_connections = shown_counter (mm_active_connections g),
           ss_client_counts = shown_counter (mm_client_counts g),
           ss_total_client_counts = length (mm_seen_clients g),
           ss_tunnel_type_counts = (\<lambda>k. case mm_tunnel_type_counts g k of
               None \<Rightarrow> None
             | Some v \<Rightarrow> if 0 < shown_counter v then Some (shown_counter v) else None)\<rparr>,
          g\<lparr>mm_total_traffic_in := cin, mm_total_traffic_out := cout\<rparr>))"

definition to_tunnel_snapshot :: "string \<Rightarrow> TunnelStats \<Rightarrow> clock \<Rightarrow> TunnelSnapshot \<times> TunnelStats" where
  "to_tunnel_snapshot name p now =
     (let (tin, cin) = today_count (tst_traffic_in p) now;
          (tout, cout) = today_count (tst_traffic_out p) now
      in (\<lparr>ts_name = name, ts_tunnel_type = tst_tunnel_type p, ts_user = tst_user p,
           ts_session_id = tst_session_id p, ts_today_traffic_in = nat (max 0 tin),
           ts_today_traffic_out = nat (max 0 tout),
           ts_active_connections = shown_counter (tst_active_connections p),
           ts_last_start_at = tst_last_start_unix p, ts_last_close_at = tst_last_close_unix p\<rparr>,
          p\<lparr>tst_traffic_in := cin, tst_traffic_out := cout\<rparr>))"

definition tunnel_snapshot :: "MemMetrics \<Rightarrow> string \<Rightarrow> clock \<Rightarrow> TunnelSnapshot option \<times> MemMetrics" where
  "tunnel_snapshot g name now =
     (case mm_tunnels g name of
        None \<Rightarrow> (None, g)
      | Some p \<Rightarrow>
          let (snap, p') = to_tunnel_snapshot name p now
          in (Some snap, g\<lparr>mm_tunnels := (mm_tunnels g)(name \<mapsto> p')\<rparr>))"

definition new_client :: "MemMetrics \<Rightarrow> string \<Rightarrow> MemMetrics" where
  "new_client g session_id =
     (let seen = (if session_id \<noteq> []
                  then let s = List.insert session_id (mm_seen_clients g)
                       in if 256 < length s then drop (length s - 256) s else s
                  else mm_seen_clients g)
      in g\<lparr>mm_seen_clients := seen, mm_client_counts := counter_inc (mm_client_counts g) 1\<rparr>)"

definition close_client :: "MemMetrics \<Rightarrow> MemMetrics" where
  "close_client g = g\<lparr>mm_client_counts := counter_dec (mm_client_counts g) 1\<rparr>"

definition new_tunnel :: "MemMetrics \<Rightarrow> string \<Rightarrow> string \<Rightarrow> string \<Rightarrow> string \<Rightarrow> clock \<Rightarrow> MemMetrics" where
  "new_tunnel g name tunnel_type user session_id now =
     (let cnt = (case mm_tunnel_type_counts g tunnel_type of None \<Rightarrow> Counter_new | Some c \<Rightarrow> c);
          old = (case mm_tunnels g name of
                   None \<Rightarrow> TunnelStats_new tunnel_type user session_id now | Some e \<Rightarrow> e);
          entry = (if tst_tunnel_type old \<noteq> tunnel_type
                   then TunnelStats_new tunnel_type user session_id now
                   else old\<lparr>tst_user := user, tst_session_id := session_id\<rparr>)
      in g\<lparr>mm_tunnel_type_counts := (mm_tunnel_type_counts g)(tunnel_type \<mapsto> counter_inc cnt 1),
           mm_tunnels := (mm_tunnels g)(name \<mapsto> entry\<lparr>tst_last_start_unix := Some (ck_time now)\<rparr>)\<rparr>)"

definition close_tunnel :: "MemMetrics \<Rightarrow> string \<Rightarrow> string \<Rightarrow> clock \<Rightarrow> MemMetrics" where
  "close_tunnel g name tunnel_type now =
     (let g = (case mm_tunnel_type_counts g tunnel_type of
                 Some c \<Rightarrow> g\<lparr>mm_tunnel_type_counts :=
                   (mm_tunnel_type_counts g)(tunnel_type \<mapsto> counter_dec c 1)\<rparr>
               | None \<Rightarrow> g)
      in (case mm_tunnels g name of
            Some e \<Rightarrow> g\<lparr>mm_tunnels := (mm_tunnels g)(name \<mapsto> e\<lparr>tst_last_close_unix := Some (ck_time now)\<rparr>)\<rparr>
          | None \<Rightarrow> g))"

definition upd_tunnel :: "MemMetrics \<Rightarrow> string \<Rightarrow> (TunnelStats \<Rightarrow> TunnelStats) \<Rightarrow> MemMetrics" where
  "upd_tunnel g name f =
     (case mm_tunnels g name of
        Some p \<Rightarrow> g\<lparr>mm_tunnels := (mm_tunnels g)(name \<mapsto> f p)\<rparr> | None \<Rightarrow> g)"

definition open_connection :: "MemMetrics \<Rightarrow> string \<Rightarrow> string \<Rightarrow> MemMetrics" where
  "open_connection g name tunnel_type =
     upd_tunnel (g\<lparr>mm_active_connections := counter_inc (mm_active_connections g) 1\<rparr>) name
       (\<lambda>p. p\<lparr>tst_active_connections := counter_inc (tst_active_connections p) 1\<rparr>)"

definition close_connection :: "MemMetrics \<Rightarrow> string \<Rightarrow> string \<Rightarrow> MemMetrics" where
  "close_connection g name tunnel_type =
     upd_tunnel (g\<lparr>mm_active_connections := counter_dec (mm_active_connections g) 1\<rparr>) name
       (\<lambda>p. p\<lparr>tst_active_connections := counter_dec (tst_active_connections p) 1\<rparr>)"

definition add_traffic_in :: "MemMetrics \<Rightarrow> string \<Rightarrow> string \<Rightarrow> u64 \<Rightarrow> clock \<Rightarrow> MemMetrics" where
  "add_traffic_in g name tunnel_type bytes now =
     (if bytes = 0 then g
      else let delta = sint bytes
           in upd_tunnel
                (g\<lparr>mm_total_traffic_in := date_inc (mm_total_traffic_in g) delta now,
                   mm_total_traffic_in_hourly := hour_inc (mm_total_traffic_in_hourly g) delta now\<rparr>) name
                (\<lambda>p. p\<lparr>tst_traffic_in := date_inc (tst_traffic_in p) delta now,
                       tst_traffic_in_hourly := hour_inc (tst_traffic_in_hourly p) delta now\<rparr>))"

definition add_traffic_out :: "MemMetrics \<Rightarrow> string \<Rightarrow> string \<Rightarrow> u64 \<Rightarrow> clock \<Rightarrow> MemMetrics" where
  "add_traffic_out g name tunnel_type bytes now =
     (if bytes = 0 then g
      else let delta = sint bytes
           in upd_tunnel
                (g\<lparr>mm_total_traffic_out := date_inc (mm_total_traffic_out g) delta now,
                   mm_total_traffic_out_hourly := hour_inc (mm_total_traffic_out_hourly g) delta now\<rparr>) name
                (\<lambda>p. p\<lparr>tst_traffic_out := date_inc (tst_traffic_out p) delta now,
                       tst_traffic_out_hourly := hour_inc (tst_traffic_out_hourly p) delta now\<rparr>))"

subsection \<open>Traffic history\<close>

text \<open>The formatting of a date or an hour is the chrono crate's: it is a parameter.\<close>

record TrafficPoint =
  tp_date :: string
  tp_traffic_in :: nat
  tp_traffic_out :: nat

record TunnelTrafficHistory =
  tth_name :: string
  tth_unit :: string
  tth_granularity :: string
  tth_history :: "TrafficPoint list"

definition build_daily_history ::
    "(int \<Rightarrow> string) \<Rightarrow> string \<Rightarrow> int list \<Rightarrow> int list \<Rightarrow> clock \<Rightarrow> TunnelTrafficHistory" where
  "build_daily_history fmt name inbound outbound now =
     (let n = min (min RESERVE_DAYS (length inbound)) (length outbound)
      in \<lparr>tth_name = name, tth_unit = ''bytes'', tth_granularity = ''day'',
          tth_history = map (\<lambda>age. \<lparr>tp_date = fmt (ck_date now - int age),
            tp_traffic_in = nat (max 0 (inbound ! age)),
            tp_traffic_out = nat (max 0 (outbound ! age))\<rparr>) (rev [0..<n])\<rparr>)"

definition build_hourly_history ::
    "(int \<Rightarrow> string) \<Rightarrow> string \<Rightarrow> int list \<Rightarrow> int list \<Rightarrow> clock \<Rightarrow> TunnelTrafficHistory" where
  "build_hourly_history fmt name inbound outbound now =
     (let n = min (min RESERVE_HOURS (length inbound)) (length outbound)
      in \<lparr>tth_name = name, tth_unit = ''bytes'', tth_granularity = ''hour'',
          tth_history = map (\<lambda>age. \<lparr>tp_date = fmt (truncate_hour now - 3600 * int age),
            tp_traffic_in = nat (max 0 (inbound ! age)),
            tp_traffic_out = nat (max 0 (outbound ! age))\<rparr>) (rev [0..<n])\<rparr>)"

definition tunnel_traffic ::
    "(int \<Rightarrow> string) \<Rightarrow> (int \<Rightarrow> string) \<Rightarrow> MemMetrics \<Rightarrow> string \<Rightarrow> TrafficWindow \<Rightarrow> clock \<Rightarrow>
     TunnelTrafficHistory option \<times> MemMetrics" where
  "tunnel_traffic fmt_day fmt_hour g name window now =
     (case mm_tunnels g name of
        None \<Rightarrow> (None, g)
      | Some p \<Rightarrow>
          (case window of
             Days7 \<Rightarrow>
               let (inbound, cin) = last_days (tst_traffic_in p) RESERVE_DAYS now;
                   (outbound, cout) = last_days (tst_traffic_out p) RESERVE_DAYS now
               in (Some (build_daily_history fmt_day name inbound outbound now),
                   g\<lparr>mm_tunnels := (mm_tunnels g)(name \<mapsto> p\<lparr>tst_traffic_in := cin, tst_traffic_out := cout\<rparr>)\<rparr>)
           | Hours24 \<Rightarrow>
               let (inbound, cin) = last_hours (tst_traffic_in_hourly p) RESERVE_HOURS now;
                   (outbound, cout) = last_hours (tst_traffic_out_hourly p) RESERVE_HOURS now
               in (Some (build_hourly_history fmt_hour name inbound outbound now),
                   g\<lparr>mm_tunnels := (mm_tunnels g)(name \<mapsto>
                     p\<lparr>tst_traffic_in_hourly := cin, tst_traffic_out_hourly := cout\<rparr>)\<rparr>)))"

definition server_traffic ::
    "(int \<Rightarrow> string) \<Rightarrow> (int \<Rightarrow> string) \<Rightarrow> MemMetrics \<Rightarrow> TrafficWindow \<Rightarrow> clock \<Rightarrow>
     TunnelTrafficHistory \<times> MemMetrics" where
  "server_traffic fmt_day fmt_hour g window now =
     (case window of
        Days7 \<Rightarrow>
          let (inbound, cin) = last_days (mm_total_traffic_in g) RESERVE_DAYS now;
              (outbound, cout) = last_days (mm_total_traffic_out g) RESERVE_DAYS now
          in (build_daily_history fmt_day ''server'' inbound outbound now,
              g\<lparr>mm_total_traffic_in := cin, mm_total_traffic_out := cout\<rparr>)
      | Hours24 \<Rightarrow>
          let (inbound, cin) = last_hours (mm_total_traffic_in_hourly g) RESERVE_HOURS now;
              (outbound, cout) = last_hours (mm_total_traffic_out_hourly g) RESERVE_HOURS now
          in (build_hourly_history fmt_hour ''server'' inbound outbound now,
              g\<lparr>mm_total_traffic_in_hourly := cin, mm_total_traffic_out_hourly := cout\<rparr>))"

section \<open>Properties\<close>

text \<open>C28. The daily history is exact. After any sequence of traffic records, whatever the clock did in
  between (jumps of many days, steps back), slot \<open>age\<close> of the window holds precisely the bytes
  booked on the day \<open>age\<close> days before the latest day seen, as long as the sum stays below the
  64-bit limit; records older than the window are gone and nothing else is counted.\<close>

theorem daily_history_exact:
  assumes "list_all (\<lambda>(t, d). 0 \<le> d) evs" and "sum_list (map snd evs) < 2 ^ 63"
    and "book (ck_date start) (\<lambda>_. 0) (map (\<lambda>(t, d). (ck_date t, d)) evs) = (l, b)"
  shows "fst (last_days (fold (\<lambda>(t, d) c. date_inc c d t) evs (DateCounter_new n start)) (max n 1) now) =
    map (\<lambda>age. b (max l (ck_date now) - int age)) [0..<max n 1]"
proof -
  let ?init = "DateCounter_new n start"
  let ?c = "fold (\<lambda>(t, d) c. date_inc c d t) evs ?init"
  have wf0: "dc_counts ?init \<noteq> [] \<and> length (dc_counts ?init) = dc_reserve_days ?init"
    by (simp add: DateCounter_new_def Let_def max_def)
  have wf: "dc_counts ?c \<noteq> [] \<and> length (dc_counts ?c) = dc_reserve_days ?c"
    using days.wf_fold [OF wf0] by (simp add: list_all_iff)
  have res: "dc_reserve_days ?c = max n 1"
  proof -
    have "dc_reserve_days (fold (\<lambda>(t, d) c. date_inc c d t) evs c) = dc_reserve_days c" for c
      by (induction evs arbitrary: c) (auto simp: date_inc_def date_rotate_def Let_def)
    then show ?thesis by (simp add: DateCounter_new_def Let_def)
  qed
  have len: "length (dc_counts (date_rotate ?c (ck_date now))) = max n 1"
    using wf res by (simp add: date_rotate_shifted)
  have "dc_counts (date_rotate ?c (ck_date now)) ! age = b (max l (ck_date now) - int age)"
    if "age < max n 1" for age
    using days.window_exact [OF wf0, where evs = evs and now = now and l = l and b = b and age = age]
      assms that len
    by (simp add: DateCounter_new_def Let_def list_all_iff)
  then have "dc_counts (date_rotate ?c (ck_date now)) =
      map (\<lambda>age. b (max l (ck_date now) - int age)) [0..<max n 1]"
    using len by (intro nth_equalityI) auto
  then show ?thesis
    using res by (simp add: last_days_def Let_def date_rotate_def)
qed

theorem daily_history_exact_witness:
  "fst (last_days (fold (\<lambda>(t, d) c. date_inc c d t)
      [(\<lparr>ck_date = 1, ck_time = 0, ck_offset = 0\<rparr>, 5), (\<lparr>ck_date = 3, ck_time = 0, ck_offset = 0\<rparr>, 7)]
      (DateCounter_new 7 \<lparr>ck_date = 1, ck_time = 0, ck_offset = 0\<rparr>)) (max 7 1)
      \<lparr>ck_date = 4, ck_time = 0, ck_offset = 0\<rparr>) =
    map (\<lambda>age. ((\<lambda>_. 0)(1 := 5, 3 := 7)) (max 3 4 - int age)) [0..<max 7 1]"
  using daily_history_exact [where start = "\<lparr>ck_date = 1, ck_time = 0, ck_offset = 0\<rparr>" and n = 7 and
      now = "\<lparr>ck_date = 4, ck_time = 0, ck_offset = 0\<rparr>" and l = 3 and b = "(\<lambda>_. 0)(1 := 5, 3 := 7)" and
      evs = "[(\<lparr>ck_date = 1, ck_time = 0, ck_offset = 0\<rparr>, 5), (\<lparr>ck_date = 3, ck_time = 0, ck_offset = 0\<rparr>, 7)]"]
  by (simp add: fun_upd_def)

text \<open>The hourly history is exact in the same way, on the hours of the local clock, as long as the
  local offset keeps its minutes (every full hour starts at the same minute of UTC).\<close>

theorem hourly_history_exact:
  assumes "list_all (\<lambda>(t, d). truncate_hour t mod 3600 = truncate_hour start mod 3600 \<and> 0 \<le> d) evs"
    and "truncate_hour now mod 3600 = truncate_hour start mod 3600"
    and "sum_list (map snd evs) < 2 ^ 63"
    and "book (truncate_hour start div 3600) (\<lambda>_. 0) (map (\<lambda>(t, d). (truncate_hour t div 3600, d)) evs) = (l, b)"
  shows "fst (last_hours (fold (\<lambda>(t, d) c. hour_inc c d t) evs (HourCounter_new n start)) (max n 1) now) =
    map (\<lambda>age. b (max l (truncate_hour now div 3600) - int age)) [0..<max n 1]"
proof -
  let ?init = "HourCounter_new n start"
  let ?c = "fold (\<lambda>(t, d) c. hour_inc c d t) evs ?init"
  have init: "hc_last_hour ?init = truncate_hour start" by (simp add: HourCounter_new_def Let_def)
  have wf0: "hc_counts ?init \<noteq> [] \<and> length (hc_counts ?init) = hc_reserve_hours ?init"
    by (simp add: HourCounter_new_def Let_def max_def)
  have oks: "list_all (\<lambda>(t, d). truncate_hour t mod 3600 = hc_last_hour ?init mod 3600) evs"
    using assms(1) by (auto simp: init list_all_iff)
  have wf: "hc_counts ?c \<noteq> [] \<and> length (hc_counts ?c) = hc_reserve_hours ?c"
    and ok: "truncate_hour now mod 3600 = hc_last_hour ?c mod 3600"
    using hours.wf_fold [OF wf0 oks, where b = b] assms(2) by (simp_all add: init)
  have res: "hc_reserve_hours ?c = max n 1"
  proof -
    have "hc_reserve_hours (fold (\<lambda>(t, d) c. hour_inc c d t) evs c) = hc_reserve_hours c" for c
      by (induction evs arbitrary: c) (auto simp: hour_inc_def hour_rotate_def Let_def)
    then show ?thesis by (simp add: HourCounter_new_def Let_def)
  qed
  have len: "length (hc_counts (hour_rotate ?c now)) = max n 1"
    using wf ok res by (simp add: hour_rotate_aligned)
  have "hc_counts (hour_rotate ?c now) ! age = b (max l (truncate_hour now div 3600) - int age)"
    if "age < max n 1" for age
    using hours.window_exact [OF wf0, where evs = evs and now = now and l = l and b = b and age = age]
      assms that len
    by (simp add: HourCounter_new_def Let_def)
  then have "hc_counts (hour_rotate ?c now) =
      map (\<lambda>age. b (max l (truncate_hour now div 3600) - int age)) [0..<max n 1]"
    using len by (intro nth_equalityI) auto
  then show ?thesis
    using res by (simp add: last_hours_def Let_def hour_rotate_def)
qed

theorem hourly_history_exact_witness:
  "fst (last_hours (fold (\<lambda>(t, d) c. hour_inc c d t)
      [(\<lparr>ck_date = 0, ck_time = 3700, ck_offset = 0\<rparr>, 5)]
      (HourCounter_new 24 \<lparr>ck_date = 0, ck_time = 10, ck_offset = 0\<rparr>)) (max 24 1)
      \<lparr>ck_date = 0, ck_time = 7300, ck_offset = 0\<rparr>) =
    map (\<lambda>age. ((\<lambda>_. 0)(1 := 5)) (max 1 (truncate_hour \<lparr>ck_date = 0, ck_time = 7300, ck_offset = 0\<rparr> div 3600)
      - int age)) [0..<max 24 1]"
  by (rule hourly_history_exact) (simp_all add: truncate_hour_def fun_upd_def)

text \<open>C29. A tunnel's connection count drifts when its name is registered again under another type: the
  fresh statistics start at zero while a connection of the old tunnel is still open, its end makes
  the count negative, and the next open connection is shown as none. The server's count is right.\<close>

theorem tunnel_connections_drift:
  fixes g :: MemMetrics and now :: clock and user sid :: string
  assumes "ty \<noteq> ty'" and "mm_tunnels g n = None" and "mm_active_connections g = 0"
  defines "g1 \<equiv> open_connection (new_tunnel g n ty user sid now) n ty"
  defines "g2 \<equiv> open_connection (close_connection (new_tunnel (close_tunnel g1 n ty now) n ty' user sid now) n ty) n ty'"
  shows "map_option ts_active_connections (fst (tunnel_snapshot g2 n now)) = Some 0 \<and>
    ss_active_connections (fst (server_snapshot g2 now)) = 1"
proof -
  have "tst_active_connections (the (mm_tunnels g2 n)) = 0" "mm_tunnels g2 n \<noteq> None"
    "mm_active_connections g2 = 1"
    using assms(1-3)
    by (auto simp: g1_def g2_def open_connection_def close_connection_def upd_tunnel_def new_tunnel_def
        close_tunnel_def counter_inc_def counter_dec_def Counter_new_def TunnelStats_new_def Let_def
        split: option.splits)
  then show ?thesis
    by (auto simp: tunnel_snapshot_def to_tunnel_snapshot_def server_snapshot_def shown_counter_def
        counter_count_def case_prod_beta Let_def split: option.splits)
qed

theorem tunnel_connections_drift_witness:
  "map_option ts_active_connections (fst (tunnel_snapshot
      (open_connection (close_connection (new_tunnel (close_tunnel (open_connection (new_tunnel
        (MemMetrics_new \<lparr>ck_date = 0, ck_time = 0, ck_offset = 0\<rparr>) ''a'' ''tcp'' [] ''s''
          \<lparr>ck_date = 0, ck_time = 0, ck_offset = 0\<rparr>) ''a'' ''tcp'')
        ''a'' ''tcp'' \<lparr>ck_date = 0, ck_time = 0, ck_offset = 0\<rparr>)
        ''a'' ''http'' [] ''s'' \<lparr>ck_date = 0, ck_time = 0, ck_offset = 0\<rparr>) ''a'' ''tcp'') ''a'' ''http'')
      ''a'' \<lparr>ck_date = 0, ck_time = 0, ck_offset = 0\<rparr>)) = Some 0"
  using tunnel_connections_drift [where g = "MemMetrics_new \<lparr>ck_date = 0, ck_time = 0, ck_offset = 0\<rparr>" and
      n = "''a''" and ty = "''tcp''" and ty' = "''http''" and user = "[]" and sid = "''s''" and
      now = "\<lparr>ck_date = 0, ck_time = 0, ck_offset = 0\<rparr>"]
  by (simp add: MemMetrics_new_def Counter_new_def)

end
