(* ===== verification/Config_Env.thy ===== *)
theory Config_Env
  imports Rust_Prelude
begin

text \<open>
  The expansion of \<open>{{env.NAME}}\<close> and \<open>{{env.NAME:default}}\<close> in configuration files
  (\<open>core/src/config/env.rs\<close>). Positions in the input are modelled by the remaining input; the
  process environment is an argument.
\<close>

datatype env_var = NotPresent | NotUnicode | Value string

datatype env_error =
    MissingName nat
  | BadNameStart char
  | Unclosed nat
  | InvalidPlaceholder string
  | VarNotUnicode string
  | VarNotSet string

record Placeholder =
  ph_rest :: string
  ph_name :: string
  ph_default :: "string option"

datatype OpenParse = NotOurs | Found Placeholder

definition is_ident_start :: "char \<Rightarrow> bool" where
  "is_ident_start b \<longleftrightarrow>
     65 \<le> (of_char b :: nat) \<and> (of_char b :: nat) \<le> 90 \<or>
     97 \<le> (of_char b :: nat) \<and> (of_char b :: nat) \<le> 122 \<or> b = CHR ''_''"

definition is_ident_continue :: "char \<Rightarrow> bool" where
  "is_ident_continue b \<longleftrightarrow> is_ident_start b \<or> is_digit b"

definition is_placeholder_ws :: "char \<Rightarrow> bool" where
  "is_placeholder_ws b \<longleftrightarrow> b = CHR '' '' \<or> b = CHR 0x09"

definition skip_ws :: "string \<Rightarrow> string" where
  "skip_ws s = dropWhile is_placeholder_ws s"

fun parse_ident :: "string \<Rightarrow> env_error + string \<times> string" where
  "parse_ident [] = Inr ([], [])"
| "parse_ident (c # s) =
     (if \<not> is_ident_start c
      then (if is_ident_continue c then Inl (BadNameStart c) else Inr ([], c # s))
      else Inr (c # takeWhile is_ident_continue s, dropWhile is_ident_continue s))"

definition snippet_at :: "string \<Rightarrow> string" where
  "snippet_at s =
     (let taken = (case find_str ''}}'' s of Some k \<Rightarrow> take (min (k + 2) (length s)) s
                                           | None \<Rightarrow> take (min (length s) 48) s)
      in ''`'' @ taken @ ''`'')"

text \<open>The default value after the name: everything up to the closing braces, trimmed.\<close>

definition parse_default :: "nat \<Rightarrow> string \<Rightarrow> env_error + string option \<times> string" where
  "parse_default start s =
     (case strip_prefix '':'' s of
        None \<Rightarrow> Inr (None, s)
      | Some r \<Rightarrow>
          (case find_str ''}}'' r of
             None \<Rightarrow> Inl (Unclosed start)
           | Some k \<Rightarrow> Inr (Some (trim (take k r)), drop k r)))"

definition parse_open :: "nat \<Rightarrow> string \<Rightarrow> env_error + OpenParse" where
  "parse_open start s =
     (case strip_prefix ''env.'' (skip_ws (drop 2 s)) of
        None \<Rightarrow> Inr NotOurs
      | Some r \<Rightarrow>
          rbind (parse_ident r) (\<lambda>(name, r).
            if name = [] then Inl (MissingName start)
            else rbind (parse_default start (skip_ws r)) (\<lambda>(default, r).
              let r = skip_ws r
              in (case strip_prefix ''}}'' r of
                    Some rest \<Rightarrow> Inr (Found \<lparr>ph_rest = rest, ph_name = name, ph_default = default\<rparr>)
                  | None \<Rightarrow>
                      if default = None \<and> find_str ''}}'' r = None then Inl (Unclosed start)
                      else Inl (InvalidPlaceholder (snippet_at s))))))"

definition lookup_process_env :: "(string \<Rightarrow> env_var) \<Rightarrow> string \<Rightarrow> env_error + string option" where
  "lookup_process_env env name =
     (case env name of
        Value v \<Rightarrow> if v \<noteq> [] then Inr (Some v) else Inr None
      | NotPresent \<Rightarrow> Inr None
      | NotUnicode \<Rightarrow> Inl (VarNotUnicode name))"

text \<open>What \<open>append_resolved\<close> pushes to the output.\<close>

definition append_resolved :: "(string \<Rightarrow> env_var) \<Rightarrow> Placeholder \<Rightarrow> env_error + string" where
  "append_resolved env ph =
     rbind (lookup_process_env env (ph_name ph)) (\<lambda>found.
       case found of
         Some v \<Rightarrow> Inr v
       | None \<Rightarrow> (case ph_default ph of Some d \<Rightarrow> Inr d | None \<Rightarrow> Inl (VarNotSet (ph_name ph))))"

lemma length_skip_ws: "length (skip_ws s) \<le> length s"
  by (simp add: skip_ws_def length_dropWhile_le)

lemma parse_ident_length: "parse_ident s = Inr (n, r) \<Longrightarrow> length r \<le> length s"
  by (cases s) (auto split: if_splits simp: length_dropWhile_le le_SucI)

lemma parse_default_length: "parse_default start s = Inr (d, r) \<Longrightarrow> length r \<le> length s"
  by (auto simp: parse_default_def strip_prefix_Some split: option.splits)

lemma parse_open_length:
  assumes "parse_open start s = Inr (Found ph)"
  shows "length (ph_rest ph) < length s"
proof -
  from assms obtain r n r' d r'' where
    r: "skip_ws (drop 2 s) = ''env.'' @ r" "parse_ident r = Inr (n, r')"
      "parse_default start (skip_ws r') = Inr (d, r'')" "skip_ws r'' = ''}}'' @ ph_rest ph"
    by (auto simp: parse_open_def Let_def strip_prefix_Some split: option.splits if_splits)
  have "length (ph_rest ph) < length (skip_ws r'')" using r(4) by simp
  also have "\<dots> \<le> length r''" by (rule length_skip_ws)
  also have "\<dots> \<le> length (skip_ws r')" by (rule parse_default_length [OF r(3)])
  also have "\<dots> \<le> length r'" by (rule length_skip_ws)
  also have "\<dots> \<le> length r" by (rule parse_ident_length [OF r(2)])
  also have "\<dots> \<le> length (skip_ws (drop 2 s))" using r(1) by simp
  also have "\<dots> \<le> length s" using length_skip_ws [of "drop 2 s"] by simp
  finally show ?thesis .
qed

text \<open>The scanning loop of \<open>expand_env_placeholders\<close>; it ends because a placeholder is never empty.\<close>

function expand_loop :: "(string \<Rightarrow> env_var) \<Rightarrow> nat \<Rightarrow> string \<Rightarrow> env_error + string" where
  "expand_loop env i s =
     (if length s < 2 then Inr s
      else if s ! 0 = CHR ''{'' \<and> s ! 1 = CHR ''{'' then
        (case parse_open i s of
           Inl e \<Rightarrow> Inl e
         | Inr NotOurs \<Rightarrow> rbind (expand_loop env (i + 1) (tl s)) (\<lambda>t. Inr (hd s # t))
         | Inr (Found ph) \<Rightarrow>
             rbind (append_resolved env ph) (\<lambda>v.
               rbind (expand_loop env (i + (length s - length (ph_rest ph))) (ph_rest ph))
                 (\<lambda>t. Inr (v @ t))))
      else rbind (expand_loop env (i + 1) (tl s)) (\<lambda>t. Inr (hd s # t)))"
  by pat_completeness auto
termination
  by (relation "measure (\<lambda>(env, i, s). length s)") (auto simp: parse_open_length)

declare expand_loop.simps [simp del]

definition expand_env_placeholders :: "(string \<Rightarrow> env_var) \<Rightarrow> string \<Rightarrow> env_error + string" where
  "expand_env_placeholders env input =
     (if \<not> contains_str ''{{'' input then Inr input else expand_loop env 0 input)"

text \<open>\<open>contains_env_placeholders\<close> looks at every occurrence of the opening braces.\<close>

fun contains_env_placeholders :: "string \<Rightarrow> bool" where
  "contains_env_placeholders [] = False"
| "contains_env_placeholders (c # s) =
     (prefix ''{{'' (c # s) \<and> prefix ''env.'' (skip_ws (drop 2 (c # s))) \<or> contains_env_placeholders s)"

definition reject_env_placeholders :: "string \<Rightarrow> bool" where
  "reject_env_placeholders raw \<longleftrightarrow> contains_env_placeholders raw"

section \<open>Facts\<close>

lemma strip_prefix_None: "strip_prefix p s = None \<longleftrightarrow> \<not> prefix p s"
  by (induction p s rule: strip_prefix.induct) auto

lemma expand_loop_no_placeholder: "\<not> contains_env_placeholders s \<Longrightarrow> expand_loop env i s = Inr s"
proof (induction s arbitrary: i)
  case Nil
  show ?case by (simp add: expand_loop.simps)
next
  case (Cons c s)
  have ours: "parse_open i (c # s) = Inr NotOurs" if "prefix ''{{'' (c # s)"
  proof -
    have "strip_prefix ''env.'' (skip_ws (drop 2 (c # s))) = None"
      using that Cons.prems by (auto simp only: strip_prefix_None contains_env_placeholders.simps)
    then show ?thesis by (simp add: parse_open_def)
  qed
  have IH: "expand_loop env (i + 1) s = Inr s" using Cons by simp
  show ?case
  proof (cases s)
    case Nil
    then show ?thesis by (simp add: expand_loop.simps)
  next
    case (Cons a l)
    with IH ours show ?thesis by (subst expand_loop.simps) auto
  qed
qed

lemma expand_loop_append:
  assumes "\<forall>c \<in> set pre. c \<noteq> CHR ''{''"
  shows "expand_loop env i (pre @ s) = rbind (expand_loop env (i + length pre) s) (\<lambda>t. Inr (pre @ t))"
  using assms
proof (induction pre arbitrary: i)
  case Nil
  show ?case by (cases "expand_loop env i s") simp_all
next
  case (Cons c pre)
  show ?case
  proof (cases "pre @ s")
    case Nil
    then show ?thesis by (simp add: expand_loop.simps)
  next
    case (Cons d r)
    have "expand_loop env i (c # pre @ s) = rbind (expand_loop env (i + 1) (pre @ s)) (\<lambda>t. Inr (c # t))"
      using Cons \<open>\<forall>c \<in> set (c # pre). c \<noteq> CHR ''{''\<close> by (subst expand_loop.simps) simp
    with Cons.IH [of "i + 1"] Cons.prems show ?thesis
      by (cases "expand_loop env (Suc (i + length pre)) s") (simp_all add: ac_simps)
  qed
qed

section \<open>Properties\<close>

text \<open>A file without environment placeholders is left as it is; in particular the desktop editor,
  which refuses files with placeholders, and the runtime loader read the same text.\<close>

theorem expand_without_placeholders:
  assumes "\<not> contains_env_placeholders input"
  shows "expand_env_placeholders env input = Inr input"
  using expand_loop_no_placeholder [OF assms] by (simp add: expand_env_placeholders_def)

theorem expand_without_placeholders_witness:
  "expand_env_placeholders (\<lambda>_. NotPresent) ''a = {{x}}'' = Inr ''a = {{x}}''"
  by (rule expand_without_placeholders) (simp add: skip_ws_def is_placeholder_ws_def)

definition env_name :: "string \<Rightarrow> bool" where
  "env_name n \<longleftrightarrow> n \<noteq> [] \<and> is_ident_start (hd n) \<and> list_all is_ident_continue n"

definition placeholder :: "string \<Rightarrow> string option \<Rightarrow> string" where
  "placeholder n d = ''{{env.'' @ n @ (case d of None \<Rightarrow> [] | Some v \<Rightarrow> '':'' @ v) @ ''}}''"

lemma not_ident_continue: "\<not> is_ident_continue (CHR ''}'')" "\<not> is_ident_continue (CHR '':'')"
  by (simp_all add: is_ident_continue_def is_ident_start_def is_digit_def)

lemma parse_ident_name:
  assumes "env_name n" and "\<not> is_ident_continue c"
  shows "parse_ident (n @ c # r) = Inr (n, c # r)"
proof -
  obtain a m where n: "n = a # m" using assms(1) by (cases n) (auto simp: env_name_def)
  have "takeWhile is_ident_continue (m @ c # r) = m" "dropWhile is_ident_continue (m @ c # r) = c # r"
    using assms by (auto simp: n env_name_def list_all_iff takeWhile_append dropWhile_append)
  then show ?thesis using assms(1) by (simp add: n env_name_def)
qed

lemma find_close_free:
  "CHR ''}'' \<notin> set v \<Longrightarrow> find_str ''}}'' (v @ ''}}'' @ r) = Some (length v)"
  by (induction v) auto

lemma parse_open_placeholder:
  assumes "env_name n" and "\<forall>v. d = Some v \<longrightarrow> CHR ''}'' \<notin> set v"
  shows "parse_open i (placeholder n d @ r) =
    Inr (Found \<lparr>ph_rest = r, ph_name = n, ph_default = map_option trim d\<rparr>)"
proof -
  have n: "n \<noteq> []" using assms(1) by (simp add: env_name_def)
  have no_ws: "skip_ws (c # s) = c # s" if "c \<noteq> CHR '' ''" "c \<noteq> CHR 0x09" for c s
    using that by (simp add: skip_ws_def is_placeholder_ws_def)
  show ?thesis
  proof (cases d)
    case None
    then show ?thesis
      using parse_ident_name [OF assms(1) not_ident_continue(1), of "''}'' @ r"] n
      by (simp add: parse_open_def placeholder_def no_ws parse_default_def)
  next
    case (Some v)
    have "find_str ''}}'' (v @ ''}}'' @ r) = Some (length v)"
      by (rule find_close_free) (use assms(2) Some in simp)
    then have "parse_default i ('':'' @ v @ ''}}'' @ r) = Inr (Some (trim v), ''}}'' @ r)"
      by (simp add: parse_default_def)
    then show ?thesis
      using parse_ident_name [OF assms(1) not_ident_continue(2), of "v @ ''}}'' @ r"] n Some
      by (simp add: parse_open_def placeholder_def no_ws)
  qed
qed

text \<open>A placeholder is replaced by the value of its variable, by its trimmed default when the
  variable is unset or empty, and stops the loading of the file when there is no default; the text
  around it is kept, the inserted value is not expanded again, and the rest is expanded in turn.\<close>

theorem expand_placeholder:
  assumes "\<forall>c \<in> set pre. c \<noteq> CHR ''{''" and "env_name n"
    and "\<forall>v. d = Some v \<longrightarrow> CHR ''}'' \<notin> set v"
  shows "expand_env_placeholders env (pre @ placeholder n d @ post) =
    rbind (case env n of
        Value v \<Rightarrow> if v \<noteq> [] then Inr v
                   else (case d of Some w \<Rightarrow> Inr (trim w) | None \<Rightarrow> Inl (VarNotSet n))
      | NotPresent \<Rightarrow> (case d of Some w \<Rightarrow> Inr (trim w) | None \<Rightarrow> Inl (VarNotSet n))
      | NotUnicode \<Rightarrow> Inl (VarNotUnicode n))
    (\<lambda>v. rbind (expand_loop env (length pre + length (placeholder n d)) post) (\<lambda>t. Inr (pre @ v @ t)))"
proof -
  have braces: "contains_str ''{{'' (pre @ placeholder n d @ post)"
  proof -
    have "find_str ''{{'' (pre @ CHR ''{'' # CHR ''{'' # q) \<noteq> None" for q
      by (induction pre) auto
    then show ?thesis by (simp add: contains_str_def placeholder_def)
  qed
  have "expand_loop env i (placeholder n d @ post) =
      rbind (append_resolved env \<lparr>ph_rest = post, ph_name = n, ph_default = map_option trim d\<rparr>) (\<lambda>v.
        rbind (expand_loop env (i + length (placeholder n d)) post) (\<lambda>t. Inr (v @ t)))" for i
  proof -
    have "\<not> length (placeholder n d @ post) < 2" "(placeholder n d @ post) ! 0 = CHR ''{''"
      "(placeholder n d @ post) ! 1 = CHR ''{''"
      by (simp_all add: placeholder_def)
    then show ?thesis
      using parse_open_placeholder [OF assms(2,3), of i post]
      by (subst expand_loop.simps) (simp del: length_append nth_append_length, simp)
  qed
  then show ?thesis
    using braces
    by (auto simp: expand_env_placeholders_def expand_loop_append [OF assms(1)] append_resolved_def
        lookup_process_env_def rbind_def split: env_var.split option.split sum.split)
qed

theorem expand_placeholder_witness:
  "expand_env_placeholders (\<lambda>_. NotPresent) (''p = '' @ placeholder ''P'' (Some '' 7 '') @ []) =
    rbind (case NotPresent of
        Value v \<Rightarrow> if v \<noteq> [] then Inr v
                   else (case Some '' 7 '' of Some w \<Rightarrow> Inr (trim w) | None \<Rightarrow> Inl (VarNotSet ''P''))
      | NotPresent \<Rightarrow> (case Some '' 7 '' of Some w \<Rightarrow> Inr (trim w) | None \<Rightarrow> Inl (VarNotSet ''P''))
      | NotUnicode \<Rightarrow> Inl (VarNotUnicode ''P''))
    (\<lambda>v. rbind (expand_loop (\<lambda>_. NotPresent) (length ''p = '' + length (placeholder ''P'' (Some '' 7 ''))) [])
      (\<lambda>t. Inr (''p = '' @ v @ t)))"
  by (rule expand_placeholder) (simp_all add: env_name_def is_ident_start_def is_ident_continue_def)

end
