(* ===== verification/Config_Server.thy ===== *)
theory Config_Server
  imports Config_Env
begin

text \<open>
  The server configuration (\<open>core/src/config/server.rs\<close>, \<open>core/src/config/log.rs\<close>): its fields, their
  defaults, the parsing of host and port, the completion of missing values and the validation. The
  TOML parser and the file system are arguments of \<open>load\<close>.
\<close>

datatype cfg_error =
    MissingBracket string
  | EmptyIpv6Host string
  | ExpectedColon string
  | InvalidPort string
  | BadLogLevel string
  | QuicKcpSamePort u16
  | HttpGwSharesListen u16
  | HttpsGwSharesListen u16
  | HttpHttpsSamePort u16
  | DashboardNeedsCredentials
  | EnvError env_error
  | ReadFailed
  | TomlFailed
  | ServerRequired
  | ServerHostEmpty
  | ServerPortZero
  | UnsupportedTransport string
  | PoolCountTooSmall i32
  | UdpPacketSizeRange nat
  | HeartbeatOrder i64 i64
  | TunnelNameRequired
  | DuplicateTunnelName string
  | UnsupportedTunnelProtocol string string
  | InvalidBandwidth string
  | InvalidLimitSide string string
  | RemotePortRequired string
  | DomainsRequired string
  | ServiceNeedsPort string
  | ServiceEmptyHost string
  | InvalidService string
  | UnsupportedPlugin string string
  | PluginServiceRequired string
  | PluginServiceHostPort string
  | Socks5NeedsCredentials string
  | PlaceholdersInEditor

section \<open>Logging and keepalive\<close>

record LogConfig =
  lc_file :: string
  lc_level :: string
  lc_max_days :: u32

definition default_level :: string where "default_level = ''info''"

definition LogConfig_default :: LogConfig where
  "LogConfig_default = \<lparr>lc_file = [], lc_level = default_level, lc_max_days = 3\<rparr>"

definition is_valid_level :: "string \<Rightarrow> bool" where
  "is_valid_level level \<longleftrightarrow>
     to_ascii_lowercase (trim level) \<in> {''trace'', ''debug'', ''info'', ''warn'', ''error''}"

definition LogConfig_complete :: "LogConfig \<Rightarrow> LogConfig" where
  "LogConfig_complete c =
     (let level = to_ascii_lowercase (trim (lc_level c))
      in c\<lparr>lc_file := trim (lc_file c), lc_level := (if level = [] then default_level else level)\<rparr>)"

definition LogConfig_validate :: "LogConfig \<Rightarrow> cfg_error + unit" where
  "LogConfig_validate c = (if \<not> is_valid_level (lc_level c) then Inl (BadLogLevel (lc_level c)) else Inr ())"

definition file_enabled :: "LogConfig \<Rightarrow> bool" where
  "file_enabled c \<longleftrightarrow> lc_file c \<noteq> []"

record TcpKeepaliveConfig =
  idle_secs :: u64
  interval_secs :: u64

definition DEFAULT_TCP_KEEPALIVE_IDLE_SECS :: u64 where "DEFAULT_TCP_KEEPALIVE_IDLE_SECS = 30"

definition DEFAULT_TCP_KEEPALIVE_INTERVAL_SECS :: u64 where "DEFAULT_TCP_KEEPALIVE_INTERVAL_SECS = 10"

definition TcpKeepaliveConfig_new :: "u64 \<Rightarrow> u64 \<Rightarrow> TcpKeepaliveConfig" where
  "TcpKeepaliveConfig_new idle interval =
     \<lparr>idle_secs = idle,
      interval_secs = (if 0 < idle \<and> interval = 0 then DEFAULT_TCP_KEEPALIVE_INTERVAL_SECS else interval)\<rparr>"

definition keepalive_enabled :: "TcpKeepaliveConfig \<Rightarrow> bool" where
  "keepalive_enabled c \<longleftrightarrow> 0 < idle_secs c"

text \<open>What \<open>enable_keepalive\<close> sets on the socket: the idle time and the interval, in seconds.\<close>

definition enable_keepalive :: "TcpKeepaliveConfig \<Rightarrow> (u64 \<times> u64) option" where
  "enable_keepalive c = (if \<not> keepalive_enabled c then None else Some (idle_secs c, max (interval_secs c) 1))"

section \<open>The fields\<close>

record AuthConfig =
  ac_auth_type :: string
  ac_token :: string

record QuicConfig =
  qc_keepalive_period :: u64
  qc_max_idle_timeout :: u64
  qc_max_incoming_streams :: u32

record ServerTlsConfig =
  stc_force :: bool
  stc_cert_file :: string
  stc_key_file :: string
  stc_trusted_ca_file :: string

record ServerTransportConfig =
  st_tcp_mux :: bool
  st_mux_keepalive_secs :: i64
  st_tcp_keepalive_idle :: u64
  st_tcp_keepalive_interval :: u64
  st_max_conn_pool :: i64
  st_heartbeat_timeout :: i64
  st_quic :: QuicConfig
  st_ws_path :: string
  st_tls :: ServerTlsConfig

record DashboardConfig =
  db_addr :: string
  db_port :: u16
  db_user :: string
  db_password :: string

record ServerConfig =
  sc_listen :: string
  sc_quic_port :: u16
  sc_kcp_port :: u16
  sc_http_gw_port :: u16
  sc_https_gw_port :: u16
  sc_root_domain :: string
  sc_auth :: AuthConfig
  sc_proxy_addr :: string
  sc_transport :: ServerTransportConfig
  sc_dashboard :: DashboardConfig
  sc_udp_packet_size :: nat
  sc_log :: LogConfig

section \<open>Defaults\<close>

definition default_listen_host :: string where "default_listen_host = ''0.0.0.0''"

definition default_listen_port :: u16 where "default_listen_port = 9527"

definition port_to_string :: "u16 \<Rightarrow> string" where
  "port_to_string p = nat_to_string (unat p)"

definition default_listen :: string where
  "default_listen = default_listen_host @ '':'' @ port_to_string default_listen_port"

definition default_auth_type :: string where "default_auth_type = ''token''"

definition default_udp_packet_size :: nat where "default_udp_packet_size = 1500"

definition ORBIEN_WEBSOCKET_PATH :: string where "ORBIEN_WEBSOCKET_PATH = ''/~!orbien''"

definition normalize_ws_path :: "string \<Rightarrow> string" where
  "normalize_ws_path path = (let t = trim path in if t = [] then ORBIEN_WEBSOCKET_PATH else t)"

definition QuicConfig_default :: QuicConfig where
  "QuicConfig_default =
     \<lparr>qc_keepalive_period = 10, qc_max_idle_timeout = 30, qc_max_incoming_streams = 100000\<rparr>"

definition quic_keepalive :: "QuicConfig \<Rightarrow> u64" where
  "quic_keepalive c = max (qc_keepalive_period c) 1"

definition quic_idle_timeout :: "QuicConfig \<Rightarrow> u64" where
  "quic_idle_timeout c = max (qc_max_idle_timeout c) 1"

definition ServerTransportConfig_default :: ServerTransportConfig where
  "ServerTransportConfig_default =
     \<lparr>st_tcp_mux = True, st_mux_keepalive_secs = 30,
      st_tcp_keepalive_idle = DEFAULT_TCP_KEEPALIVE_IDLE_SECS,
      st_tcp_keepalive_interval = DEFAULT_TCP_KEEPALIVE_INTERVAL_SECS,
      st_max_conn_pool = 0, st_heartbeat_timeout = 0, st_quic = QuicConfig_default,
      st_ws_path = ORBIEN_WEBSOCKET_PATH,
      st_tls = \<lparr>stc_force = False, stc_cert_file = [], stc_key_file = [], stc_trusted_ca_file = []\<rparr>\<rparr>"

definition server_tcp_keepalive :: "ServerTransportConfig \<Rightarrow> TcpKeepaliveConfig" where
  "server_tcp_keepalive c = TcpKeepaliveConfig_new (st_tcp_keepalive_idle c) (st_tcp_keepalive_interval c)"

definition ServerConfig_default :: ServerConfig where
  "ServerConfig_default =
     \<lparr>sc_listen = default_listen, sc_quic_port = 0, sc_kcp_port = 0, sc_http_gw_port = 0,
      sc_https_gw_port = 0, sc_root_domain = [], sc_auth = \<lparr>ac_auth_type = [], ac_token = []\<rparr>,
      sc_proxy_addr = default_listen_host, sc_transport = ServerTransportConfig_default,
      sc_dashboard = \<lparr>db_addr = [], db_port = 0, db_user = [], db_password = []\<rparr>,
      sc_udp_packet_size = default_udp_packet_size, sc_log = LogConfig_default\<rparr>"

section \<open>Host and port\<close>

text \<open>The port after a host: an empty or zero port is the default.\<close>

definition port_or_default :: "string \<Rightarrow> string \<Rightarrow> u16 \<Rightarrow> string \<Rightarrow> cfg_error + string \<times> u16" where
  "port_or_default raw host default_port port_str =
     (if port_str = [] then Inr (host, default_port)
      else (case parse_u16 port_str of
              None \<Rightarrow> Inl (InvalidPort raw)
            | Some port \<Rightarrow> if port = 0 then Inr (host, default_port) else Inr (host, port)))"

definition parse_host_port :: "string \<Rightarrow> u16 \<Rightarrow> cfg_error + string \<times> u16" where
  "parse_host_port raw default_port =
     (let s = trim raw
      in if s = [] then Inr (default_listen_host, default_port)
         else (case strip_prefix ''['' s of
                 Some rest \<Rightarrow>
                   (case split_once (CHR '']'') rest of
                      None \<Rightarrow> Inl (MissingBracket raw)
                    | Some (h, after) \<Rightarrow>
                        if h = [] then Inl (EmptyIpv6Host raw)
                        else let host = ''['' @ h @ '']''
                             in if after = [] then Inr (host, default_port)
                                else (case strip_prefix '':'' after of
                                        None \<Rightarrow> Inl (ExpectedColon raw)
                                      | Some port_str \<Rightarrow> port_or_default raw host default_port port_str))
               | None \<Rightarrow>
                   (case rsplit_once (CHR '':'') s of
                      Some (host, port_str) \<Rightarrow>
                        if host \<noteq> [] \<and> CHR '':'' \<notin> set host
                        then port_or_default raw host default_port port_str
                        else Inr (s, default_port)
                    | None \<Rightarrow> Inr (s, default_port))))"

section \<open>Completion and validation\<close>

definition dashboard_complete :: "DashboardConfig \<Rightarrow> DashboardConfig" where
  "dashboard_complete c = (if trim (db_addr c) = [] then c\<lparr>db_addr := ''127.0.0.1''\<rparr> else c)"

definition dashboard_enabled :: "DashboardConfig \<Rightarrow> bool" where
  "dashboard_enabled c \<longleftrightarrow> 0 < db_port c"

definition dashboard_validate :: "DashboardConfig \<Rightarrow> cfg_error + unit" where
  "dashboard_validate c =
     (if \<not> dashboard_enabled c then Inr ()
      else if trim (db_user c) = [] \<or> trim (db_password c) = [] then Inl DashboardNeedsCredentials
      else Inr ())"

definition listen_host :: "ServerConfig \<Rightarrow> cfg_error + string" where
  "listen_host c = map_sum id fst (parse_host_port (sc_listen c) default_listen_port)"

definition listen_port :: "ServerConfig \<Rightarrow> cfg_error + u16" where
  "listen_port c = map_sum id snd (parse_host_port (sc_listen c) default_listen_port)"

definition transport_complete :: "ServerTransportConfig \<Rightarrow> ServerTransportConfig" where
  "transport_complete t =
     (let t = (if st_max_conn_pool t = 0 then t\<lparr>st_max_conn_pool := 5\<rparr> else t);
          t = (if st_heartbeat_timeout t = 0
               then t\<lparr>st_heartbeat_timeout := (if st_tcp_mux t then -1 else 90)\<rparr> else t);
          t = (if trim (stc_trusted_ca_file (st_tls t)) \<noteq> []
               then t\<lparr>st_tls := (st_tls t)\<lparr>stc_force := True\<rparr>\<rparr> else t)
      in t\<lparr>st_ws_path := normalize_ws_path (st_ws_path t)\<rparr>)"

definition complete :: "ServerConfig \<Rightarrow> ServerConfig" where
  "complete c =
     (let c = (case parse_host_port (sc_listen c) default_listen_port of
                 Inr (host, port) \<Rightarrow> c\<lparr>sc_listen := host @ '':'' @ port_to_string port\<rparr>
               | Inl _ \<Rightarrow> c\<lparr>sc_listen := default_listen\<rparr>);
          c = (if trim (sc_proxy_addr c) = []
               then c\<lparr>sc_proxy_addr := (case listen_host c of Inr h \<Rightarrow> h | Inl _ \<Rightarrow> default_listen_host)\<rparr>
               else c);
          c = (if trim (ac_auth_type (sc_auth c)) = []
               then c\<lparr>sc_auth := (sc_auth c)\<lparr>ac_auth_type := default_auth_type\<rparr>\<rparr> else c);
          c = (if sc_udp_packet_size c = 0 then c\<lparr>sc_udp_packet_size := default_udp_packet_size\<rparr> else c)
      in c\<lparr>sc_dashboard := dashboard_complete (sc_dashboard c),
           sc_transport := transport_complete (sc_transport c),
           sc_log := LogConfig_complete (sc_log c)\<rparr>)"

definition is_unspecified_bind :: "string \<Rightarrow> bool" where
  "is_unspecified_bind addr \<longleftrightarrow> addr \<in> {''0.0.0.0'', ''::'', ''[::]''}"

definition listen_addrs_overlap :: "string \<Rightarrow> string \<Rightarrow> bool" where
  "listen_addrs_overlap a b =
     (let a = trim a; b = trim b
      in if a = [] \<or> b = [] then True
         else if is_unspecified_bind a \<or> is_unspecified_bind b then True
         else eq_ignore_ascii_case a b)"

definition tcp_listen_conflicts :: "string \<Rightarrow> u16 \<Rightarrow> string \<Rightarrow> u16 \<Rightarrow> bool" where
  "tcp_listen_conflicts addr_a port_a addr_b port_b =
     (if port_a = 0 \<or> port_b = 0 \<or> port_a \<noteq> port_b then False
      else listen_addrs_overlap addr_a addr_b)"

definition quic_enabled :: "ServerConfig \<Rightarrow> bool" where "quic_enabled c \<longleftrightarrow> sc_quic_port c \<noteq> 0"

definition kcp_enabled :: "ServerConfig \<Rightarrow> bool" where "kcp_enabled c \<longleftrightarrow> sc_kcp_port c \<noteq> 0"

definition http_gw_enabled :: "ServerConfig \<Rightarrow> bool" where "http_gw_enabled c \<longleftrightarrow> sc_http_gw_port c \<noteq> 0"

definition https_gw_enabled :: "ServerConfig \<Rightarrow> bool" where "https_gw_enabled c \<longleftrightarrow> sc_https_gw_port c \<noteq> 0"

definition validate :: "ServerConfig \<Rightarrow> cfg_error + unit" where
  "validate c =
     rbind (LogConfig_validate (sc_log c)) (\<lambda>_.
     rbind (parse_host_port (sc_listen c) default_listen_port) (\<lambda>(host, port).
       if quic_enabled c \<and> kcp_enabled c \<and> sc_quic_port c = sc_kcp_port c
       then Inl (QuicKcpSamePort (sc_quic_port c))
       else if http_gw_enabled c \<and> tcp_listen_conflicts host port (sc_proxy_addr c) (sc_http_gw_port c)
       then Inl (HttpGwSharesListen (sc_http_gw_port c))
       else if https_gw_enabled c \<and> tcp_listen_conflicts host port (sc_proxy_addr c) (sc_https_gw_port c)
       then Inl (HttpsGwSharesListen (sc_https_gw_port c))
       else if http_gw_enabled c \<and> https_gw_enabled c \<and> sc_http_gw_port c = sc_https_gw_port c
       then Inl (HttpHttpsSamePort (sc_http_gw_port c))
       else dashboard_validate (sc_dashboard c)))"

definition resolve_paths :: "(string \<Rightarrow> string) \<Rightarrow> ServerConfig \<Rightarrow> ServerConfig" where
  "resolve_paths resolve c =
     (let tls = st_tls (sc_transport c)
      in c\<lparr>sc_transport := (sc_transport c)\<lparr>st_tls := tls\<lparr>
           stc_cert_file := resolve (stc_cert_file tls),
           stc_key_file := resolve (stc_key_file tls),
           stc_trusted_ca_file := resolve (stc_trusted_ca_file tls)\<rparr>\<rparr>\<rparr>)"

definition ServerConfig_load ::
    "(string \<Rightarrow> env_var) \<Rightarrow> (string \<Rightarrow> ServerConfig option) \<Rightarrow> (string \<Rightarrow> string) \<Rightarrow> string option \<Rightarrow>
     cfg_error + ServerConfig" where
  "ServerConfig_load env from_toml resolve file =
     (case file of
        None \<Rightarrow> Inl ReadFailed
      | Some t \<Rightarrow>
          (case expand_env_placeholders env t of
             Inl e \<Rightarrow> Inl (EnvError e)
           | Inr expanded \<Rightarrow>
               (case from_toml expanded of
                  None \<Rightarrow> Inl TomlFailed
                | Some cfg \<Rightarrow>
                    let cfg = complete (resolve_paths resolve cfg)
                    in rbind (validate cfg) (\<lambda>_. Inr cfg))))"

definition from_defaults :: ServerConfig where
  "from_defaults = complete ServerConfig_default"

section \<open>Facts about ports and trimming\<close>

lemma digit_not_ws:
  assumes "is_digit c"
  shows "\<not> ws1 c" "\<not> ws2 d c" "\<not> ws3 d e c"
  using assms by (auto simp: is_digit_def ws1_def ws2_def ws3_def)

lemma port_to_string_digits: "list_all is_digit (port_to_string p)" "port_to_string p \<noteq> []"
  by (simp_all add: port_to_string_def nat_to_string_digits)

lemma parse_port_to_string [simp]: "parse_u16 (port_to_string p) = Some p"
  using unsigned_less [of p, where ?'a = nat] by (simp add: port_to_string_def)

lemma ws_len_rev_digit: "s \<noteq> [] \<Longrightarrow> is_digit (last s) \<Longrightarrow> ws_len_rev (rev s) = 0"
  by (cases "rev s" rule: ws_len_rev.cases) (auto simp: digit_not_ws dest: arg_cong [where f = rev])

lemma last_port: "is_digit (last (port_to_string p))"
  using port_to_string_digits [of p] by (auto simp: list_all_iff)

lemma ws_len_host:
  "host \<noteq> [] \<Longrightarrow> ws_len (host @ CHR '':'' # x) = 0 \<Longrightarrow> ws_len (host @ CHR '':'' # y) = 0"
  by (cases host rule: ws_len.cases; cases x; cases y)
    (auto simp: ws2_def ws3_def split: if_splits)

lemma ws_len_append_colon: "host \<noteq> [] \<Longrightarrow> ws_len host = 0 \<Longrightarrow> ws_len (host @ CHR '':'' # y) = 0"
  by (cases host rule: ws_len.cases; cases y)
    (auto simp: ws1_def ws2_def ws3_def split: if_splits)

lemma trim_with_port:
  assumes "ws_len (host @ '':'' @ port_to_string p) = 0"
  shows "trim (host @ '':'' @ port_to_string p) = host @ '':'' @ port_to_string p"
  using assms ws_len_rev_digit [of "host @ '':'' @ port_to_string p"] last_port [of p]
    port_to_string_digits(2) [of p]
  by (intro trim_fix) simp_all

lemma colon_not_port: "CHR '':'' \<notin> set (port_to_string p)"
  using port_to_string_digits(1) [of p] by (auto simp: list_all_iff is_digit_def)

lemma rsplit_port: "rsplit_once (CHR '':'') (s @ '':'' @ port_to_string p) = Some (s, port_to_string p)"
  using colon_not_port [of p] by (simp add: rsplit_once_Some)

text \<open>Printing a host and a port and parsing them again.\<close>

lemma parse_plain_host:
  assumes "ws_len (host @ '':'' @ port_to_string p) = 0" and "host \<noteq> []" and "\<not> prefix ''['' host"
  shows "parse_host_port (host @ '':'' @ port_to_string p) d =
    (if CHR '':'' \<in> set host then Inr (host @ '':'' @ port_to_string p, d)
     else Inr (host, if p = 0 then d else p))"
proof -
  have "strip_prefix ''['' (host @ '':'' @ port_to_string p) = None"
    using assms(2,3) by (cases host) (auto simp: strip_prefix_None)
  then show ?thesis
    using assms(2) trim_with_port [OF assms(1)] rsplit_port [of host p] port_to_string_digits(2) [of p]
    by (simp add: parse_host_port_def Let_def port_or_default_def)
qed

lemma parse_bracket_host:
  assumes "h \<noteq> []" and "CHR '']'' \<notin> set h"
  shows "parse_host_port ((''['' @ h @ '']'') @ '':'' @ port_to_string p) d =
    Inr (''['' @ h @ '']'', if p = 0 then d else p)"
proof -
  have "ws_len ((''['' @ h @ '']'') @ '':'' @ port_to_string p) = 0"
    using assms(1) by (cases h; cases "tl h") (auto simp: ws1_def ws2_def ws3_def)
  from trim_with_port [OF this]
  have t: "trim (CHR ''['' # h @ CHR '']'' # CHR '':'' # port_to_string p) =
      CHR ''['' # h @ CHR '']'' # CHR '':'' # port_to_string p" by simp
  have "split_once (CHR '']'') (h @ CHR '']'' # CHR '':'' # port_to_string p) =
      Some (h, CHR '':'' # port_to_string p)"
    using assms(2) by (simp add: split_once_Some)
  with t assms(1) port_to_string_digits(2) [of p] show ?thesis
    by (simp add: parse_host_port_def Let_def port_or_default_def)
qed

text \<open>The hosts that parsing returns.\<close>

lemma port_or_default_host: "port_or_default raw host d s = Inr (h, p) \<Longrightarrow> h = host"
  by (auto simp: port_or_default_def split: if_splits option.splits)

lemma port_or_default_port: "port_or_default raw host d s = Inr (h, p) \<Longrightarrow> d \<noteq> 0 \<Longrightarrow> p \<noteq> 0"
  by (auto simp: port_or_default_def split: if_splits option.splits)

lemma parsed_host_cases:
  assumes "parse_host_port raw d = Inr (h, p)"
  obtains (bracket) i where "h = ''['' @ i @ '']''" "i \<noteq> []" "CHR '']'' \<notin> set i"
  | (plain) "h \<noteq> []" "\<not> prefix ''['' h" "\<And>q. ws_len (h @ '':'' @ port_to_string q) = 0"
proof (cases "trim raw = []")
  case True
  with assms have h: "h = ''0.0.0.0''" by (simp add: parse_host_port_def default_listen_host_def)
  then show ?thesis by (intro plain) (simp_all add: ws1_def ws2_def ws3_def)
next
  case False
  show ?thesis
  proof (cases "strip_prefix ''['' (trim raw)")
    case (Some rest)
    with assms False obtain i after where "split_once (CHR '']'') rest = Some (i, after)" "i \<noteq> []"
      "h = ''['' @ i @ '']''"
      by (auto simp: parse_host_port_def Let_def split: option.splits if_splits dest!: port_or_default_host)
    then show ?thesis by (auto intro: bracket simp: split_once_Some)
  next
    case None
    then have nb: "\<not> prefix ''['' (trim raw)" by (simp add: strip_prefix_None)
    have whole: ?thesis if "h = trim raw"
    proof (rule plain)
      show "ws_len (h @ '':'' @ port_to_string q) = 0" for q
        using ws_len_trim [of raw] False that by (simp add: ws_len_append_colon)
    qed (use that False nb in auto)
    show ?thesis
    proof (cases "rsplit_once (CHR '':'') (trim raw)")
      case None
      with assms False \<open>strip_prefix _ _ = None\<close> whole show ?thesis
        by (simp add: parse_host_port_def)
    next
      case (Some hp)
      obtain host port_str where hp: "hp = (host, port_str)" by (cases hp)
      with Some have split: "trim raw = host @ CHR '':'' # port_str" by (simp add: rsplit_once_Some)
      show ?thesis
      proof (cases "host \<noteq> [] \<and> CHR '':'' \<notin> set host")
        case True
        with assms False None Some hp have "h = host"
          by (auto simp: parse_host_port_def Let_def dest: port_or_default_host)
        moreover have "ws_len (host @ '':'' @ port_to_string q) = 0" for q
          using ws_len_host [of host port_str] True ws_len_trim [of raw] split by simp
        ultimately show ?thesis using True nb split by (intro plain) (auto simp: prefix_append)
      next
        case False
        with assms \<open>trim raw \<noteq> []\<close> None Some hp whole show ?thesis by (auto simp: parse_host_port_def Let_def)
      qed
    qed
  qed
qed

lemma parsed_port_nonzero:
  assumes "parse_host_port raw d = Inr (h, p)" and "d \<noteq> 0"
  shows "p \<noteq> 0"
  using assms
  by (auto simp: parse_host_port_def Let_def split: if_splits option.splits dest: port_or_default_port)

section \<open>Completion\<close>

lemma complete_listen:
  "sc_listen (complete c) = (case parse_host_port (sc_listen c) default_listen_port of
     Inr (host, port) \<Rightarrow> host @ '':'' @ port_to_string port | Inl _ \<Rightarrow> default_listen)"
  by (simp add: complete_def Let_def split: sum.split)

lemma complete_fields:
  "sc_dashboard (complete c) = dashboard_complete (sc_dashboard c)"
  "sc_transport (complete c) = transport_complete (sc_transport c)"
  "sc_log (complete c) = LogConfig_complete (sc_log c)"
  "sc_auth (complete c) = (if trim (ac_auth_type (sc_auth c)) = []
     then (sc_auth c)\<lparr>ac_auth_type := default_auth_type\<rparr> else sc_auth c)"
  "sc_udp_packet_size (complete c) = (if sc_udp_packet_size c = 0 then default_udp_packet_size
     else sc_udp_packet_size c)"
  "sc_proxy_addr (complete c) = (if trim (sc_proxy_addr c) = []
     then (case map_sum id fst (parse_host_port (sc_listen (complete c)) default_listen_port) of
             Inr h \<Rightarrow> h | Inl _ \<Rightarrow> default_listen_host)
     else sc_proxy_addr c)"
  "sc_quic_port (complete c) = sc_quic_port c" "sc_kcp_port (complete c) = sc_kcp_port c"
  "sc_http_gw_port (complete c) = sc_http_gw_port c" "sc_https_gw_port (complete c) = sc_https_gw_port c"
  "sc_root_domain (complete c) = sc_root_domain c"
  by (auto simp: complete_def Let_def listen_host_def split: sum.split)

lemma ws_ascii_lower [simp]:
  "ws1 (ascii_lower a) = ws1 a" "ws2 (ascii_lower a) (ascii_lower b) = ws2 a b"
  "ws3 (ascii_lower a) (ascii_lower b) (ascii_lower c) = ws3 a b c"
proof -
  have low: "ascii_lower x = y \<longleftrightarrow> x = y" if "(of_char y :: nat) < 65 \<or> 122 < (of_char y :: nat)" for x y
    using that by (auto simp: ascii_lower_def of_char_of)
  show "ws1 (ascii_lower a) = ws1 a" "ws2 (ascii_lower a) (ascii_lower b) = ws2 a b"
    "ws3 (ascii_lower a) (ascii_lower b) (ascii_lower c) = ws3 a b c"
    by (simp_all add: ws1_def ws2_def ws3_def low)
qed

lemma ws_len_lower: "ws_len (map ascii_lower s) = ws_len s" "ws_len_rev (map ascii_lower s) = ws_len_rev s"
  by (cases s rule: ws_len.cases; simp) (cases s rule: ws_len_rev.cases; simp)

lemma trim_lower_trim: "trim (to_ascii_lowercase (trim s)) = to_ascii_lowercase (trim s)"
  by (rule trim_fix)
    (simp_all add: to_ascii_lowercase_def ws_len_lower ws_len_trim ws_len_rev_trim rev_map)

lemma LogConfig_complete_idem: "LogConfig_complete (LogConfig_complete c) = LogConfig_complete c"
proof -
  have "to_ascii_lowercase (trim default_level) = default_level"
    by (simp add: default_level_def str_simps)
  then show ?thesis
    by (simp add: LogConfig_complete_def Let_def trim_lower_trim)
qed

lemma transport_complete_idem: "transport_complete (transport_complete t) = transport_complete t"
proof -
  have "trim ORBIEN_WEBSOCKET_PATH = ORBIEN_WEBSOCKET_PATH"
    by (simp add: ORBIEN_WEBSOCKET_PATH_def str_simps)
  then have "normalize_ws_path (normalize_ws_path p) = normalize_ws_path p" for p
    by (simp add: normalize_ws_path_def Let_def)
  then show ?thesis by (simp add: transport_complete_def Let_def)
qed

lemma dashboard_complete_idem: "dashboard_complete (dashboard_complete d) = dashboard_complete d"
  by (simp add: dashboard_complete_def)

lemma default_listen_parses: "parse_host_port default_listen d = Inr (default_listen_host, default_listen_port)"
  unfolding default_listen_def
  by (subst parse_plain_host)
    (simp_all add: default_listen_host_def default_listen_port_def ws1_def ws2_def ws3_def)

lemma complete_idem_if:
  assumes "sc_listen (complete (complete c)) = sc_listen (complete c)"
  shows "complete (complete c) = complete c"
  using assms
  by (intro ServerConfig.equality)
    (simp_all add: complete_fields LogConfig_complete_idem transport_complete_idem
      dashboard_complete_idem default_udp_packet_size_def)

section \<open>Properties\<close>

text \<open>Printing and parsing of addresses agree: \<open>host:port\<close> with a host name or an IPv4 address, and
  \<open>[addr]:port\<close> with an IPv6 address, are read back as they were written.\<close>

theorem host_port_roundtrip:
  assumes "p \<noteq> 0"
  shows "(trim host = host \<and> host \<noteq> [] \<and> CHR '':'' \<notin> set host \<and> \<not> prefix ''['' host \<longrightarrow>
      parse_host_port (host @ '':'' @ port_to_string p) d = Inr (host, p)) \<and>
    (addr \<noteq> [] \<and> CHR '']'' \<notin> set addr \<longrightarrow>
      parse_host_port ((''['' @ addr @ '']'') @ '':'' @ port_to_string p) d = Inr (''['' @ addr @ '']'', p))"
  using assms ws_len_trim [of host] parse_plain_host [of host p d] parse_bracket_host [of addr p d]
  by (auto simp: ws_len_append_colon)

theorem host_port_roundtrip_witness:
  "parse_host_port (''h'' @ '':'' @ port_to_string 80) 1 = Inr (''h'', 80) \<and>
    parse_host_port ((''['' @ ''::1'' @ '']'') @ '':'' @ port_to_string 80) 1 = Inr (''['' @ ''::1'' @ '']'', 80)"
proof -
  have "trim ''h'' = ''h''" by (simp add: str_simps)
  then show ?thesis using host_port_roundtrip [of 80 "''h''" 1 "''::1''"] by simp
qed

text \<open>After completion the listen address always parses, so the check of the listen address in
  \<open>validate\<close> cannot fail: a listen address that does not parse is replaced by the default, which
  listens on every interface, instead of being reported.\<close>

theorem invalid_listen_masked:
  "(\<exists>hp. parse_host_port (sc_listen (complete c)) default_listen_port = Inr hp) \<and>
   ((\<exists>e. parse_host_port (sc_listen c) default_listen_port = Inl e) \<longrightarrow>
     sc_listen (complete c) = ''0.0.0.0:9527'')"
proof (cases "parse_host_port (sc_listen c) default_listen_port")
  case (Inl e)
  have "default_listen = ''0.0.0.0:9527''"
    by (simp add: default_listen_def default_listen_host_def default_listen_port_def port_to_string_def
        str_simps)
  with Inl show ?thesis by (simp add: complete_listen default_listen_parses)
next
  case (Inr hp)
  obtain h p where hp: "hp = (h, p)" by (cases hp)
  have "\<exists>hp. parse_host_port (h @ '':'' @ port_to_string p) default_listen_port = Inr hp"
    using Inr unfolding hp
  proof (cases rule: parsed_host_cases)
    case (bracket i)
    with parse_bracket_host show ?thesis by blast
  next
    case plain
    with parse_plain_host [of h p default_listen_port] show ?thesis by auto
  qed
  with Inr hp show ?thesis by (simp add: complete_listen)
qed

theorem invalid_listen_masked_witness:
  "sc_listen (complete (ServerConfig_default\<lparr>sc_listen := ''[''\<rparr>)) = ''0.0.0.0:9527''"
proof -
  have "parse_host_port ''['' default_listen_port = Inl (MissingBracket ''['')"
    by (simp add: parse_host_port_def str_simps)
  then show ?thesis
    using invalid_listen_masked [of "ServerConfig_default\<lparr>sc_listen := ''[''\<rparr>"] by simp
qed

text \<open>Completion is idempotent unless the listen address is an IPv6 address without brackets; such
  an address gets a port appended without brackets, so that it no longer names the port, and every
  further completion appends another one.\<close>

theorem complete_idempotent:
  "case parse_host_port (sc_listen c) default_listen_port of
     Inl _ \<Rightarrow> complete (complete c) = complete c
   | Inr (h, p) \<Rightarrow>
       if \<not> prefix ''['' h \<and> CHR '':'' \<in> set h
       then sc_listen (complete (complete c)) = sc_listen (complete c) @ '':9527''
       else complete (complete c) = complete c"
proof (cases "parse_host_port (sc_listen c) default_listen_port")
  case (Inl e)
  then have "sc_listen (complete (complete c)) = sc_listen (complete c)"
    by (simp add: complete_listen default_listen_parses) (simp add: default_listen_def)
  with Inl complete_idem_if show ?thesis by simp
next
  case (Inr hp)
  obtain h p where hp: "hp = (h, p)" by (cases hp)
  have p: "p \<noteq> 0"
    by (rule parsed_port_nonzero [OF Inr [unfolded hp]]) (simp add: default_listen_port_def)
  have port: "'':'' @ port_to_string default_listen_port = '':9527''"
    by (simp add: default_listen_port_def port_to_string_def str_simps)
  from Inr [unfolded hp] show ?thesis
  proof (cases rule: parsed_host_cases)
    case (bracket i)
    then have "sc_listen (complete (complete c)) = sc_listen (complete c)"
      using Inr hp p parse_bracket_host [of i p default_listen_port] by (simp add: complete_listen)
    with Inr hp bracket complete_idem_if show ?thesis by simp
  next
    case plain
    then show ?thesis
      using Inr hp p port parse_plain_host [of h p default_listen_port]
      by (auto simp: complete_listen intro!: complete_idem_if)
  qed
qed

end
