(* ===== verification/Config_Client.thy ===== *)
theory Config_Client
  imports Config_Server
begin

text \<open>
  The client configuration (\<open>core/src/config/client.rs\<close>) and the transport protocol names
  (\<open>core/src/transport/mod.rs\<close>): completion, validation and what the client derives from them. A
  bandwidth is a 64-bit float and is kept as its bit pattern.
\<close>

section \<open>Transport protocols\<close>

datatype Protocol = Tcp | Quic | Websocket | Kcp

definition Protocol_parse :: "string \<Rightarrow> Protocol option" where
  "Protocol_parse s =
     (let s = trim s
      in if s = [] \<or> eq_ignore_ascii_case s ''tcp'' then Some Tcp
         else if eq_ignore_ascii_case s ''quic'' then Some Quic
         else if eq_ignore_ascii_case s ''websocket'' \<or> eq_ignore_ascii_case s ''ws'' then Some Websocket
         else if eq_ignore_ascii_case s ''kcp'' then Some Kcp
         else None)"

fun Protocol_as_str :: "Protocol \<Rightarrow> string" where
  "Protocol_as_str Tcp = ''tcp''"
| "Protocol_as_str Quic = ''quic''"
| "Protocol_as_str Websocket = ''websocket''"
| "Protocol_as_str Kcp = ''kcp''"

definition supports_yamux :: "Protocol \<Rightarrow> bool" where
  "supports_yamux p \<longleftrightarrow> p \<in> {Tcp, Websocket, Kcp}"

section \<open>Floats as bit patterns\<close>

text \<open>\<open>is_finite\<close> and the comparison with zero of an IEEE 754 double.\<close>

definition f64_is_nan :: "f64 \<Rightarrow> bool" where
  "f64_is_nan x \<longleftrightarrow> drop_bit 52 x AND 0x7FF = 0x7FF \<and> x AND 0xFFFFFFFFFFFFF \<noteq> 0"

definition f64_is_finite :: "f64 \<Rightarrow> bool" where
  "f64_is_finite x \<longleftrightarrow> drop_bit 52 x AND 0x7FF \<noteq> 0x7FF"

definition f64_is_negative :: "f64 \<Rightarrow> bool" where
  "f64_is_negative x \<longleftrightarrow> bit x 63 \<and> x \<noteq> 0x8000000000000000 \<and> \<not> f64_is_nan x"

section \<open>The fields\<close>

record ClientTlsConfig =
  ctc_enable :: bool
  ctc_cert_file :: string
  ctc_key_file :: string
  ctc_trusted_ca_file :: string
  ctc_server_name :: string

record TransportConfig =
  tc_protocol :: string
  tc_pool_count :: i32
  tc_tcp_mux :: bool
  tc_mux_keepalive_secs :: i64
  tc_tcp_keepalive_idle :: u64
  tc_tcp_keepalive_interval :: u64
  tc_heartbeat_interval :: i64
  tc_heartbeat_timeout :: i64
  tc_quic :: QuicConfig
  tc_ws_path :: string
  tc_tls :: ClientTlsConfig

record PluginConfig =
  pc_plugin_type :: string
  pc_service :: string
  pc_cert_file :: string
  pc_key_file :: string
  pc_host_header_rewrite :: string
  pc_username :: string
  pc_password :: string

record TunnelTransportConfig =
  ttc_bandwidth :: f64
  ttc_bandwidth_limit_side :: string
  ttc_proxy_protocol_version :: string

record TunnelConfig =
  tnc_name :: string
  tnc_protocol :: string
  tnc_service :: string
  tnc_remote_port :: u16
  tnc_domains :: "string list"
  tnc_locations :: "string list"
  tnc_basic_auth_user :: string
  tnc_basic_auth_password :: string
  tnc_host_header_rewrite :: string
  tnc_transport :: TunnelTransportConfig
  tnc_plugin :: "PluginConfig option"

record ClientConfig =
  cc_server :: string
  cc_user :: string
  cc_agent_id :: string
  cc_auth :: AuthConfig
  cc_transport :: TransportConfig
  cc_tunnels :: "TunnelConfig list"
  cc_udp_packet_size :: nat
  cc_log :: LogConfig

definition ClientTlsConfig_default :: ClientTlsConfig where
  "ClientTlsConfig_default =
     \<lparr>ctc_enable = True, ctc_cert_file = [], ctc_key_file = [], ctc_trusted_ca_file = [], ctc_server_name = []\<rparr>"

definition TransportConfig_default :: TransportConfig where
  "TransportConfig_default =
     \<lparr>tc_protocol = ''tcp'', tc_pool_count = 1, tc_tcp_mux = True, tc_mux_keepalive_secs = 30,
      tc_tcp_keepalive_idle = DEFAULT_TCP_KEEPALIVE_IDLE_SECS,
      tc_tcp_keepalive_interval = DEFAULT_TCP_KEEPALIVE_INTERVAL_SECS,
      tc_heartbeat_interval = -1, tc_heartbeat_timeout = -1, tc_quic = QuicConfig_default,
      tc_ws_path = ORBIEN_WEBSOCKET_PATH, tc_tls = ClientTlsConfig_default\<rparr>"

definition client_tcp_keepalive :: "TransportConfig \<Rightarrow> TcpKeepaliveConfig" where
  "client_tcp_keepalive c = TcpKeepaliveConfig_new (tc_tcp_keepalive_idle c) (tc_tcp_keepalive_interval c)"

section \<open>Operations\<close>

definition service_host_port :: "TunnelConfig \<Rightarrow> cfg_error + string \<times> u16" where
  "service_host_port t =
     (let raw = trim (tnc_service t)
      in if raw = [] then Inr (''127.0.0.1'', 0)
         else (case parse_host_port raw 0 of
                 Inl _ \<Rightarrow> Inl (InvalidService (tnc_name t))
               | Inr (host, port) \<Rightarrow>
                   if port = 0 then Inl (ServiceNeedsPort (tnc_name t))
                   else if host = [] then Inl (ServiceEmptyHost (tnc_name t))
                   else Inr (host, port)))"

definition has_plugin :: "TunnelConfig \<Rightarrow> bool" where
  "has_plugin t \<longleftrightarrow> (case tnc_plugin t of Some p \<Rightarrow> trim (pc_plugin_type p) \<noteq> [] | None \<Rightarrow> False)"

definition requires_local_service :: "TunnelConfig \<Rightarrow> bool" where
  "requires_local_service t \<longleftrightarrow> \<not> has_plugin t"

definition protocol :: "ClientConfig \<Rightarrow> cfg_error + Protocol" where
  "protocol c =
     (case Protocol_parse (tc_protocol (cc_transport c)) of
        None \<Rightarrow> Inl (UnsupportedTransport (tc_protocol (cc_transport c)))
      | Some p \<Rightarrow> Inr p)"

definition server_host :: "ClientConfig \<Rightarrow> cfg_error + string" where
  "server_host c = map_sum id fst (parse_host_port (cc_server c) 9527)"

definition server_port :: "ClientConfig \<Rightarrow> cfg_error + u16" where
  "server_port c = map_sum id snd (parse_host_port (cc_server c) 9527)"

definition tls_server_name :: "ClientConfig \<Rightarrow> string" where
  "tls_server_name c =
     (let sn = trim (ctc_server_name (tc_tls (cc_transport c)))
      in if sn = [] then (case server_host c of Inr h \<Rightarrow> h | Inl _ \<Rightarrow> ''localhost'') else sn)"

definition server_endpoint :: "ClientConfig \<Rightarrow> string" where
  "server_endpoint c = trim (cc_server c)"

definition uses_yamux :: "ClientConfig \<Rightarrow> bool" where
  "uses_yamux c \<longleftrightarrow> tc_tcp_mux (cc_transport c) \<and> (protocol c \<in> {Inr Tcp, Inr Websocket, Inr Kcp})"

definition connection_settings_eq :: "ClientConfig \<Rightarrow> ClientConfig \<Rightarrow> bool" where
  "connection_settings_eq c d \<longleftrightarrow>
     cc_server c = cc_server d \<and> cc_user c = cc_user d \<and> cc_agent_id c = cc_agent_id d \<and>
     cc_auth c = cc_auth d \<and> cc_transport c = cc_transport d \<and>
     cc_udp_packet_size c = cc_udp_packet_size d"

definition client_transport_complete :: "Protocol option \<Rightarrow> TransportConfig \<Rightarrow> TransportConfig" where
  "client_transport_complete proto t =
     (let t = (if proto = Some Quic
               then t\<lparr>tc_tcp_mux := False, tc_tls := (tc_tls t)\<lparr>ctc_enable := True\<rparr>\<rparr> else t);
          t = (if \<not> tc_tcp_mux t \<and> sint (tc_heartbeat_interval t) < 0 then t\<lparr>tc_heartbeat_interval := 30\<rparr> else t)
      in if \<not> tc_tcp_mux t \<and> sint (tc_heartbeat_timeout t) < 0 then t\<lparr>tc_heartbeat_timeout := 90\<rparr> else t)"

definition client_complete :: "ClientConfig \<Rightarrow> ClientConfig" where
  "client_complete c =
     (let c = c\<lparr>cc_transport := client_transport_complete
                (case protocol c of Inr p \<Rightarrow> Some p | Inl _ \<Rightarrow> None) (cc_transport c)\<rparr>;
          c = (if trim (ac_auth_type (cc_auth c)) = []
               then c\<lparr>cc_auth := (cc_auth c)\<lparr>ac_auth_type := default_auth_type\<rparr>\<rparr> else c);
          c = (if cc_udp_packet_size c = 0 then c\<lparr>cc_udp_packet_size := default_udp_packet_size\<rparr> else c);
          c = (if trim (ctc_server_name (tc_tls (cc_transport c))) = []
               then (case server_host c of
                       Inr host \<Rightarrow> c\<lparr>cc_transport := (cc_transport c)\<lparr>tc_tls :=
                         (tc_tls (cc_transport c))\<lparr>ctc_server_name := host\<rparr>\<rparr>\<rparr>
                     | Inl _ \<Rightarrow> c)
               else c)
      in c\<lparr>cc_transport := (cc_transport c)\<lparr>tc_ws_path := normalize_ws_path (tc_ws_path (cc_transport c))\<rparr>,
           cc_log := LogConfig_complete (cc_log c)\<rparr>)"

definition validate_socks5_plugin_fields :: "string \<Rightarrow> PluginConfig \<Rightarrow> cfg_error + unit" where
  "validate_socks5_plugin_fields name plugin =
     (if trim (pc_username plugin) = [] \<or> trim (pc_password plugin) = []
      then Inl (Socks5NeedsCredentials name) else Inr ())"

definition validate_tcp_tunnel_plugin :: "string \<Rightarrow> PluginConfig \<Rightarrow> cfg_error + unit" where
  "validate_tcp_tunnel_plugin name plugin =
     (let pt = to_ascii_lowercase (trim (pc_plugin_type plugin))
      in if pt = [] then Inr ()
         else if pt = ''socks5'' then validate_socks5_plugin_fields name plugin
         else Inl (UnsupportedPlugin name pt))"

definition validate_https_tunnel_plugin :: "string \<Rightarrow> PluginConfig \<Rightarrow> cfg_error + unit" where
  "validate_https_tunnel_plugin name plugin =
     (let pt = to_ascii_lowercase (trim (pc_plugin_type plugin))
      in if pt = [] then Inr ()
         else if pt = ''tls-term'' then
           (if trim (pc_service plugin) = [] then Inl (PluginServiceRequired name)
            else (case parse_host_port (pc_service plugin) 0 of
                    Inl _ \<Rightarrow> Inl (InvalidService name)
                  | Inr (h, p) \<Rightarrow> if h = [] \<or> p = 0 then Inl (PluginServiceHostPort name) else Inr ()))
         else Inl (UnsupportedPlugin name pt))"

text \<open>The checks of one tunnel after its name was checked.\<close>

definition validate_tunnel :: "TunnelConfig \<Rightarrow> cfg_error + unit" where
  "validate_tunnel t =
     (let proto = to_ascii_lowercase (trim (tnc_protocol t));
          bw = ttc_bandwidth (tnc_transport t);
          side = to_ascii_lowercase (trim (ttc_bandwidth_limit_side (tnc_transport t)));
          service_ok = (if requires_local_service t
                        then map_sum id (\<lambda>_. ()) (service_host_port t) else Inr ())
      in if proto \<notin> {''tcp'', ''udp'', ''http'', ''https''}
           then Inl (UnsupportedTunnelProtocol (tnc_name t) (tnc_protocol t))
         else if \<not> f64_is_finite bw \<or> f64_is_negative bw then Inl (InvalidBandwidth (tnc_name t))
         else if side \<noteq> [] \<and> side \<noteq> ''client'' \<and> side \<noteq> ''server''
           then Inl (InvalidLimitSide (tnc_name t) (ttc_bandwidth_limit_side (tnc_transport t)))
         else if proto \<in> {''tcp'', ''udp''} then
           (if tnc_remote_port t = 0 then Inl (RemotePortRequired (tnc_name t))
            else rbind service_ok (\<lambda>_.
              case tnc_plugin t of
                None \<Rightarrow> Inr () | Some plugin \<Rightarrow> validate_tcp_tunnel_plugin (tnc_name t) plugin))
         else
           (if tnc_domains t = [] then Inl (DomainsRequired (tnc_name t))
            else rbind service_ok (\<lambda>_.
              case tnc_plugin t of
                None \<Rightarrow> Inr () | Some plugin \<Rightarrow> validate_https_tunnel_plugin (tnc_name t) plugin)))"

fun validate_tunnels :: "string list \<Rightarrow> TunnelConfig list \<Rightarrow> cfg_error + unit" where
  "validate_tunnels seen_names [] = Inr ()"
| "validate_tunnels seen_names (t # ts) =
     (if trim (tnc_name t) = [] then Inl TunnelNameRequired
      else if tnc_name t \<in> set seen_names then Inl (DuplicateTunnelName (tnc_name t))
      else rbind (validate_tunnel t) (\<lambda>_. validate_tunnels (tnc_name t # seen_names) ts))"

definition client_validate :: "ClientConfig \<Rightarrow> cfg_error + unit" where
  "client_validate c =
     rbind (LogConfig_validate (cc_log c)) (\<lambda>_.
       if trim (cc_server c) = [] then Inl ServerRequired
       else rbind (parse_host_port (cc_server c) 9527) (\<lambda>(host, port).
         if host = [] then Inl ServerHostEmpty
         else if port = 0 then Inl ServerPortZero
         else rbind (protocol c) (\<lambda>_.
           let t = cc_transport c
           in if sint (tc_pool_count t) < 1 then Inl (PoolCountTooSmall (tc_pool_count t))
              else if cc_udp_packet_size c = 0 \<or> 65535 < cc_udp_packet_size c
                then Inl (UdpPacketSizeRange (cc_udp_packet_size c))
              else if 0 < sint (tc_heartbeat_timeout t) \<and> 0 < sint (tc_heartbeat_interval t) \<and>
                  sint (tc_heartbeat_timeout t) < sint (tc_heartbeat_interval t)
                then Inl (HeartbeatOrder (tc_heartbeat_timeout t) (tc_heartbeat_interval t))
              else validate_tunnels [] (cc_tunnels c))))"

datatype LoadMode = Runtime | Edit

definition client_resolve_paths :: "(string \<Rightarrow> string) \<Rightarrow> ClientConfig \<Rightarrow> ClientConfig" where
  "client_resolve_paths resolve c =
     (let tls = tc_tls (cc_transport c)
      in c\<lparr>cc_transport := (cc_transport c)\<lparr>tc_tls := tls\<lparr>ctc_cert_file := resolve (ctc_cert_file tls),
             ctc_key_file := resolve (ctc_key_file tls),
             ctc_trusted_ca_file := resolve (ctc_trusted_ca_file tls)\<rparr>\<rparr>,
           cc_tunnels := map (\<lambda>t. t\<lparr>tnc_plugin := map_option (\<lambda>p.
             p\<lparr>pc_cert_file := resolve (pc_cert_file p), pc_key_file := resolve (pc_key_file p)\<rparr>)
             (tnc_plugin t)\<rparr>) (cc_tunnels c)\<rparr>)"

definition load_with ::
    "(string \<Rightarrow> env_var) \<Rightarrow> (string \<Rightarrow> ClientConfig option) \<Rightarrow> (string \<Rightarrow> string) \<Rightarrow> string option \<Rightarrow>
     LoadMode \<Rightarrow> cfg_error + ClientConfig" where
  "load_with env from_toml resolve file mode =
     (case file of
        None \<Rightarrow> Inl ReadFailed
      | Some t \<Rightarrow>
          rbind (case mode of
                   Runtime \<Rightarrow> map_sum EnvError id (expand_env_placeholders env t)
                 | Edit \<Rightarrow> if reject_env_placeholders t then Inl PlaceholdersInEditor else Inr t)
            (\<lambda>src. case from_toml src of
               None \<Rightarrow> Inl TomlFailed
             | Some cfg \<Rightarrow>
                 let cfg = (if mode = Runtime then client_resolve_paths resolve cfg else cfg);
                     cfg = client_complete cfg
                 in rbind (client_validate cfg) (\<lambda>_. Inr cfg)))"

definition prepare_runtime :: "(string \<Rightarrow> string) \<Rightarrow> ClientConfig \<Rightarrow> ClientConfig" where
  "prepare_runtime resolve c = client_complete (client_resolve_paths resolve c)"

section \<open>Facts\<close>

lemma client_transport_complete_idem:
  "client_transport_complete p (client_transport_complete p t) = client_transport_complete p t"
  by (auto simp: client_transport_complete_def Let_def)

lemma client_transport_complete_protocol [simp]:
  "tc_protocol (client_transport_complete p t) = tc_protocol t"
  "ctc_server_name (tc_tls (client_transport_complete p t)) = ctc_server_name (tc_tls t)"
  "tc_ws_path (client_transport_complete p t) = tc_ws_path t"
  by (simp_all add: client_transport_complete_def Let_def)

lemma client_transport_complete_upd:
  "client_transport_complete p (t\<lparr>tc_tls := (tc_tls t)\<lparr>ctc_server_name := h\<rparr>, tc_ws_path := w\<rparr>) =
    (client_transport_complete p t)\<lparr>tc_tls := (tc_tls (client_transport_complete p t))\<lparr>ctc_server_name := h\<rparr>,
      tc_ws_path := w\<rparr>"
  by (simp add: client_transport_complete_def Let_def)

text \<open>Completion in closed form.\<close>

definition completed_server_name :: "ClientConfig \<Rightarrow> string" where
  "completed_server_name c =
     (let sn = ctc_server_name (tc_tls (cc_transport c))
      in if trim sn = [] then (case server_host c of Inr h \<Rightarrow> h | Inl _ \<Rightarrow> sn) else sn)"

definition completed_transport :: "ClientConfig \<Rightarrow> TransportConfig" where
  "completed_transport c =
     (let t = client_transport_complete (case protocol c of Inr p \<Rightarrow> Some p | Inl _ \<Rightarrow> None) (cc_transport c)
      in t\<lparr>tc_tls := (tc_tls t)\<lparr>ctc_server_name := completed_server_name c\<rparr>,
           tc_ws_path := normalize_ws_path (tc_ws_path t)\<rparr>)"

lemma tls_triv: "t\<lparr>tc_tls := (tc_tls t)\<lparr>ctc_server_name := ctc_server_name (tc_tls t)\<rparr>\<rparr> = t"
  by simp

lemma client_complete_closed:
  "client_complete c = c\<lparr>
     cc_auth := (if trim (ac_auth_type (cc_auth c)) = []
       then (cc_auth c)\<lparr>ac_auth_type := default_auth_type\<rparr> else cc_auth c),
     cc_transport := completed_transport c,
     cc_udp_packet_size := (if cc_udp_packet_size c = 0 then default_udp_packet_size else cc_udp_packet_size c),
     cc_log := LogConfig_complete (cc_log c)\<rparr>"
  by (auto simp: client_complete_def completed_transport_def completed_server_name_def server_host_def Let_def
      split: sum.split)

lemma normalize_ws_path_idem: "normalize_ws_path (normalize_ws_path p) = normalize_ws_path p"
proof -
  have "trim ORBIEN_WEBSOCKET_PATH = ORBIEN_WEBSOCKET_PATH"
    by (simp add: ORBIEN_WEBSOCKET_PATH_def str_simps)
  then show ?thesis by (simp add: normalize_ws_path_def Let_def)
qed

lemma client_complete_simps [simp]:
  "cc_transport (client_complete c) = completed_transport c"
  "cc_server (client_complete c) = cc_server c"
  "cc_tunnels (client_complete c) = cc_tunnels c"
  by (simp_all add: client_complete_closed)

lemma completed_transport_simps [simp]:
  "tc_protocol (completed_transport c) = tc_protocol (cc_transport c)"
  "ctc_server_name (tc_tls (completed_transport c)) = completed_server_name c"
  by (simp_all add: completed_transport_def Let_def)

lemma protocol_client_complete [simp]: "protocol (client_complete c) = protocol c"
  by (simp add: protocol_def split: option.split)

lemma completed_transport_idem: "completed_transport (client_complete c) = completed_transport c"
proof -
  have host: "server_host (client_complete c) = server_host c"
    by (simp add: server_host_def)
  have name: "completed_server_name (client_complete c) = completed_server_name c"
    unfolding completed_server_name_def [of "client_complete c"]
    by (auto simp: completed_server_name_def host Let_def split: sum.split)
  show ?thesis
    unfolding completed_transport_def [of "client_complete c"] name protocol_client_complete
      client_complete_simps
    by (simp add: completed_transport_def Let_def client_transport_complete_upd
        client_transport_complete_idem normalize_ws_path_idem)
qed

lemma client_complete_idem: "client_complete (client_complete c) = client_complete c"
  unfolding client_complete_closed [of "client_complete c"] completed_transport_idem
  by (simp add: client_complete_closed LogConfig_complete_idem default_udp_packet_size_def)

lemma validate_tunnels_ok:
  "validate_tunnels seen ts = Inr () \<longleftrightarrow>
    distinct (map tnc_name ts) \<and> set (map tnc_name ts) \<inter> set seen = {} \<and>
    (\<forall>t \<in> set ts. trim (tnc_name t) \<noteq> [] \<and> validate_tunnel t = Inr ())"
  by (induction seen ts rule: validate_tunnels.induct) auto

lemma load_with_Inr:
  assumes "load_with env from_toml resolve file mode = Inr cfg"
  shows "client_validate cfg = Inr () \<and> (\<exists>c. cfg = client_complete c)"
  using assms by (auto simp: load_with_def Let_def split: option.splits)

section \<open>Properties\<close>

text \<open>C25. What the client runs with: every configuration that loading returns, in the runtime and in the
  editor mode, is complete (completing it again changes nothing) and valid, its tunnels have
  distinct names and satisfy the checks of their protocol, and with QUIC as transport it has TLS
  on and no stream multiplexing.\<close>

theorem loaded_client_config:
  assumes "load_with env from_toml resolve file mode = Inr cfg"
  shows "client_complete cfg = cfg \<and> client_validate cfg = Inr () \<and>
    distinct (map tnc_name (cc_tunnels cfg)) \<and>
    (\<forall>t \<in> set (cc_tunnels cfg). validate_tunnel t = Inr ()) \<and>
    1 \<le> sint (tc_pool_count (cc_transport cfg)) \<and>
    (protocol cfg = Inr Quic \<longrightarrow> \<not> uses_yamux cfg \<and> ctc_enable (tc_tls (cc_transport cfg)))"
proof -
  obtain c where c: "cfg = client_complete c" and valid: "client_validate cfg = Inr ()"
    using load_with_Inr [OF assms] by auto
  then have "validate_tunnels [] (cc_tunnels cfg) = Inr () \<and> 1 \<le> sint (tc_pool_count (cc_transport cfg))"
    by (auto simp: client_validate_def Let_def split: if_splits)
  moreover have "\<not> uses_yamux cfg \<and> ctc_enable (tc_tls (cc_transport cfg))" if "protocol cfg = Inr Quic"
  proof -
    have "protocol c = Inr Quic" using that by (simp add: c)
    then show ?thesis
      by (simp add: c uses_yamux_def completed_transport_def client_transport_complete_def Let_def)
  qed
  ultimately show ?thesis
    using c valid by (simp add: client_complete_idem validate_tunnels_ok)
qed

definition demo_client :: ClientConfig where
  "demo_client =
     \<lparr>cc_server = ''h'', cc_user = [], cc_agent_id = [], cc_auth = \<lparr>ac_auth_type = [], ac_token = []\<rparr>,
      cc_transport = TransportConfig_default, cc_tunnels = [], cc_udp_packet_size = 0, cc_log = LogConfig_default\<rparr>"

lemma demo_load:
  "load_with (\<lambda>_. NotPresent) (\<lambda>_. Some demo_client) id (Some []) Edit = Inr (client_complete demo_client)"
proof -
  have "parse_host_port ''h'' 9527 = Inr (''h'', 9527)"
    by (simp add: parse_host_port_def str_simps)
  moreover have "Protocol_parse ''tcp'' = Some Tcp" "trim ''h'' = ''h''"
    by (simp_all add: Protocol_parse_def str_simps)
  moreover have "LogConfig_validate (LogConfig_complete LogConfig_default) = Inr ()"
    by (simp add: LogConfig_validate_def LogConfig_complete_def LogConfig_default_def is_valid_level_def
        default_level_def str_simps)
  ultimately have "client_validate (client_complete demo_client) = Inr ()"
    by (simp add: client_validate_def client_complete_closed demo_client_def protocol_def
        completed_transport_def TransportConfig_default_def client_transport_complete_def
        default_udp_packet_size_def Let_def)
  then show ?thesis
    by (simp add: load_with_def reject_env_placeholders_def Let_def)
qed

theorem loaded_client_config_witness:
  "client_complete (client_complete demo_client) = client_complete demo_client \<and>
    client_validate (client_complete demo_client) = Inr ()"
  using loaded_client_config [OF demo_load] by blast

end
