(* ===== verification/Proxy_Protocol.thy ===== *)
theory Proxy_Protocol
  imports Rust_Utf8
begin

text \<open>
  PROXY protocol headers (\<open>core/src/net/proxy_protocol.rs\<close>): the builder for versions 1 and 2, the
  incremental parser, and the addresses of a data connection. The textual form of an IPv6 address
  is an argument (a printer and a parser); IPv4 addresses are printed and parsed as the standard
  library does.
\<close>

section \<open>Addresses\<close>

datatype IpAddr = V4 u8 u8 u8 u8 | V6 "u8 list"

fun wf_ip :: "IpAddr \<Rightarrow> bool" where
  "wf_ip (V4 a b c d) = True"
| "wf_ip (V6 os) = (length os = 16)"

record SocketAddr =
  sa_ip :: IpAddr
  sa_port :: u16

abbreviation sockaddr :: "IpAddr \<Rightarrow> u16 \<Rightarrow> SocketAddr" where
  "sockaddr ip p \<equiv> \<lparr>sa_ip = ip, sa_port = p\<rparr>"

record ip6_text =
  show6 :: "u8 list \<Rightarrow> string"
  parse6 :: "string \<Rightarrow> u8 list option"

definition u8_to_string :: "u8 \<Rightarrow> string" where
  "u8_to_string b = nat_to_string (unat b)"

definition show_v4 :: "u8 \<Rightarrow> u8 \<Rightarrow> u8 \<Rightarrow> u8 \<Rightarrow> string" where
  "show_v4 a b c d =
     u8_to_string a @ ''.'' @ u8_to_string b @ ''.'' @ u8_to_string c @ ''.'' @ u8_to_string d"

text \<open>An octet of \<open>Ipv4Addr::from_str\<close>: one to three digits, no leading zero, at most 255.\<close>

definition parse_octet :: "string \<Rightarrow> u8 option" where
  "parse_octet s =
     (if s \<noteq> [] \<and> length s \<le> 3 \<and> list_all is_digit s \<and> (length s = 1 \<or> hd s \<noteq> CHR ''0'') \<and> dec_val s \<le> 255
      then Some (of_nat (dec_val s)) else None)"

definition parse_v4 :: "string \<Rightarrow> IpAddr option" where
  "parse_v4 s =
     (case split_once (CHR ''.'') s of None \<Rightarrow> None | Some (p, r) \<Rightarrow>
      (case split_once (CHR ''.'') r of None \<Rightarrow> None | Some (q, r) \<Rightarrow>
       (case split_once (CHR ''.'') r of None \<Rightarrow> None | Some (t, u) \<Rightarrow>
        (case (parse_octet p, parse_octet q, parse_octet t, parse_octet u) of
           (Some a, Some b, Some c, Some d) \<Rightarrow> Some (V4 a b c d) | _ \<Rightarrow> None))))"

definition parse_ip :: "ip6_text \<Rightarrow> string \<Rightarrow> IpAddr option" where
  "parse_ip t s =
     (case parse_v4 s of Some ip \<Rightarrow> Some ip | None \<Rightarrow> map_option V6 (parse6 t s))"

fun show_ip :: "ip6_text \<Rightarrow> IpAddr \<Rightarrow> string" where
  "show_ip t (V4 a b c d) = show_v4 a b c d"
| "show_ip t (V6 os) = show6 t os"

definition as_bytes :: "string \<Rightarrow> u8 list" where
  "as_bytes s = map (\<lambda>c. of_nat (of_char c)) s"

definition as_str :: "u8 list \<Rightarrow> string" where
  "as_str bs = map (\<lambda>b. char_of (unat b)) bs"

definition to_be_bytes :: "u16 \<Rightarrow> u8 list" where
  "to_be_bytes w = [ucast (drop_bit 8 w), ucast w]"

definition from_be_bytes :: "u8 \<Rightarrow> u8 \<Rightarrow> u16" where
  "from_be_bytes hi lo = push_bit 8 (ucast hi) OR ucast lo"

section \<open>Building headers\<close>

datatype pp_error =
    InvalidVersion string
  | UnsupportedVersion string
  | NoCrlf
  | NotUtf8
  | InvalidV1Line
  | BadV1Field
  | UnsupportedV2Version u8
  | UnsupportedV2Command u8
  | ShortAddressBlock
  | UnsupportedFamily u8

definition V2_SIG :: "u8 list" where
  "V2_SIG = [0x0d, 0x0a, 0x0d, 0x0a, 0x00, 0x0d, 0x0a, 0x51, 0x55, 0x49, 0x54, 0x0a]"

definition parse_proxy_protocol_version :: "string \<Rightarrow> pp_error + string option" where
  "parse_proxy_protocol_version s =
     (let s = trim s
      in if s = [] then Inr None
         else if eq_ignore_ascii_case s ''v1'' then Inr (Some ''v1'')
         else if eq_ignore_ascii_case s ''v2'' then Inr (Some ''v2'')
         else Inl (InvalidVersion s))"

definition LOCALHOST_V4 :: IpAddr where "LOCALHOST_V4 = V4 127 0 0 1"

definition LOCALHOST_V6 :: IpAddr where "LOCALHOST_V6 = V6 (replicate 15 0 @ [1])"

definition build_v1 :: "ip6_text \<Rightarrow> SocketAddr \<Rightarrow> SocketAddr \<Rightarrow> u8 list" where
  "build_v1 t src dst =
     (let (family, src_ip, dst_ip) =
            (case (sa_ip src, sa_ip dst) of
               (V4 a b c d, V4 e f g h) \<Rightarrow> (''TCP4'', show_ip t (sa_ip src), show_ip t (sa_ip dst))
             | (V6 a, V6 b) \<Rightarrow> (''TCP6'', show_ip t (sa_ip src), show_ip t (sa_ip dst))
             | (V4 a b c d, V6 _) \<Rightarrow> (''TCP4'', show_ip t (sa_ip src), ''127.0.0.1'')
             | (V6 a, V4 _ _ _ _) \<Rightarrow> (''TCP6'', show_ip t (sa_ip src), ''::1''))
      in as_bytes (''PROXY '' @ family @ '' '' @ src_ip @ '' '' @ dst_ip @ '' '' @
           nat_to_string (unat (sa_port src)) @ '' '' @ nat_to_string (unat (sa_port dst)) @
           [CHR 0x0D, CHR 0x0A]))"

text \<open>The body of a version 2 header after the version byte.\<close>

definition v2_block :: "u8 \<Rightarrow> u16 \<Rightarrow> u8 list \<Rightarrow> u8 list \<Rightarrow> u16 \<Rightarrow> u16 \<Rightarrow> u8 list" where
  "v2_block family len s d sp dp =
     [family] @ to_be_bytes len @ s @ d @ to_be_bytes sp @ to_be_bytes dp"

fun octets :: "IpAddr \<Rightarrow> u8 list" where
  "octets (V4 a b c d) = [a, b, c, d]"
| "octets (V6 os) = os"

definition build_v2 :: "SocketAddr \<Rightarrow> SocketAddr \<Rightarrow> u8 list" where
  "build_v2 src dst =
     V2_SIG @ [0x21] @
     (case (sa_ip src, sa_ip dst) of
        (V4 _ _ _ _, V4 _ _ _ _) \<Rightarrow>
          v2_block 0x11 12 (octets (sa_ip src)) (octets (sa_ip dst)) (sa_port src) (sa_port dst)
      | (V6 _, V6 _) \<Rightarrow>
          v2_block 0x21 36 (octets (sa_ip src)) (octets (sa_ip dst)) (sa_port src) (sa_port dst)
      | (V4 _ _ _ _, V6 _) \<Rightarrow>
          v2_block 0x11 12 (octets (sa_ip src)) (octets LOCALHOST_V4) (sa_port src) (sa_port dst)
      | (V6 _, V4 _ _ _ _) \<Rightarrow>
          v2_block 0x21 36 (octets (sa_ip src)) (octets LOCALHOST_V6) (sa_port src) (sa_port dst))"

definition build_proxy_protocol_header ::
    "ip6_text \<Rightarrow> SocketAddr \<Rightarrow> SocketAddr \<Rightarrow> string \<Rightarrow> pp_error + u8 list" where
  "build_proxy_protocol_header t src dst version =
     (if version = ''v1'' then Inr (build_v1 t src dst)
      else if version = ''v2'' then Inr (build_v2 src dst)
      else Inl (UnsupportedVersion version))"

section \<open>Parsing headers\<close>

record ParsedProxyHeader =
  pp_src :: SocketAddr
  pp_dst :: SocketAddr
  pp_header_len :: nat

datatype PpConsume = NotProxy | Incomplete | Done ParsedProxyHeader

definition unspecified :: SocketAddr where
  "unspecified = sockaddr (V4 0 0 0 0) 0"

text \<open>\<open>str::split_whitespace\<close>.\<close>

function split_ws_acc :: "string \<Rightarrow> string \<Rightarrow> string list" where
  "split_ws_acc acc s =
     (if s = [] then (if acc = [] then [] else [acc])
      else if ws_len s \<noteq> 0
        then (if acc = [] then [] else [acc]) @ split_ws_acc [] (drop (ws_len s) s)
      else split_ws_acc (acc @ [hd s]) (tl s))"
  by pat_completeness auto
termination
  by (relation "measure (\<lambda>(acc, s). length s)") auto

declare split_ws_acc.simps [simp del]

definition split_whitespace :: "string \<Rightarrow> string list" where
  "split_whitespace s = split_ws_acc [] s"

definition parse_v1 :: "ip6_text \<Rightarrow> u8 list \<Rightarrow> pp_error + PpConsume" where
  "parse_v1 t buf =
     (case find_str [CHR 0x0D, CHR 0x0A] (as_str buf) of
        None \<Rightarrow> if 108 \<le> length buf then Inl NoCrlf else Inr Incomplete
      | Some end_ \<Rightarrow>
          if \<not> utf8_valid (take end_ (as_str buf)) then Inl NotUtf8
          else let header_len = end_ + 2; parts = split_whitespace (take end_ (as_str buf))
               in if 2 \<le> length parts \<and> parts ! 1 = ''UNKNOWN''
                  then Inr (Done \<lparr>pp_src = unspecified, pp_dst = unspecified, pp_header_len = header_len\<rparr>)
                  else if length parts < 6 then Inl InvalidV1Line
                  else (case (parse_ip t (parts ! 2), parse_ip t (parts ! 3),
                              parse_u16 (parts ! 4), parse_u16 (parts ! 5)) of
                          (Some src_ip, Some dst_ip, Some src_port, Some dst_port) \<Rightarrow>
                            Inr (Done \<lparr>pp_src = sockaddr src_ip src_port, pp_dst = sockaddr dst_ip dst_port,
                                       pp_header_len = header_len\<rparr>)
                        | _ \<Rightarrow> Inl BadV1Field))"

definition parse_v2 :: "u8 list \<Rightarrow> pp_error + PpConsume" where
  "parse_v2 buf =
     (if length buf < 16 then Inr Incomplete
      else let ver_cmd = buf ! 12; version = drop_bit 4 ver_cmd; cmd = ver_cmd AND 0x0f
           in if version \<noteq> 0x02 then Inl (UnsupportedV2Version version)
              else let fam_prot = buf ! 13;
                       addr_len = unat (from_be_bytes (buf ! 14) (buf ! 15));
                       total = 16 + addr_len
                   in if length buf < total then Inr Incomplete
                      else if cmd = 0x00 then
                        Inr (Done \<lparr>pp_src = unspecified, pp_dst = unspecified, pp_header_len = total\<rparr>)
                      else if cmd \<noteq> 0x01 then Inl (UnsupportedV2Command cmd)
                      else let addr = take addr_len (drop 16 buf)
                           in if fam_prot = 0x11 then
                                (if length addr < 12 then Inl ShortAddressBlock
                                 else Inr (Done
                                   \<lparr>pp_src = sockaddr (V4 (addr ! 0) (addr ! 1) (addr ! 2) (addr ! 3))
                                              (from_be_bytes (addr ! 8) (addr ! 9)),
                                    pp_dst = sockaddr (V4 (addr ! 4) (addr ! 5) (addr ! 6) (addr ! 7))
                                              (from_be_bytes (addr ! 10) (addr ! 11)),
                                    pp_header_len = total\<rparr>))
                              else if fam_prot = 0x21 then
                                (if length addr < 36 then Inl ShortAddressBlock
                                 else Inr (Done
                                   \<lparr>pp_src = sockaddr (V6 (take 16 addr))
                                              (from_be_bytes (addr ! 32) (addr ! 33)),
                                    pp_dst = sockaddr (V6 (take 16 (drop 16 addr)))
                                              (from_be_bytes (addr ! 34) (addr ! 35)),
                                    pp_header_len = total\<rparr>))
                              else Inl (UnsupportedFamily fam_prot))"

definition try_consume_proxy_protocol :: "ip6_text \<Rightarrow> u8 list \<Rightarrow> pp_error + PpConsume" where
  "try_consume_proxy_protocol t buf =
     (if buf = [] then Inr Incomplete
      else if hd buf = 0x50 then
        (if length buf < 6
         then Inr (if prefix buf (as_bytes ''PROXY '') then Incomplete else NotProxy)
         else if \<not> prefix (as_bytes ''PROXY '') buf then Inr NotProxy
         else parse_v1 t buf)
      else if hd buf = 0x0d then
        (if length buf < 12
         then Inr (if prefix buf V2_SIG then Incomplete else NotProxy)
         else if \<not> prefix V2_SIG buf then Inr NotProxy
         else parse_v2 buf)
      else Inr NotProxy)"

definition addrs_from_start_data_conn ::
    "ip6_text \<Rightarrow> string \<Rightarrow> u16 \<Rightarrow> string \<Rightarrow> u16 \<Rightarrow> u16 \<Rightarrow> (SocketAddr \<times> SocketAddr) option" where
  "addrs_from_start_data_conn t src_ip src_port dst_ip dst_port fallback_dst_port =
     (if src_ip = [] then None
      else (case parse_ip t src_ip of
              None \<Rightarrow> None
            | Some sip \<Rightarrow>
                (case (if dst_ip = [] then Some LOCALHOST_V4 else parse_ip t dst_ip) of
                   None \<Rightarrow> None
                 | Some dip \<Rightarrow>
                     Some (sockaddr sip src_port,
                           sockaddr dip (if dst_port = 0 then fallback_dst_port else dst_port)))))"


section \<open>Version 2\<close>

lemma be_roundtrip: "from_be_bytes (ucast (drop_bit 8 w)) (ucast w) = (w :: u16)"
  by (rule bit_word_eqI)
    (auto simp: from_be_bytes_def bit_simps not_le less_diff_conv2)

lemma length_V2_SIG [simp]: "length V2_SIG = 12"
  by (simp add: V2_SIG_def)

lemma length_to_be_bytes [simp]: "length (to_be_bytes w) = 2"
  by (simp add: to_be_bytes_def)

definition v2_frame :: "u8 \<Rightarrow> u16 \<Rightarrow> u8 list \<Rightarrow> u8 list" where
  "v2_frame fam len body = V2_SIG @ [0x21, fam] @ to_be_bytes len @ body"

lemma v2_frame_nth:
  "v2_frame fam len body ! 12 = 0x21" "v2_frame fam len body ! 13 = fam"
  "from_be_bytes (v2_frame fam len body ! 14) (v2_frame fam len body ! 15) = len"
  "drop 16 (v2_frame fam len body) = body"
  by (simp_all add: v2_frame_def V2_SIG_def to_be_bytes_def be_roundtrip)

lemma length_v2_frame: "length (v2_frame fam len body) = 16 + length body"
  by (simp add: v2_frame_def)

lemma v2_frame_append: "v2_frame fam len body @ rest = v2_frame fam len (body @ rest)"
  by (simp add: v2_frame_def)

lemma hd_v2_frame: "v2_frame fam len body \<noteq> []" "hd (v2_frame fam len body) = 0x0d" 
   "prefix V2_SIG (v2_frame fam len body)"
  by (simp_all add: v2_frame_def V2_SIG_def)

lemma consume_v2_frame:
  "try_consume_proxy_protocol t (v2_frame fam len body) = parse_v2 (v2_frame fam len body)"
  using hd_v2_frame [of fam len body]
  by (simp add: try_consume_proxy_protocol_def length_v2_frame)

lemma v2_frame_incomplete:
  assumes "length body = unat len" and "n < length (v2_frame fam len body)"
  shows "try_consume_proxy_protocol t (take n (v2_frame fam len body)) = Inr Incomplete"
proof -
  let ?f = "v2_frame fam len body"
  have hd: "hd (take n ?f) = 0x0d" if "n \<noteq> 0" using that hd_v2_frame [of fam len body] by simp
  consider "n = 0" | "0 < n" "n < 12" | "12 \<le> n" "n < 16" | "16 \<le> n" by linarith
  then show ?thesis
  proof cases
    case 1
    then show ?thesis by (simp add: try_consume_proxy_protocol_def)
  next
    case 2
    have "prefix (take n ?f) V2_SIG"
      using 2 by (simp add: v2_frame_def take_is_prefix)
    moreover have "length (take n ?f) = n" using assms(2) by simp
    ultimately show ?thesis
      using 2 hd hd_v2_frame(1) [of fam len body] by (simp add: try_consume_proxy_protocol_def)
  next
    case 3
    have "prefix V2_SIG (take n ?f)"
      using 3 by (simp add: v2_frame_def)
    moreover have "length (take n ?f) = n" using assms(2) by simp
    ultimately show ?thesis
      using 3 hd hd_v2_frame(1) [of fam len body]
      by (simp add: try_consume_proxy_protocol_def parse_v2_def)
  next
    case 4
    have "prefix V2_SIG (take n ?f)"
      using 4 by (simp add: v2_frame_def)
    moreover have "parse_v2 (take n ?f) = Inr Incomplete"
      using 4 assms v2_frame_nth [of fam len body]
      by (simp add: parse_v2_def length_v2_frame Let_def)
    moreover have "length (take n ?f) = n" using assms(2) by simp
    ultimately show ?thesis
      using 4 hd hd_v2_frame(1) [of fam len body] by (simp add: try_consume_proxy_protocol_def)
  qed
qed


text \<open>The destination a header announces: the real one when both addresses are of one family, and the
  loopback address of the source's family with the real port otherwise.\<close>

fun announced_ip :: "IpAddr \<Rightarrow> IpAddr \<Rightarrow> IpAddr" where
  "announced_ip (V4 a b c d) (V4 e f g h) = V4 e f g h"
| "announced_ip (V6 s) (V6 d) = V6 d"
| "announced_ip (V4 a b c d) (V6 _) = LOCALHOST_V4"
| "announced_ip (V6 s) (V4 _ _ _ _) = LOCALHOST_V6"

definition v2_family :: "IpAddr \<Rightarrow> u8 \<times> u16" where
  "v2_family ip = (case ip of V4 _ _ _ _ \<Rightarrow> (0x11, 12) | V6 _ \<Rightarrow> (0x21, 36))"

lemma build_v2_frame:
  "build_v2 src dst = v2_frame (fst (v2_family (sa_ip src))) (snd (v2_family (sa_ip src)))
    (octets (sa_ip src) @ octets (announced_ip (sa_ip src) (sa_ip dst)) @
     to_be_bytes (sa_port src) @ to_be_bytes (sa_port dst))"
  by (cases "sa_ip src"; cases "sa_ip dst")
    (simp_all add: build_v2_def v2_family_def v2_frame_def v2_block_def)

lemma parse_v2_block:
  assumes "wf_ip s" and "wf_ip d" and "announced_ip s d = d"
  shows "parse_v2 (v2_frame (fst (v2_family s)) (snd (v2_family s))
      ((octets s @ octets d @ to_be_bytes sp @ to_be_bytes dp) @ rest)) =
    Inr (Done \<lparr>pp_src = sockaddr s sp, pp_dst = sockaddr d dp,
      pp_header_len = 16 + length (octets s @ octets d @ to_be_bytes sp @ to_be_bytes dp)\<rparr>)"
proof (cases s)
  case (V4 a b c e)
  then obtain f g h i where d: "d = V4 f g h i"
    using assms by (cases d) (auto simp: LOCALHOST_V4_def)
  show ?thesis
    unfolding parse_v2_def Let_def v2_frame_nth length_v2_frame
    by (simp add: V4 d v2_family_def to_be_bytes_def be_roundtrip)
next
  case (V6 os)
  then obtain ds where d: "d = V6 ds" using assms by (cases d) (auto simp: LOCALHOST_V6_def)
  have len: "length os = 16" "length ds = 16" using assms V6 d by simp_all
  then show ?thesis
    unfolding parse_v2_def Let_def v2_frame_nth length_v2_frame
    by (simp add: V6 d v2_family_def to_be_bytes_def be_roundtrip nth_append)
qed

lemma announced_ip_idem: "announced_ip s (announced_ip s d) = announced_ip s d"
  by (cases s; cases d) (simp_all add: LOCALHOST_V4_def LOCALHOST_V6_def)

lemma wf_announced_ip: "wf_ip d \<Longrightarrow> wf_ip (announced_ip s d)"
  by (cases s; cases d) (simp_all add: LOCALHOST_V4_def LOCALHOST_V6_def)

section \<open>Version 1\<close>

text \<open>Text of printable characters without white space.\<close>

definition plain :: "char \<Rightarrow> bool" where
  "plain c \<longleftrightarrow> 33 \<le> (of_char c :: nat) \<and> (of_char c :: nat) \<le> 126"

lemma plain_not_ws:
  assumes "plain c"
  shows "ws_len (c # s) = 0"
proof -
  have "\<not> ws1 c" "\<not> ws2 c d" "\<not> ws3 c d e" for d e
    using assms by (auto simp: plain_def ws1_def ws2_def ws3_def)
  then show ?thesis by (cases "c # s" rule: ws_len.cases) simp_all
qed

lemma split_ws_Nil: "split_ws_acc acc [] = (if acc = [] then [] else [acc])"
  by (simp add: split_ws_acc.simps)

lemma split_ws_token:
  "list_all plain w \<Longrightarrow> split_ws_acc acc (w @ r) = split_ws_acc (acc @ w) r"
proof (induction w arbitrary: acc)
  case Nil
  show ?case by simp
next
  case (Cons c w)
  then have "split_ws_acc acc (c # w @ r) = split_ws_acc (acc @ [c]) (w @ r)"
    by (subst split_ws_acc.simps) (simp add: plain_not_ws)
  with Cons show ?case by simp
qed

lemma split_ws_space: "acc \<noteq> [] \<Longrightarrow> split_ws_acc acc (CHR '' '' # r) = acc # split_ws_acc [] r"
proof -
  have "ws_len (CHR '' '' # r) = 1" by (cases "CHR '' '' # r" rule: ws_len.cases) (auto simp: ws1_def)
  then show "acc \<noteq> [] \<Longrightarrow> ?thesis" by (subst split_ws_acc.simps) simp
qed

lemma split_whitespace_join:
  "list_all (\<lambda>w. w \<noteq> [] \<and> list_all plain w) ws \<Longrightarrow> split_whitespace (join_with '' '' ws) = ws"
proof (induction "'' ''" ws rule: join_with.induct)
  case 1
  show ?case by (simp add: split_whitespace_def split_ws_Nil)
next
  case (2 s)
  then show ?case
    using split_ws_token [of s "[]" "[]"] by (simp add: split_whitespace_def split_ws_Nil)
next
  case (3 s t ss)
  then show ?case
    using split_ws_token [of s "[]" "CHR '' '' # join_with '' '' (t # ss)"]
    by (simp add: split_whitespace_def split_ws_space)
qed

lemma digit_plain: "is_digit c \<Longrightarrow> plain c" "is_digit c \<Longrightarrow> c \<noteq> CHR ''.''"
  by (auto simp: is_digit_def plain_def)

lemma nat_to_string_plain: "list_all plain (nat_to_string n)"
  using nat_to_string_digits [of n] by (auto simp: list_all_iff digit_plain)

lemma nat_to_string_no_dot: "CHR ''.'' \<notin> set (nat_to_string n)"
  using nat_to_string_digits [of n] by (auto simp: list_all_iff is_digit_def)

lemma nat_to_string_small:
  "n < 10 \<Longrightarrow> length (nat_to_string n) = 1"
  "10 \<le> n \<Longrightarrow> n < 1000 \<Longrightarrow> length (nat_to_string n) \<le> 3 \<and> hd (nat_to_string n) \<noteq> CHR ''0''"
proof -
  show "n < 10 \<Longrightarrow> length (nat_to_string n) = 1" by (simp add: nat_to_string_eval)
  have nz: "digit_char d \<noteq> CHR ''0''" if "0 < d" "d < 10" for d
    using that of_char_digit_char [of d] by auto
  assume n: "10 \<le> n" "n < 1000"
  show "length (nat_to_string n) \<le> 3 \<and> hd (nat_to_string n) \<noteq> CHR ''0''"
  proof (cases "n < 100")
    case True
    then have "nat_to_string n = [digit_char (n div 10), digit_char (n mod 10)]"
      using n by (simp add: nat_to_string_eval)
    with n True nz [of "n div 10"] show ?thesis by simp
  next
    case False
    then have "nat_to_string n = [digit_char (n div 10 div 10), digit_char (n div 10 mod 10), digit_char (n mod 10)]"
      using n by (simp add: nat_to_string_eval)
    moreover have "0 < n div 10 div 10" "n div 10 div 10 < 10" using n False by simp_all
    ultimately show ?thesis using nz by simp
  qed
qed

lemma parse_octet_show: "parse_octet (u8_to_string b) = Some b"
proof -
  have b: "unat b < 256" using unsigned_less [of b, where ?'a = nat] by simp
  have "length (nat_to_string (unat b)) \<le> 3 \<and>
      (length (nat_to_string (unat b)) = 1 \<or> hd (nat_to_string (unat b)) \<noteq> CHR ''0'')"
    using nat_to_string_small [of "unat b"] b by (cases "unat b < 10") auto
  with b show ?thesis by (simp add: parse_octet_def u8_to_string_def nat_to_string_digits)
qed

lemma parse_v4_show: "parse_v4 (show_v4 a b c d) = Some (V4 a b c d)"
proof -
  have s: "split_once (CHR ''.'') (u8_to_string x @ CHR ''.'' # r) = Some (u8_to_string x, r)" for x r
    by (simp add: split_once_Some u8_to_string_def nat_to_string_no_dot)
  show ?thesis by (simp add: parse_v4_def show_v4_def s parse_octet_show)
qed

lemma show_v4_plain: "list_all plain (show_v4 a b c d)" "show_v4 a b c d \<noteq> []"
  by (simp_all add: show_v4_def u8_to_string_def nat_to_string_plain plain_def)

lemma as_str_as_bytes [simp]: "as_str (as_bytes s) = s"
proof -
  have "char_of (unat (of_nat (of_char c) :: u8)) = c" for c
    using of_char_less_256 [of c] by (simp add: unat_of_nat)
  then show ?thesis by (simp add: as_str_def as_bytes_def comp_def)
qed

lemma as_str_append: "as_str (a @ b) = as_str a @ as_str b"
  by (simp add: as_str_def)

lemma find_crlf:
  "CHR 0x0D \<notin> set s \<Longrightarrow> find_str [CHR 0x0D, CHR 0x0A] (s @ CHR 0x0D # CHR 0x0A # r) = Some (length s)"
  by (induction s) auto

lemma ascii_utf8: "list_all (\<lambda>c. plain c \<or> c = CHR '' '') s \<Longrightarrow> utf8_valid s"
proof (induction s)
  case (Cons c s)
  then have "lead_len c = 1" by (auto simp: lead_len_def byte_in_def plain_def)
  then have "utf8_chunk (c # s) = (True, 1)" by (simp add: utf8_chunk_def)
  with Cons show ?case by (subst utf8_valid.simps) simp
qed simp

text \<open>The words of a version 1 header for two IPv4 addresses.\<close>

definition v1_words :: "IpAddr \<Rightarrow> IpAddr \<Rightarrow> u16 \<Rightarrow> u16 \<Rightarrow> string list" where
  "v1_words s d sp dp =
     (case (s, d) of
        (V4 a b c e, V4 f g h i) \<Rightarrow>
          [''PROXY'', ''TCP4'', show_v4 a b c e, show_v4 f g h i, nat_to_string (unat sp), nat_to_string (unat dp)]
      | _ \<Rightarrow> [])"

lemma parse_v1_words:
  assumes "find_str [CHR 0x0D, CHR 0x0A] (as_str buf) = Some n" and "take n (as_str buf) = line"
    and "utf8_valid line" and "split_whitespace line = [w, w', x, y, p, q]" and "w' \<noteq> ''UNKNOWN''"
    and "parse_ip t x = Some s" and "parse_ip t y = Some d" and "parse_u16 p = Some sp" and "parse_u16 q = Some dp"
  shows "parse_v1 t buf = Inr (Done \<lparr>pp_src = sockaddr s sp, pp_dst = sockaddr d dp, pp_header_len = n + 2\<rparr>)"
  using assms by (simp add: parse_v1_def Let_def)

lemma parse_v1_line:
  assumes "s = V4 a b c e" and "d = V4 f g h i"
  shows "parse_v1 t (as_bytes (join_with '' '' (v1_words s d sp dp) @ [CHR 0x0D, CHR 0x0A]) @ rest) =
    Inr (Done \<lparr>pp_src = sockaddr s sp, pp_dst = sockaddr d dp,
      pp_header_len = length (join_with '' '' (v1_words s d sp dp)) + 2\<rparr>)"
proof -
  let ?ws = "v1_words s d sp dp"
  let ?line = "join_with '' '' ?ws"
  have words: "list_all (\<lambda>w. w \<noteq> [] \<and> list_all plain w) ?ws"
    by (simp add: v1_words_def assms show_v4_plain nat_to_string_plain) (simp add: plain_def)
  have join: "list_all (\<lambda>c. plain c \<or> c = CHR '' '') (join_with '' '' ws)"
    if "list_all (\<lambda>w. w \<noteq> [] \<and> list_all plain w) ws" for ws
    using that by (induction "'' ''" ws rule: join_with.induct) (auto simp: list_all_iff)
  have chars: "list_all (\<lambda>c. plain c \<or> c = CHR '' '') ?line" by (rule join [OF words])
  then have "CHR 0x0D \<notin> set ?line" by (auto simp: list_all_iff plain_def)
  from find_crlf [OF this, of "as_str rest"]
  have find: "find_str [CHR 0x0D, CHR 0x0A] (as_str (as_bytes (?line @ [CHR 0x0D, CHR 0x0A]) @ rest)) =
      Some (length ?line)"
    by (simp add: as_str_append)
  have line: "take (length ?line) (as_str (as_bytes (?line @ [CHR 0x0D, CHR 0x0A]) @ rest)) = ?line"
    by (simp add: as_str_append)
  have port: "parse_u16 (nat_to_string (unat p)) = Some p" for p :: u16
    using unsigned_less [of p, where ?'a = nat] by simp
  have "split_whitespace ?line = [''PROXY'', ''TCP4'', show_v4 a b c e, show_v4 f g h i,
      nat_to_string (unat sp), nat_to_string (unat dp)]"
    using split_whitespace_join [OF words] by (simp add: v1_words_def assms)
  then show ?thesis
    by (rule parse_v1_words [OF find line ascii_utf8 [OF chars]])
      (simp_all add: assms parse_ip_def parse_v4_show port)
qed

section \<open>Properties\<close>

text \<open>C26. Version 2 of the PROXY protocol round trips and is parsed incrementally: from a stream that
  starts with a built header the parser takes exactly this header and returns its addresses, and
  on every shorter prefix it asks for more bytes, without an error and without deciding that there
  is no header. When the two addresses are of different families, the destination read back is the
  loopback address.\<close>

theorem proxy_v2_roundtrip:
  assumes "wf_ip (sa_ip src)" and "wf_ip (sa_ip dst)"
  shows "try_consume_proxy_protocol t (build_v2 src dst @ rest) =
      Inr (Done \<lparr>pp_src = sockaddr (sa_ip src) (sa_port src),
        pp_dst = sockaddr (announced_ip (sa_ip src) (sa_ip dst)) (sa_port dst),
        pp_header_len = length (build_v2 src dst)\<rparr>) \<and>
    (\<forall>n < length (build_v2 src dst). try_consume_proxy_protocol t (take n (build_v2 src dst)) = Inr Incomplete)"
proof -
  let ?d = "announced_ip (sa_ip src) (sa_ip dst)"
  let ?body = "octets (sa_ip src) @ octets ?d @ to_be_bytes (sa_port src) @ to_be_bytes (sa_port dst)"
  have len: "length ?body = unat (snd (v2_family (sa_ip src)))"
    using assms by (cases "sa_ip src"; cases "sa_ip dst")
      (auto simp: v2_family_def LOCALHOST_V4_def LOCALHOST_V6_def)
  show ?thesis
    using parse_v2_block [OF assms(1) wf_announced_ip [OF assms(2)] announced_ip_idem,
        where sp = "sa_port src" and dp = "sa_port dst" and rest = rest]
      v2_frame_incomplete [OF len]
    by (simp only: build_v2_frame v2_frame_append consume_v2_frame length_v2_frame) simp
qed

theorem proxy_v2_roundtrip_witness:
  "try_consume_proxy_protocol \<lparr>show6 = (\<lambda>_. []), parse6 = (\<lambda>_. None)\<rparr>
      (build_v2 (sockaddr (V4 1 2 3 4) 5) (sockaddr LOCALHOST_V6 80) @ [0]) =
    Inr (Done \<lparr>pp_src = sockaddr (V4 1 2 3 4) 5, pp_dst = sockaddr LOCALHOST_V4 80,
      pp_header_len = length (build_v2 (sockaddr (V4 1 2 3 4) 5) (sockaddr LOCALHOST_V6 80))\<rparr>)"
  using proxy_v2_roundtrip [of "sockaddr (V4 1 2 3 4) 5" "sockaddr LOCALHOST_V6 80"
      "\<lparr>show6 = (\<lambda>_. []), parse6 = (\<lambda>_. None)\<rparr>" "[0]"]
  by (simp add: LOCALHOST_V6_def)

text \<open>C27. Version 1 of the PROXY protocol round trips for IPv4: the text line built for two addresses is
  read back as these addresses, whatever follows it on the stream.\<close>

theorem proxy_v1_roundtrip:
  assumes "sa_ip src = V4 a b c d" and "sa_ip dst = V4 e f g h"
  shows "try_consume_proxy_protocol t (build_v1 t' src dst @ rest) =
    Inr (Done \<lparr>pp_src = sockaddr (sa_ip src) (sa_port src), pp_dst = sockaddr (sa_ip dst) (sa_port dst),
      pp_header_len = length (build_v1 t' src dst)\<rparr>)"
proof -
  let ?line = "join_with '' '' (v1_words (sa_ip src) (sa_ip dst) (sa_port src) (sa_port dst)) @ [CHR 0x0D, CHR 0x0A]"
  have build: "build_v1 t' src dst = as_bytes ?line"
    by (simp add: build_v1_def v1_words_def assms)
  moreover have "prefix (as_bytes ''PROXY '') (as_bytes ?line @ rest)" "hd (as_bytes ?line @ rest) = 0x50"
    by (simp_all add: v1_words_def assms as_bytes_def)
  moreover have "6 \<le> length (as_bytes ?line @ rest)" "length (as_bytes s) = length s" for s
    by (simp_all add: v1_words_def assms as_bytes_def)
  ultimately show ?thesis
    using parse_v1_line [OF assms, of t "sa_port src" "sa_port dst" rest]
    by (simp add: try_consume_proxy_protocol_def) (auto simp: as_bytes_def)
qed

theorem proxy_v1_roundtrip_witness:
  "try_consume_proxy_protocol \<lparr>show6 = (\<lambda>_. []), parse6 = (\<lambda>_. None)\<rparr>
      (build_v1 \<lparr>show6 = (\<lambda>_. []), parse6 = (\<lambda>_. None)\<rparr> (sockaddr (V4 1 2 3 4) 5) (sockaddr LOCALHOST_V4 80) @ [0]) =
    Inr (Done \<lparr>pp_src = sockaddr (V4 1 2 3 4) 5, pp_dst = sockaddr (V4 127 0 0 1) 80,
      pp_header_len = length (build_v1 \<lparr>show6 = (\<lambda>_. []), parse6 = (\<lambda>_. None)\<rparr>
        (sockaddr (V4 1 2 3 4) 5) (sockaddr LOCALHOST_V4 80))\<rparr>)"
  using proxy_v1_roundtrip [where src = "sockaddr (V4 1 2 3 4) 5" and dst = "sockaddr LOCALHOST_V4 80" and
      t = "\<lparr>show6 = (\<lambda>_. []), parse6 = (\<lambda>_. None)\<rparr>" and t' = "\<lparr>show6 = (\<lambda>_. []), parse6 = (\<lambda>_. None)\<rparr>" and
      rest = "[0]" and a = 1 and b = 2 and c = 3 and d = 4 and e = 127 and f = 0 and g = 0 and h = 1]
  by (simp add: LOCALHOST_V4_def)

end
