(* ===== verification/Agent_Registry.thy ===== *)
theory Agent_Registry
  imports Rust_Utf8
begin

text \<open>
  The registry of client agents (\<open>server/src/service/agent_registry.rs\<close>): one entry per user and
  agent, and the entry each control session holds. Both maps are locked for the whole of an
  operation, so every operation is one step. The clock is an argument.
\<close>

definition MAX_AGENT_ID_LEN :: nat where "MAX_AGENT_ID_LEN = 64"

definition MAX_SESSION_ID_LEN :: nat where "MAX_SESSION_ID_LEN = 64"

definition MAX_USER_LEN :: nat where "MAX_USER_LEN = 64"

record AgentEntry =
  ae_user :: string
  ae_agent_id :: string
  ae_session_id :: string
  ae_generation :: u64
  ae_hostname :: string
  ae_os :: string
  ae_arch :: string
  ae_client_ip :: string
  ae_version :: string
  ae_tunnel_count :: nat
  ae_online :: bool
  ae_disconnected_at :: "nat option"

record AgentOnlineSpec =
  ao_user :: string
  ao_agent_id :: string
  ao_session_id :: string
  ao_generation :: u64
  ao_hostname :: string
  ao_os :: string
  ao_arch :: string
  ao_client_ip :: string
  ao_version :: string

datatype AgentRegisterError = Conflict

record AgentRegistry =
  by_key :: "string \<rightharpoonup> AgentEntry"
  by_session :: "string \<rightharpoonup> string"

definition AgentRegistry_new :: AgentRegistry where
  "AgentRegistry_new = \<lparr>by_key = Map.empty, by_session = Map.empty\<rparr>"

definition set_offline :: "AgentEntry \<Rightarrow> nat \<Rightarrow> nat \<Rightarrow> AgentEntry" where
  "set_offline entry now tunnel_count =
     entry\<lparr>ae_generation := 0, ae_online := False, ae_tunnel_count := tunnel_count,
           ae_disconnected_at := Some now\<rparr>"

definition compose_key :: "string \<Rightarrow> string \<Rightarrow> string" where
  "compose_key user ident =
     (if user = [] then ident else if ident = [] then user else user @ ''.'' @ ident)"

definition spec_key :: "AgentOnlineSpec \<Rightarrow> string" where
  "spec_key spec =
     compose_key (ao_user spec) (if ao_agent_id spec \<noteq> [] then ao_agent_id spec else ao_session_id spec)"

text \<open>The entry an agent gets when it comes online; the tunnel count of an existing entry is kept.\<close>

definition online_entry :: "AgentOnlineSpec \<Rightarrow> nat \<Rightarrow> AgentEntry" where
  "online_entry spec tunnel_count =
     \<lparr>ae_user = ao_user spec, ae_agent_id = ao_agent_id spec, ae_session_id = ao_session_id spec,
      ae_generation = ao_generation spec, ae_hostname = ao_hostname spec, ae_os = ao_os spec,
      ae_arch = ao_arch spec, ae_client_ip = ao_client_ip spec, ae_version = ao_version spec,
      ae_tunnel_count = tunnel_count, ae_online = True, ae_disconnected_at = None\<rparr>"

text \<open>The session leaves the entry it held before, when that is another one.\<close>

definition leave_previous :: "AgentRegistry \<Rightarrow> string \<Rightarrow> string \<Rightarrow> nat \<Rightarrow> AgentRegistry" where
  "leave_previous r sid key now =
     (case by_session r sid of
        None \<Rightarrow> r
      | Some prev_key \<Rightarrow>
          if prev_key = key then r
          else let keys = (case by_key r prev_key of
                             None \<Rightarrow> by_key r
                           | Some prev \<Rightarrow>
                               if ae_session_id prev = sid
                               then (if ae_agent_id prev = [] then (by_key r)(prev_key := None)
                                     else (by_key r)(prev_key \<mapsto> set_offline prev now (ae_tunnel_count prev)))
                               else by_key r)
               in r\<lparr>by_key := keys, by_session := (by_session r)(sid := None)\<rparr>)"

text \<open>The session takes over the entry of the key.\<close>

definition take_entry :: "AgentRegistry \<Rightarrow> AgentOnlineSpec \<Rightarrow> AgentRegistry" where
  "take_entry r spec =
     (let sid = ao_session_id spec; key = spec_key spec;
          r = (case by_key r key of
                 Some entry \<Rightarrow>
                   r\<lparr>by_session := (if ae_session_id entry \<noteq> [] \<and> ae_session_id entry \<noteq> sid
                                   then (by_session r)(ae_session_id entry := None) else by_session r),
                     by_key := (by_key r)(key \<mapsto> online_entry spec (ae_tunnel_count entry))\<rparr>
               | None \<Rightarrow> r\<lparr>by_key := (by_key r)(key \<mapsto> online_entry spec 0)\<rparr>)
      in r\<lparr>by_session := (by_session r)(sid \<mapsto> key)\<rparr>)"

definition try_online ::
    "AgentRegistry \<Rightarrow> AgentOnlineSpec \<Rightarrow> nat \<Rightarrow> (AgentRegisterError + string) \<times> AgentRegistry" where
  "try_online r spec now =
     (let sid = ao_session_id spec; key = spec_key spec
      in if ao_agent_id spec \<noteq> [] \<and>
            (case by_key r key of
               Some existing \<Rightarrow> ae_online existing \<and> ae_session_id existing \<noteq> [] \<and> ae_session_id existing \<noteq> sid
             | None \<Rightarrow> False)
         then (Inl Conflict, r)
         else (Inr key, take_entry (leave_previous r sid key now) spec))"

definition agent_release :: "AgentRegistry \<Rightarrow> string \<Rightarrow> u64 \<Rightarrow> nat \<Rightarrow> nat \<Rightarrow> AgentRegistry" where
  "agent_release r session_id generation tunnel_count now =
     (case by_session r session_id of
        None \<Rightarrow> r
      | Some key \<Rightarrow>
          (case by_key r key of
             None \<Rightarrow> r\<lparr>by_session := (by_session r)(session_id := None)\<rparr>
           | Some entry \<Rightarrow>
               if ae_session_id entry \<noteq> session_id \<or> ae_generation entry \<noteq> generation then r
               else r\<lparr>by_session := (by_session r)(session_id := None),
                      by_key := (if ae_agent_id entry = [] then (by_key r)(key := None)
                                 else (by_key r)(key \<mapsto> set_offline entry now tunnel_count))\<rparr>))"

text \<open>\<open>sanitize_wire_id\<close>: the control characters of a valid \<open>str\<close> are the C0 bytes, DEL, and the two-byte
  sequences of U+0080 to U+009F.\<close>

fun has_control :: "string \<Rightarrow> bool" where
  "has_control [] = False"
| "has_control [a] = (byte_in 0 31 a \<or> a = CHR 0x7F)"
| "has_control (a # b # s) =
     (byte_in 0 31 a \<or> a = CHR 0x7F \<or> (a = CHR 0xC2 \<and> byte_in 128 159 b) \<or> has_control (b # s))"

datatype wire_error = TooLong | ControlCharacters

definition sanitize_wire_id :: "string \<Rightarrow> nat \<Rightarrow> wire_error + string" where
  "sanitize_wire_id raw max_len =
     (let s = trim raw
      in if s = [] then Inr []
         else if max_len < length s then Inl TooLong
         else if has_control s then Inl ControlCharacters
         else Inr s)"

section \<open>The invariant\<close>

text \<open>A session that holds an entry is the session of that entry, and the entry is online.\<close>

definition linked :: "AgentRegistry \<Rightarrow> bool" where
  "linked r \<longleftrightarrow>
     (\<forall>s k. by_session r s = Some k \<longrightarrow>
       (\<exists>e. by_key r k = Some e \<and> ae_session_id e = s \<and> ae_online e))"

lemma linkedD:
  "linked r \<Longrightarrow> by_session r s = Some k \<Longrightarrow> \<exists>e. by_key r k = Some e \<and> ae_session_id e = s \<and> ae_online e"
  by (simp add: linked_def)

lemma linked_new: "linked AgentRegistry_new"
  by (simp add: linked_def AgentRegistry_new_def)

lemma linked_leave_previous:
  assumes "linked r"
  shows "linked (leave_previous r sid key now)"
proof (cases "by_session r sid")
  case None
  with assms show ?thesis by (simp add: leave_previous_def)
next
  case (Some prev_key)
  then obtain prev where prev: "by_key r prev_key = Some prev" "ae_session_id prev = sid"
    using linkedD [OF assms] by blast
  have other: "k \<noteq> prev_key" if "by_session r s = Some k" "s \<noteq> sid" for s k
    using linkedD [OF assms that(1)] prev that(2) by auto
  show ?thesis
    using assms Some prev other by (auto simp: leave_previous_def linked_def Let_def)
qed

lemma leave_previous_session:
  "by_session (leave_previous r sid key now) sid = Some k \<Longrightarrow> k = key"
  by (auto simp: leave_previous_def Let_def split: option.splits if_splits)

definition named_sessions :: "AgentRegistry \<Rightarrow> bool" where
  "named_sessions r \<longleftrightarrow> (\<forall>k e. by_key r k = Some e \<longrightarrow> ae_session_id e \<noteq> [])"

lemma linked_take_entry:
  assumes "linked r" and "named_sessions r"
  shows "linked (take_entry r spec)"
proof (cases "by_key r (spec_key spec)")
  case None
  then have "by_session r s \<noteq> Some (spec_key spec)" for s
    using linkedD [OF assms(1), of s "spec_key spec"] by auto
  with None assms(1) show ?thesis
    by (auto simp: take_entry_def Let_def linked_def online_entry_def)
next
  case (Some e)
  have "s = ae_session_id e" if "by_session r s = Some (spec_key spec)" for s
    using linkedD [OF assms(1) that] Some by simp
  with Some assms show ?thesis
    by (auto simp: take_entry_def Let_def linked_def named_sessions_def online_entry_def)
qed

lemma named_leave_previous: "named_sessions r \<Longrightarrow> named_sessions (leave_previous r sid key now)"
  by (auto simp: named_sessions_def leave_previous_def set_offline_def Let_def split: option.splits if_splits)

lemma named_take_entry:
  "named_sessions r \<Longrightarrow> ao_session_id spec \<noteq> [] \<Longrightarrow> named_sessions (take_entry r spec)"
  by (auto simp: named_sessions_def take_entry_def online_entry_def Let_def split: option.splits if_splits)

lemma try_online_cases:
  "snd (try_online r spec now) = r \<or>
   snd (try_online r spec now) = take_entry (leave_previous r (ao_session_id spec) (spec_key spec) now) spec"
  by (simp add: try_online_def Let_def)

lemma linked_release:
  assumes "linked r"
  shows "linked (agent_release r sid gen n now)"
proof (cases "by_session r sid")
  case None
  with assms show ?thesis by (simp add: agent_release_def)
next
  case (Some k)
  then obtain e where e: "by_key r k = Some e" "ae_session_id e = sid" using linkedD [OF assms] by blast
  have other: "k' \<noteq> k" if "by_session r s = Some k'" "s \<noteq> sid" for s k'
    using linkedD [OF assms that(1)] e that(2) by auto
  show ?thesis using assms Some e other by (auto simp: agent_release_def linked_def)
qed

lemma named_release: "named_sessions r \<Longrightarrow> named_sessions (agent_release r sid gen n now)"
  by (auto simp: named_sessions_def agent_release_def set_offline_def split: option.splits if_splits)

section \<open>Runs of the registry\<close>

datatype agent_op = Online AgentOnlineSpec nat | Offline string u64 nat nat

fun agent_step :: "AgentRegistry \<Rightarrow> agent_op \<Rightarrow> (AgentRegisterError + string) \<times> AgentRegistry" where
  "agent_step r (Online spec now) = try_online r spec now"
| "agent_step r (Offline sid gen n now) = (Inr [], agent_release r sid gen n now)"

fun op_named :: "agent_op \<Rightarrow> bool" where
  "op_named (Online spec now) = (ao_session_id spec \<noteq> [])"
| "op_named (Offline sid gen n now) = True"

lemma agent_step_inv:
  assumes "linked r \<and> named_sessions r" and "op_named ev"
  shows "linked (snd (agent_step r ev)) \<and> named_sessions (snd (agent_step r ev))"
proof (cases ev)
  case (Online spec now)
  with assms try_online_cases [of r spec now] show ?thesis
    by (auto simp: linked_take_entry linked_leave_previous named_leave_previous named_take_entry)
next
  case (Offline sid gen n now)
  with assms show ?thesis by (simp add: linked_release named_release)
qed

section \<open>Properties\<close>

text \<open>C23. One session per agent: in every state that logins and releases produce, with the non-empty
  session ids the server uses, a session that holds an entry is the live session of exactly this
  entry, and no two sessions hold one entry. A login of a named agent that is online under another
  session is refused and changes nothing.\<close>

theorem one_session_per_agent:
  assumes "list_all op_named evs" and "r = snd (run_ops agent_step AgentRegistry_new evs)"
  shows "(\<forall>s k. by_session r s = Some k \<longrightarrow>
      (\<exists>e. by_key r k = Some e \<and> ae_session_id e = s \<and> ae_online e)) \<and>
    (\<forall>s s' k. by_session r s = Some k \<and> by_session r s' = Some k \<longrightarrow> s = s') \<and>
    (\<forall>s spec now. by_session r s = Some (spec_key spec) \<and> ao_agent_id spec \<noteq> [] \<and> ao_session_id spec \<noteq> s \<longrightarrow>
      try_online r spec now = (Inl Conflict, r))"
proof -
  have inv: "linked r \<and> named_sessions r"
    unfolding assms(2)
  proof (rule run_ops_invariant)
    show "linked AgentRegistry_new \<and> named_sessions AgentRegistry_new"
      by (simp add: linked_def named_sessions_def AgentRegistry_new_def)
  qed (use assms(1) agent_step_inv in \<open>auto simp: list_all_iff\<close>)
  then have l: "linked r" and ne: "named_sessions r" by simp_all
  have same: "s = s'" if "by_session r s = Some k" "by_session r s' = Some k" for s s' k
    using linkedD [OF l that(1)] linkedD [OF l that(2)] by auto
  have refused: "try_online r spec now = (Inl Conflict, r)"
    if "by_session r s = Some (spec_key spec)" "ao_agent_id spec \<noteq> []" "ao_session_id spec \<noteq> s" for s spec now
    using linkedD [OF l that(1)] ne that(2,3) by (auto simp: try_online_def Let_def named_sessions_def)
  show ?thesis using l same refused by (auto simp: linked_def)
qed

text \<open>A login for the concrete instances below.\<close>

definition demo_spec :: "string \<Rightarrow> string \<Rightarrow> string \<Rightarrow> u64 \<Rightarrow> AgentOnlineSpec" where
  "demo_spec user agent sid gen =
     \<lparr>ao_user = user, ao_agent_id = agent, ao_session_id = sid, ao_generation = gen, ao_hostname = [],
      ao_os = [], ao_arch = [], ao_client_ip = [], ao_version = []\<rparr>"

theorem one_session_per_agent_witness:
  "try_online (snd (run_ops agent_step AgentRegistry_new [Online (demo_spec [] ''a'' ''s'' 1) 0]))
      (demo_spec [] ''a'' ''t'' 2) 1 =
    (Inl Conflict, snd (run_ops agent_step AgentRegistry_new [Online (demo_spec [] ''a'' ''s'' 1) 0]))"
proof -
  let ?r = "snd (run_ops agent_step AgentRegistry_new [Online (demo_spec [] ''a'' ''s'' 1) 0])"
  have "by_session ?r ''s'' = Some (spec_key (demo_spec [] ''a'' ''t'' 2))"
    by (simp add: try_online_def take_entry_def leave_previous_def AgentRegistry_new_def spec_key_def
        compose_key_def demo_spec_def Let_def)
  moreover have "ao_agent_id (demo_spec [] ''a'' ''t'' 2) \<noteq> []" "ao_session_id (demo_spec [] ''a'' ''t'' 2) \<noteq> ''s''"
    "list_all op_named [Online (demo_spec [] ''a'' ''s'' 1) 0]"
    by (simp_all add: demo_spec_def)
  ultimately show ?thesis
    using one_session_per_agent [OF _ refl, of "[Online (demo_spec [] ''a'' ''s'' 1) 0]"] by blast
qed



text \<open>A login without an agent id skips the conflict check: one whose session id is the id of an agent
  without a user takes that agent's entry from the live session that holds it, and the session's own
  release no longer finds it.\<close>

lemma anonymous_login_takes_entry:
  assumes held: "linked r" "named_sessions r" "by_session r s = Some a"
    and "a \<noteq> []" and "s \<noteq> a" and free: "by_session r a = None"
    and "r' = snd (try_online r (demo_spec [] [] a g) now)"
  shows "fst (try_online r (demo_spec [] [] a g) now) = Inr a \<and>
    map_option ae_session_id (by_key r' a) = Some a \<and> by_session r' a = Some a \<and> by_session r' s = None"
proof -
  obtain e where e: "by_key r a = Some e" "ae_session_id e = s" using linkedD [OF held(1,3)] by blast
  then have "s \<noteq> []" using held(2) by (auto simp: named_sessions_def)
  with assms e show ?thesis
    by (simp add: try_online_def take_entry_def leave_previous_def spec_key_def compose_key_def
        demo_spec_def online_entry_def Let_def)
qed

text \<open>The key of an agent is ambiguous when a user or an agent id contains a dot.\<close>

lemma compose_key_ambiguous: "compose_key ''a'' ''b.c'' = compose_key ''a.b'' ''c''"
  by (simp add: compose_key_def)

end
