(* ===== verification/Bandwidth.thy ===== *)
theory Bandwidth
  imports Config_Client "HOL-Library.Log_Nat"
begin

unbundle bit_operations_syntax

text \<open>
  Bandwidth limits (\<open>core/src/limit/quantity.rs\<close>, \<open>core/src/limit/mod.rs\<close>): the conversion of a limit in
  Mbps, an IEEE double, to bytes per second, and the choice of the side that enforces it. The
  arithmetic on doubles is written out: a finite double is a rational number, and every operation
  rounds its exact result to the nearest double, ties to even.
\<close>

section \<open>Doubles\<close>

text \<open>The magnitude of a finite double.\<close>

definition f64_rat :: "f64 \<Rightarrow> rat" where
  "f64_rat x =
     (let e = unat (drop_bit 52 x AND 0x7FF); m = unat (x AND 0xFFFFFFFFFFFFF)
      in if e = 0 then of_nat m / 2 ^ 1074
         else of_nat (2 ^ 52 + m) * 2 powi (int e - 1075))"

text \<open>The exponent of the leading binary digit of a positive rational.\<close>

definition log2_floor :: "rat \<Rightarrow> int" where
  "log2_floor q =
     (let (n, d) = quotient_of q;
          l = int (floorlog 2 (nat n)) - int (floorlog 2 (nat d))
      in if 2 powi l \<le> q then l else l - 1)"

definition round_half_even :: "rat \<Rightarrow> int" where
  "round_half_even q =
     (let f = \<lfloor>q\<rfloor>; r = q - of_int f
      in if r < 1 / 2 then f else if 1 / 2 < r then f + 1 else if even f then f else f + 1)"

text \<open>The double nearest to a rational that is not negative, for results below the overflow limit.\<close>

definition f64_round :: "rat \<Rightarrow> rat" where
  "f64_round q =
     (if q \<le> 0 then 0
      else let u = 2 powi (max (log2_floor q - 52) (- 1074))
           in of_int (round_half_even (q / u)) * u)"

definition f64_overflow :: rat where "f64_overflow = 2 ^ 1024"

section \<open>Quantities\<close>

text \<open>\<open>(mbps * 1_000_000.0 / 8.0).round() as u64\<close>: an infinite product saturates, \<open>round\<close> takes halves
  away from zero, and the conversion saturates.\<close>

definition mbps_to_bytes_per_sec :: "f64 \<Rightarrow> u64" where
  "mbps_to_bytes_per_sec mbps =
     (if f64_is_negative mbps \<or> \<not> f64_is_finite mbps \<or> f64_rat mbps = 0 then 0
      else let p = f64_round (f64_rat mbps * 1000000)
           in if f64_overflow \<le> p then - 1
              else of_int (min \<lfloor>f64_round (p / 8) + 1 / 2\<rfloor> (2 ^ 64 - 1)))"

datatype BandwidthLimitSide = Client | Server

definition BandwidthLimitSide_parse :: "string \<Rightarrow> BandwidthLimitSide" where
  "BandwidthLimitSide_parse s = (if eq_ignore_ascii_case (trim s) ''server'' then Server else Client)"

fun BandwidthLimitSide_as_str :: "BandwidthLimitSide \<Rightarrow> string" where
  "BandwidthLimitSide_as_str Client = ''client''"
| "BandwidthLimitSide_as_str Server = ''server''"

text \<open>A limiter is named by the rate it is created with; its token bucket is not part of this theory.\<close>

type_synonym BandwidthLimiter = u64

definition BandwidthLimiter_new :: "u64 \<Rightarrow> BandwidthLimiter" where
  "BandwidthLimiter_new bytes_per_sec = max bytes_per_sec 1"

definition limiter_if_side :: "f64 \<Rightarrow> string \<Rightarrow> BandwidthLimitSide \<Rightarrow> BandwidthLimiter option" where
  "limiter_if_side bandwidth_mbps bandwidth_limit_side want =
     (let bytes = mbps_to_bytes_per_sec bandwidth_mbps
      in if bytes = 0 then None
         else if BandwidthLimitSide_parse bandwidth_limit_side \<noteq> want then None
         else Some (BandwidthLimiter_new bytes))"

section \<open>Facts about rounding\<close>

lemma round_half_even_int [simp]: "round_half_even (of_int k) = k"
  by (simp add: round_half_even_def)

lemma power_int_add_nat: "(2::rat) powi (int a - int b) = 2 ^ a / 2 ^ b"
  by (simp add: power_int_diff)

lemma floorlog_bounds_rat:
  assumes "0 < n"
  shows "(2::rat) ^ (floorlog 2 n - 1) \<le> of_nat n" and "of_nat n < (2::rat) ^ floorlog 2 n"
proof -
  have "2 ^ (floorlog 2 n - 1) \<le> n" "n < 2 ^ floorlog 2 n" using floorlog_bounds [of n 2] assms by auto
  then show "(2::rat) ^ (floorlog 2 n - 1) \<le> of_nat n" "of_nat n < (2::rat) ^ floorlog 2 n"
    by (metis of_nat_le_iff of_nat_numeral of_nat_power, metis of_nat_less_iff of_nat_numeral of_nat_power)
qed

lemma log2_floor_nat:
  assumes "0 < n" and "n < 2 ^ k"
  shows "log2_floor (of_nat n) < int k"
proof -
  have q: "quotient_of (of_nat n) = (int n, 1)"
    using quotient_of_int [of "int n"] by (simp add: Rat.of_int_def)
  have "floorlog 2 n \<le> k" using assms(2) by (simp add: floorlog_leI)
  moreover have "floorlog 2 (1::nat) = 1" by (simp add: compute_floorlog)
  moreover have "0 < floorlog 2 n" using assms(1) by (simp add: floorlog_def)
  ultimately show ?thesis by (simp add: log2_floor_def q Let_def)
qed

text \<open>Integers below \<open>2 ^ 53\<close> are doubles.\<close>

lemma f64_round_nat:
  assumes "n < 2 ^ 53"
  shows "f64_round (of_nat n) = of_nat n"
proof (cases "n = 0")
  case True
  then show ?thesis by (simp add: f64_round_def)
next
  case False
  define e where "e = max (log2_floor (of_nat n) - 52) (- 1074)"
  have "e \<le> 0" using log2_floor_nat [of n 53] False assms by (simp add: e_def)
  then obtain j where j: "e = - int j" by (metis neg_equal_iff_equal neg_0_le_iff_le nonneg_int_cases minus_minus)
  have "of_nat n / (2::rat) powi e = of_int (int n * 2 ^ j)"
    by (simp add: j power_int_minus divide_simps)
  then have "of_int (round_half_even (of_nat n / 2 powi e)) * (2::rat) powi e = of_nat n"
    by (simp add: j power_int_minus divide_simps del: of_int_mult)
  with False show ?thesis by (simp add: f64_round_def e_def Let_def)
qed

lemma mbps_integral:
  assumes "f64_is_finite mbps" and "\<not> f64_is_negative mbps" and "f64_rat mbps = of_nat n"
    and "n * 1000000 < 2 ^ 53"
  shows "mbps_to_bytes_per_sec mbps = of_nat (125000 * n)"
proof (cases "n = 0")
  case True
  with assms show ?thesis by (simp add: mbps_to_bytes_per_sec_def)
next
  case False
  have "f64_round (f64_rat mbps * 1000000) = of_nat (1000000 * n)"
    using f64_round_nat [OF assms(4)] assms(3) by (simp add: mult.commute)
  moreover have "f64_round (of_nat (1000000 * n) / 8) = of_nat (125000 * n)"
    using f64_round_nat [of "125000 * n"] assms(4) by simp
  moreover have "of_nat (1000000 * n) < f64_overflow"
  proof -
    have "of_nat (1000000 * n) < (of_nat (2 ^ 53) :: rat)" using assms(4) by (simp only: of_nat_less_iff mult.commute)
    also have "\<dots> \<le> 2 ^ 1024" by simp
    finally show ?thesis by (simp add: f64_overflow_def)
  qed
  moreover have "\<lfloor>of_nat (125000 * n) + 1 / (2::rat)\<rfloor> = int (125000 * n)" by linarith
  moreover have "int (125000 * n) \<le> 2 ^ 64 - 1" using assms(4) by simp
  ultimately show ?thesis
    using assms(1-3) False by (simp add: mbps_to_bytes_per_sec_def Let_def)
qed

section \<open>Properties\<close>

text \<open>C32. An integral bandwidth of \<open>n\<close> Mbps is enforced as exactly \<open>125000 * n\<close> bytes per second, by
  the side it names and by no other; zero means no limit. This holds for every \<open>n\<close> for which the
  product in bits is a double.\<close>

theorem limiter_exact:
  assumes "f64_is_finite mbps" and "\<not> f64_is_negative mbps" and "f64_rat mbps = of_nat n"
    and "n * 1000000 < 2 ^ 53"
  shows "limiter_if_side mbps side want =
    (if n \<noteq> 0 \<and> BandwidthLimitSide_parse side = want then Some (of_nat (125000 * n)) else None)"
proof -
  have "(of_nat (125000 * n) :: u64) = 0 \<longleftrightarrow> n = 0"
  proof
    assume "(of_nat (125000 * n) :: u64) = 0"
    then have "2 ^ 64 dvd 125000 * n" by (simp add: word_of_nat_eq_0_iff del: of_nat_mult)
    then have "125000 * n = 0 \<or> 2 ^ 64 \<le> 125000 * n" using dvd_imp_le by blast
    with assms(4) show "n = 0" by simp
  qed simp
  moreover have "max x 1 = x" if "x \<noteq> 0" for x :: u64 using that
    by (auto simp: max_def word_le_nat_alt word_unat_eq_iff)
  ultimately show ?thesis
    using mbps_integral [OF assms] by (simp add: limiter_if_side_def BandwidthLimiter_new_def Let_def)
qed

text \<open>The double 1.0.\<close>

theorem limiter_exact_witness:
  "limiter_if_side 0x3FF0000000000000 ''server'' Server = Some 125000"
proof -
  have "f64_rat 0x3FF0000000000000 = of_nat 1" "f64_is_finite 0x3FF0000000000000"
    "\<not> f64_is_negative 0x3FF0000000000000" "BandwidthLimitSide_parse ''server'' = Server"
    by (simp_all add: f64_rat_def f64_is_finite_def f64_is_negative_def f64_is_nan_def
        BandwidthLimitSide_parse_def str_simps)
  then show ?thesis using limiter_exact [of "0x3FF0000000000000" 1 "''server''" Server] by simp
qed

end
