(* ===== verification/Tunnel_Manager.thy ===== *)
theory Tunnel_Manager
  imports Gateway Tunnel_Tables Metrics Bandwidth
begin

text \<open>
  The tunnels of one control session (\<open>server/src/tunnel/manager.rs\<close>, with the handles of
  \<open>tcp.rs\<close> and \<open>udp.rs\<close> in the same directory) and the state the sessions share: the tables of names and
  ports, the two gateways and the metrics. A hash map whose entries are drained is an association
  list with distinct keys. Binding a socket is an action of the operating system: its outcome is an
  argument. The session a route points to is named by its owner, the session id and generation.
\<close>

section \<open>Shared state\<close>

record Shared =
  sh_names :: TunnelRegistry
  sh_tcp_ports :: PortTable
  sh_udp_ports :: PortTable
  sh_http_gw :: "(TunnelOwner, BandwidthLimiter) HttpGw option"
  sh_https_gw :: "(TunnelOwner, BandwidthLimiter) HttpsGw option"
  sh_metrics :: MemMetrics

section \<open>Tunnels\<close>

record TcpTunnel =
  tt_name :: string
  tt_remote_port :: u16

record UdpTunnel =
  ut_name :: string
  ut_remote_port :: u16

text \<open>\<open>bind\<close> gives the error of binding an address, if there is one. The accept loops the two functions
  start do not change the modelled state.\<close>

definition TcpTunnel_start :: "(string \<Rightarrow> string option) \<Rightarrow> string \<Rightarrow> string \<Rightarrow> u16 \<Rightarrow> string + TcpTunnel" where
  "TcpTunnel_start bind name bind_addr remote_port =
     (case bind (bind_addr @ '':'' @ port_to_string remote_port) of
        Some e \<Rightarrow> Inl e
      | None \<Rightarrow> Inr \<lparr>tt_name = name, tt_remote_port = remote_port\<rparr>)"

definition UdpTunnel_start :: "(string \<Rightarrow> string option) \<Rightarrow> string \<Rightarrow> string \<Rightarrow> u16 \<Rightarrow> string + UdpTunnel" where
  "UdpTunnel_start bind name bind_addr remote_port =
     (case bind (bind_addr @ '':'' @ port_to_string remote_port) of
        Some e \<Rightarrow> Inl e
      | None \<Rightarrow> Inr \<lparr>ut_name = name, ut_remote_port = remote_port\<rparr>)"

datatype RegisteredTunnel =
    TcpReg TcpTunnel
  | HttpReg HttpTunnel
  | HttpsReg HttpsTunnel
  | UdpReg UdpTunnel

fun tunnel_type :: "RegisteredTunnel \<Rightarrow> string" where
  "tunnel_type (TcpReg t) = ''tcp''"
| "tunnel_type (HttpReg t) = ''http''"
| "tunnel_type (HttpsReg t) = ''https''"
| "tunnel_type (UdpReg t) = ''udp''"

fun remote_port :: "RegisteredTunnel \<Rightarrow> u16 option" where
  "remote_port (TcpReg t) = Some (tt_remote_port t)"
| "remote_port (UdpReg t) = Some (ut_remote_port t)"
| "remote_port (HttpReg t) = None"
| "remote_port (HttpsReg t) = None"

text \<open>Closing a TCP or UDP tunnel stops its tasks; closing an HTTP or HTTPS tunnel withdraws its routes.
  Dropping a tunnel does the same.\<close>

fun RegisteredTunnel_close :: "RegisteredTunnel \<Rightarrow> Shared \<Rightarrow> Shared" where
  "RegisteredTunnel_close (TcpReg t) sh = sh"
| "RegisteredTunnel_close (UdpReg t) sh = sh"
| "RegisteredTunnel_close (HttpReg t) sh =
     sh\<lparr>sh_http_gw := map_option (\<lambda>gw. snd (HttpTunnel_shutdown t gw)) (sh_http_gw sh)\<rparr>"
| "RegisteredTunnel_close (HttpsReg t) sh =
     sh\<lparr>sh_https_gw := map_option (\<lambda>gw. snd (HttpsTunnel_shutdown t gw)) (sh_https_gw sh)\<rparr>"

section \<open>The manager\<close>

record DetachedTunnel =
  dt_tunnel_type :: string
  dt_remote_port :: "u16 option"

record TunnelEntry =
  te_tunnel :: RegisteredTunnel
  te_local_addr :: string

record TunnelManager =
  tm_tunnels :: "(string \<times> TunnelEntry) list"

record TunnelSummary =
  tsu_name :: string
  tsu_tunnel_type :: string
  tsu_remote_addr :: string
  tsu_local_addr :: string
  tsu_status :: string

definition TunnelManager_new :: TunnelManager where
  "TunnelManager_new = \<lparr>tm_tunnels = []\<rparr>"

definition tm_insert ::
    "TunnelManager \<Rightarrow> string \<Rightarrow> RegisteredTunnel \<Rightarrow> string \<Rightarrow> (RegisteredTunnel + unit) \<times> TunnelManager" where
  "tm_insert tm name tunnel local_addr =
     (case map_of (tm_tunnels tm) name of
        None \<Rightarrow> (Inr (), tm\<lparr>tm_tunnels := (name, \<lparr>te_tunnel = tunnel, te_local_addr = local_addr\<rparr>) # tm_tunnels tm\<rparr>)
      | Some _ \<Rightarrow> (Inl tunnel, tm))"

definition detached :: "TunnelEntry \<Rightarrow> DetachedTunnel" where
  "detached entry = \<lparr>dt_tunnel_type = tunnel_type (te_tunnel entry), dt_remote_port = remote_port (te_tunnel entry)\<rparr>"

definition tm_remove ::
    "TunnelManager \<Rightarrow> string \<Rightarrow> Shared \<Rightarrow> DetachedTunnel option \<times> TunnelManager \<times> Shared" where
  "tm_remove tm name sh =
     (case map_of (tm_tunnels tm) name of
        Some entry \<Rightarrow>
          (Some (detached entry), tm\<lparr>tm_tunnels := filter (\<lambda>x. fst x \<noteq> name) (tm_tunnels tm)\<rparr>,
           RegisteredTunnel_close (te_tunnel entry) sh)
      | None \<Rightarrow> (None, tm, sh))"

definition close_all ::
    "TunnelManager \<Rightarrow> Shared \<Rightarrow> (string \<times> DetachedTunnel) list \<times> TunnelManager \<times> Shared" where
  "close_all tm sh =
     (map (\<lambda>(name, entry). (name, detached entry)) (tm_tunnels tm), tm\<lparr>tm_tunnels := []\<rparr>,
      fold (\<lambda>(name, entry). RegisteredTunnel_close (te_tunnel entry)) (tm_tunnels tm) sh)"

text \<open>\<open>abandon_all\<close> drops the tunnels instead of closing them; \<open>Drop\<close> withdraws the routes as \<open>close\<close> does.\<close>

definition abandon_all ::
    "TunnelManager \<Rightarrow> Shared \<Rightarrow> (string \<times> DetachedTunnel) list \<times> TunnelManager \<times> Shared" where
  "abandon_all tm sh = close_all tm sh"

fun join :: "string \<Rightarrow> string list \<Rightarrow> string" where
  "join sep [] = []"
| "join sep [s] = s"
| "join sep (s # t # ss) = s @ sep @ join sep (t # ss)"

fun summary_remote_addr :: "RegisteredTunnel \<Rightarrow> string" where
  "summary_remote_addr (TcpReg t) = '':'' @ port_to_string (tt_remote_port t)"
| "summary_remote_addr (HttpReg t) = join '','' (ht_domains t)"
| "summary_remote_addr (HttpsReg t) = join '','' (hst_domains t)"
| "summary_remote_addr (UdpReg t) = '':'' @ port_to_string (ut_remote_port t)"

definition summaries :: "TunnelManager \<Rightarrow> TunnelSummary list" where
  "summaries tm =
     map (\<lambda>(name, entry). \<lparr>tsu_name = name, tsu_tunnel_type = tunnel_type (te_tunnel entry),
       tsu_remote_addr = summary_remote_addr (te_tunnel entry), tsu_local_addr = te_local_addr entry,
       tsu_status = ''online''\<rparr>) (tm_tunnels tm)"

definition tm_len :: "TunnelManager \<Rightarrow> nat" where
  "tm_len tm = length (tm_tunnels tm)"

definition format_local_addr :: "string \<Rightarrow> i32 \<Rightarrow> string" where
  "format_local_addr ip port =
     (let ip = trim ip; p = int_to_string (sint port)
      in if ip = [] \<and> sint port \<le> 0 then []
         else if ip = [] then '':'' @ p
         else if sint port \<le> 0 then ip
         else if CHR '':'' \<in> set ip \<and> \<not> prefix ''['' ip then ''['' @ ip @ '']:'' @ p
         else ip @ '':'' @ p)"

end
