(* ===== verification/Control_Session.thy ===== *)
theory Control_Session
  imports Tunnel_Manager
begin

text \<open>
  A control session of the server (\<open>server/src/control/session/mod.rs\<close>, \<open>register.rs\<close> and
  \<open>data_pool.rs\<close>): registering, replacing and closing tunnels, the heartbeat, the shutdown and the
  destructor. A handler runs on the session's record and the shared state. The writer is the list
  of messages written and whether it is still open; the clock, the outcome of binding a socket and the rendering of an error as text are
  arguments.
\<close>

section \<open>State\<close>

record Control =
  co_session_id :: string
  co_generation :: u64
  co_user :: string
  co_agent_id :: string
  co_hostname :: string
  co_os :: string
  co_arch :: string
  co_version :: string
  co_client_ip :: string
  co_cfg :: ServerConfig
  co_out :: "Message list"
  co_writer_open :: bool
  co_tunnels :: TunnelManager
  co_closed :: bool
  co_cleaning :: bool
  co_finished :: bool
  co_activated :: bool
  co_pool_count :: nat
  co_last_ping_unix :: int

datatype control_error =
    SessionClosed
  | UnsupportedProtocol string
  | InvalidRemotePort
  | HttpGwDisabled
  | HttpsGwDisabled
  | TableError table_error
  | GatewayError gw_error
  | BindFailed string
  | AlreadyPresent string
  | ControlClosed
  | WriteFailed

definition Control_new ::
    "string \<Rightarrow> u64 \<Rightarrow> ServerConfig \<Rightarrow> nat \<Rightarrow> string \<Rightarrow> string \<Rightarrow> string \<Rightarrow> string \<Rightarrow> string \<Rightarrow> string \<Rightarrow> string \<Rightarrow>
     clock \<Rightarrow> Control" where
  "Control_new session_id generation cfg pool_count user agent_id hostname os arch version client_ip now =
     \<lparr>co_session_id = session_id, co_generation = generation, co_user = user, co_agent_id = agent_id,
      co_hostname = hostname, co_os = os, co_arch = arch, co_version = version, co_client_ip = client_ip,
      co_cfg = cfg, co_out = [], co_writer_open = True, co_tunnels = TunnelManager_new, co_closed = False,
      co_cleaning = False, co_finished = False, co_activated = False, co_pool_count = max pool_count 1,
      co_last_ping_unix = ck_time now\<rparr>"

definition owner :: "Control \<Rightarrow> TunnelOwner" where
  "owner c = \<lparr>to_session_id = co_session_id c, to_generation = co_generation c\<rparr>"

definition is_closed :: "Control \<Rightarrow> bool" where "is_closed c = co_closed c"

definition is_accepting_data :: "Control \<Rightarrow> bool" where
  "is_accepting_data c \<longleftrightarrow> co_activated c \<and> \<not> is_closed c"

definition tunnel_summaries :: "Control \<Rightarrow> TunnelSummary list" where
  "tunnel_summaries c = summaries (co_tunnels c)"

definition tunnel_count :: "Control \<Rightarrow> nat" where
  "tunnel_count c = tm_len (co_tunnels c)"

text \<open>\<open>msg::write_msg\<close> on the session's writer.\<close>

definition ctl_write :: "Message \<Rightarrow> Control \<Rightarrow> (control_error + unit) \<times> Control" where
  "ctl_write m c = (if co_writer_open c then (Inr (), c\<lparr>co_out := co_out c @ [m]\<rparr>) else (Inl WriteFailed, c))"

definition send_login_ok :: "string \<Rightarrow> Control \<Rightarrow> (control_error + unit) \<times> Control" where
  "send_login_ok version c =
     (case ctl_write (LoginResp \<lparr>lr_version = version, lr_session_id = co_session_id c, lr_error = []\<rparr>) c of
        (Inl e, c') \<Rightarrow> (Inl e, c')
      | (Inr _, c') \<Rightarrow> (Inr (), c'\<lparr>co_activated := True\<rparr>))"

definition send_login_err :: "string \<Rightarrow> string \<Rightarrow> Control \<Rightarrow> (control_error + unit) \<times> Control" where
  "send_login_err version error c =
     ctl_write (LoginResp \<lparr>lr_version = version, lr_session_id = [], lr_error = error\<rparr>) c"

definition request_data_conn :: "Control \<Rightarrow> (control_error + unit) \<times> Control" where
  "request_data_conn c = (if co_closed c then (Inl ControlClosed, c) else ctl_write ReqDataConn c)"

section \<open>Releasing\<close>

definition release_global_slot :: "Control \<Rightarrow> string \<Rightarrow> DetachedTunnel \<Rightarrow> Shared \<Rightarrow> Shared" where
  "release_global_slot c name d sh =
     (let sh = (case dt_remote_port d of
                  Some port \<Rightarrow>
                    if dt_tunnel_type d = ''tcp'' then sh\<lparr>sh_tcp_ports := release (sh_tcp_ports sh) port name\<rparr>
                    else if dt_tunnel_type d = ''udp'' then sh\<lparr>sh_udp_ports := release (sh_udp_ports sh) port name\<rparr>
                    else sh
                | None \<Rightarrow> sh)
      in sh\<lparr>sh_names := remove_if_owner (sh_names sh) name (owner c)\<rparr>)"

definition detach_tunnel :: "string \<Rightarrow> Control \<Rightarrow> Shared \<Rightarrow> string option \<times> Control \<times> Shared" where
  "detach_tunnel name c sh =
     (case tm_remove (co_tunnels c) name sh of
        (None, tm, sh) \<Rightarrow> (None, c\<lparr>co_tunnels := tm\<rparr>, sh)
      | (Some d, tm, sh) \<Rightarrow> (Some (dt_tunnel_type d), c\<lparr>co_tunnels := tm\<rparr>, release_global_slot c name d sh))"

definition metrics_close_tunnel :: "string \<Rightarrow> string \<Rightarrow> clock \<Rightarrow> Shared \<Rightarrow> Shared" where
  "metrics_close_tunnel name ty now sh = sh\<lparr>sh_metrics := close_tunnel (sh_metrics sh) name ty now\<rparr>"

definition handle_close_tunnel :: "CloseTunnel \<Rightarrow> clock \<Rightarrow> Control \<Rightarrow> Shared \<Rightarrow> Control \<times> Shared" where
  "handle_close_tunnel cp now c sh =
     (case detach_tunnel (ct_tunnel_name cp) c sh of
        (Some ty, c, sh) \<Rightarrow> (c, metrics_close_tunnel (ct_tunnel_name cp) ty now sh)
      | (None, c, sh) \<Rightarrow> (c, sh))"

section \<open>Registering\<close>

definition note_tunnel_registered :: "string \<Rightarrow> string \<Rightarrow> clock \<Rightarrow> Control \<Rightarrow> Shared \<Rightarrow> Shared" where
  "note_tunnel_registered name ty now c sh =
     sh\<lparr>sh_metrics := new_tunnel (sh_metrics sh) name ty (co_user c) (co_session_id c) now\<rparr>"

definition tunnel_transport :: "NewTunnel \<Rightarrow> BandwidthLimiter option" where
  "tunnel_transport np = limiter_if_side (nt_bandwidth np) (nt_bandwidth_limit_side np) Server"

definition prepare_name_slot :: "string \<Rightarrow> clock \<Rightarrow> Control \<Rightarrow> Shared \<Rightarrow> Control \<times> Shared" where
  "prepare_name_slot name now c sh =
     (case detach_tunnel name c sh of
        (Some old_ty, c, sh) \<Rightarrow> (c, metrics_close_tunnel name old_ty now sh)
      | (None, c, sh) \<Rightarrow> (c, sh))"

definition claim_name ::
    "string \<Rightarrow> clock \<Rightarrow> Control \<Rightarrow> Shared \<Rightarrow> (control_error + TunnelOwner) \<times> Control \<times> Shared" where
  "claim_name name now c sh =
     (let ow = owner c; (c, sh) = prepare_name_slot name now c sh
      in (case try_insert (sh_names sh) name ow of
            (Inl e, ns) \<Rightarrow> (Inl (TableError e), c, sh\<lparr>sh_names := ns\<rparr>)
          | (Inr _, ns) \<Rightarrow> (Inr ow, c, sh\<lparr>sh_names := ns\<rparr>)))"

definition release_name :: "string \<Rightarrow> TunnelOwner \<Rightarrow> Shared \<Rightarrow> Shared" where
  "release_name name ow sh = sh\<lparr>sh_names := remove_if_owner (sh_names sh) name ow\<rparr>"

text \<open>The port table a tunnel uses.\<close>

datatype port_kind = TcpPorts | UdpPorts

fun ports_of :: "port_kind \<Rightarrow> Shared \<Rightarrow> PortTable" where
  "ports_of TcpPorts sh = sh_tcp_ports sh"
| "ports_of UdpPorts sh = sh_udp_ports sh"

fun set_ports :: "port_kind \<Rightarrow> PortTable \<Rightarrow> Shared \<Rightarrow> Shared" where
  "set_ports TcpPorts t sh = sh\<lparr>sh_tcp_ports := t\<rparr>"
| "set_ports UdpPorts t sh = sh\<lparr>sh_udp_ports := t\<rparr>"

definition release_port :: "port_kind \<Rightarrow> u16 \<Rightarrow> string \<Rightarrow> Shared \<Rightarrow> Shared" where
  "release_port k port name sh = set_ports k (release (ports_of k sh) port name) sh"

definition claim_port ::
    "port_kind \<Rightarrow> u16 \<Rightarrow> string \<Rightarrow> TunnelOwner \<Rightarrow> Shared \<Rightarrow> (control_error + unit) \<times> Shared" where
  "claim_port k port name ow sh =
     (case claim (ports_of k sh) port name of
        (Inl e, t) \<Rightarrow> (Inl (TableError e), release_name name ow (set_ports k t sh))
      | (Inr _, t) \<Rightarrow> (Inr (), set_ports k t sh))"

definition insert_tunnel ::
    "string \<Rightarrow> RegisteredTunnel \<Rightarrow> string \<Rightarrow> string \<Rightarrow> TunnelOwner \<Rightarrow> (port_kind \<times> u16) option \<Rightarrow> clock \<Rightarrow>
     Control \<Rightarrow> Shared \<Rightarrow> (control_error + string) \<times> Control \<times> Shared" where
  "insert_tunnel name tunnel local_addr remote_addr ow ports now c sh =
     (case tm_insert (co_tunnels c) name tunnel local_addr of
        (Inl tunnel, tm) \<Rightarrow>
          let sh = RegisteredTunnel_close tunnel sh;
              sh = (case ports of Some (k, port) \<Rightarrow> release_port k port name sh | None \<Rightarrow> sh)
          in (Inl (AlreadyPresent name), c, release_name name ow sh)
      | (Inr _, tm) \<Rightarrow>
          (Inr remote_addr, c\<lparr>co_tunnels := tm\<rparr>, note_tunnel_registered name (tunnel_type tunnel) now c sh))"

text \<open>A registration in its phases; between them the handler waits (for the lock of the session's
  tunnels, for the socket). \<open>register_port_claim\<close> claims name and port, \<open>register_port_start\<close> binds.\<close>

definition register_port_claim ::
    "port_kind \<Rightarrow> NewTunnel \<Rightarrow> clock \<Rightarrow> Control \<Rightarrow> Shared \<Rightarrow> (control_error + TunnelOwner) \<times> Control \<times> Shared" where
  "register_port_claim k np now c sh =
     (case claim_name (nt_tunnel_name np) now c sh of
        (Inl e, c, sh) \<Rightarrow> (Inl e, c, sh)
      | (Inr ow, c, sh) \<Rightarrow>
          (case claim_port k (ucast (nt_remote_port np)) (nt_tunnel_name np) ow sh of
             (Inl e, sh) \<Rightarrow> (Inl e, c, sh)
           | (Inr _, sh) \<Rightarrow> (Inr ow, c, sh)))"

definition register_port_start ::
    "(port_kind \<Rightarrow> string \<Rightarrow> string option) \<Rightarrow> port_kind \<Rightarrow> NewTunnel \<Rightarrow> TunnelOwner \<Rightarrow> Control \<Rightarrow> Shared \<Rightarrow>
     (control_error + RegisteredTunnel) \<times> Shared" where
  "register_port_start bind k np ow c sh =
     (let name = nt_tunnel_name np; port = ucast (nt_remote_port np);
          started = (case k of
                       TcpPorts \<Rightarrow> map_sum id TcpReg (TcpTunnel_start (bind k) name (sc_proxy_addr (co_cfg c)) port)
                     | UdpPorts \<Rightarrow> map_sum id UdpReg (UdpTunnel_start (bind k) name (sc_proxy_addr (co_cfg c)) port))
      in (case started of
            Inr t \<Rightarrow> (Inr t, sh)
          | Inl e \<Rightarrow> (Inl (BindFailed e), release_name name ow (release_port k port name sh))))"

definition register_port_insert ::
    "port_kind \<Rightarrow> NewTunnel \<Rightarrow> RegisteredTunnel \<Rightarrow> TunnelOwner \<Rightarrow> clock \<Rightarrow> Control \<Rightarrow> Shared \<Rightarrow>
     (control_error + string) \<times> Control \<times> Shared" where
  "register_port_insert k np tunnel ow now c sh =
     (let port = ucast (nt_remote_port np)
      in insert_tunnel (nt_tunnel_name np) tunnel (format_local_addr (nt_local_ip np) (nt_local_port np))
           ('':'' @ port_to_string port) ow (Some (k, port)) now c sh)"

text \<open>\<open>register_tcp_tunnel\<close> and \<open>register_udp_tunnel\<close>.\<close>

definition register_port_tunnel ::
    "(port_kind \<Rightarrow> string \<Rightarrow> string option) \<Rightarrow> port_kind \<Rightarrow> NewTunnel \<Rightarrow> clock \<Rightarrow> Control \<Rightarrow> Shared \<Rightarrow>
     (control_error + string) \<times> Control \<times> Shared" where
  "register_port_tunnel bind k np now c sh =
     (if sint (nt_remote_port np) \<le> 0 \<or> 65535 < sint (nt_remote_port np) then (Inl InvalidRemotePort, c, sh)
      else (case register_port_claim k np now c sh of
              (Inl e, c, sh) \<Rightarrow> (Inl e, c, sh)
            | (Inr ow, c, sh) \<Rightarrow>
                (case register_port_start bind k np ow c sh of
                   (Inl e, sh) \<Rightarrow> (Inl e, c, sh)
                 | (Inr tunnel, sh) \<Rightarrow> register_port_insert k np tunnel ow now c sh)))"

definition gw_remote_addr :: "string list \<Rightarrow> u16 \<Rightarrow> string" where
  "gw_remote_addr domains port = join '','' (map (\<lambda>d. d @ '':'' @ port_to_string port) domains)"

definition register_http_start ::
    "NewTunnel \<Rightarrow> TunnelOwner \<Rightarrow> Control \<Rightarrow> Shared \<Rightarrow> (control_error + HttpTunnel) \<times> Shared" where
  "register_http_start np ow c sh =
     (case sh_http_gw sh of
        None \<Rightarrow> (Inl HttpGwDisabled, sh)
      | Some gw \<Rightarrow>
          (case HttpTunnel_register np (owner c) gw (sc_root_domain (co_cfg c)) (tunnel_transport np) of
             (Inl e, gw) \<Rightarrow>
               (Inl (GatewayError e), release_name (nt_tunnel_name np) ow (sh\<lparr>sh_http_gw := Some gw\<rparr>))
           | (Inr t, gw) \<Rightarrow> (Inr t, sh\<lparr>sh_http_gw := Some gw\<rparr>)))"

definition register_http_tunnel ::
    "NewTunnel \<Rightarrow> clock \<Rightarrow> Control \<Rightarrow> Shared \<Rightarrow> (control_error + string) \<times> Control \<times> Shared" where
  "register_http_tunnel np now c sh =
     (case sh_http_gw sh of
        None \<Rightarrow> (Inl HttpGwDisabled, c, sh)
      | Some gw \<Rightarrow>
          (case claim_name (nt_tunnel_name np) now c sh of
             (Inl e, c, sh) \<Rightarrow> (Inl e, c, sh)
           | (Inr ow, c, sh) \<Rightarrow>
               (case register_http_start np ow c sh of
                  (Inl e, sh) \<Rightarrow> (Inl e, c, sh)
                | (Inr t, sh) \<Rightarrow>
                    insert_tunnel (nt_tunnel_name np) (HttpReg t)
                      (format_local_addr (nt_local_ip np) (nt_local_port np))
                      (gw_remote_addr (ht_domains t) (hg_listen_port gw)) ow None now c sh)))"

definition register_https_start ::
    "NewTunnel \<Rightarrow> TunnelOwner \<Rightarrow> Control \<Rightarrow> Shared \<Rightarrow> (control_error + HttpsTunnel) \<times> Shared" where
  "register_https_start np ow c sh =
     (case sh_https_gw sh of
        None \<Rightarrow> (Inl HttpsGwDisabled, sh)
      | Some gw \<Rightarrow>
          (case HttpsTunnel_register np (owner c) gw (sc_root_domain (co_cfg c)) (tunnel_transport np) of
             (Inl e, gw) \<Rightarrow>
               (Inl (GatewayError e), release_name (nt_tunnel_name np) ow (sh\<lparr>sh_https_gw := Some gw\<rparr>))
           | (Inr t, gw) \<Rightarrow> (Inr t, sh\<lparr>sh_https_gw := Some gw\<rparr>)))"

definition register_https_tunnel ::
    "NewTunnel \<Rightarrow> clock \<Rightarrow> Control \<Rightarrow> Shared \<Rightarrow> (control_error + string) \<times> Control \<times> Shared" where
  "register_https_tunnel np now c sh =
     (case sh_https_gw sh of
        None \<Rightarrow> (Inl HttpsGwDisabled, c, sh)
      | Some gw \<Rightarrow>
          (case claim_name (nt_tunnel_name np) now c sh of
             (Inl e, c, sh) \<Rightarrow> (Inl e, c, sh)
           | (Inr ow, c, sh) \<Rightarrow>
               (case register_https_start np ow c sh of
                  (Inl e, sh) \<Rightarrow> (Inl e, c, sh)
                | (Inr t, sh) \<Rightarrow>
                    insert_tunnel (nt_tunnel_name np) (HttpsReg t)
                      (format_local_addr (nt_local_ip np) (nt_local_port np))
                      (gw_remote_addr (hst_domains t) (sg_listen_port gw)) ow None now c sh)))"

definition register_tunnel ::
    "(port_kind \<Rightarrow> string \<Rightarrow> string option) \<Rightarrow> NewTunnel \<Rightarrow> clock \<Rightarrow> Control \<Rightarrow> Shared \<Rightarrow>
     (control_error + string) \<times> Control \<times> Shared" where
  "register_tunnel bind np now c sh =
     (if is_closed c then (Inl SessionClosed, c, sh)
      else if nt_protocol np = ''tcp'' then register_port_tunnel bind TcpPorts np now c sh
      else if nt_protocol np = ''http'' then register_http_tunnel np now c sh
      else if nt_protocol np = ''https'' then register_https_tunnel np now c sh
      else if nt_protocol np = ''udp'' then register_port_tunnel bind UdpPorts np now c sh
      else (Inl (UnsupportedProtocol (nt_protocol np)), c, sh))"

definition tunnel_response :: "(control_error \<Rightarrow> string) \<Rightarrow> NewTunnel \<Rightarrow> control_error + string \<Rightarrow> Message" where
  "tunnel_response to_string np res =
     NewTunnelResp (case res of
         Inr remote_addr \<Rightarrow>
           \<lparr>ntr_tunnel_name = nt_tunnel_name np, ntr_remote_addr = remote_addr, ntr_error = []\<rparr>
       | Inl e \<Rightarrow>
           \<lparr>ntr_tunnel_name = nt_tunnel_name np, ntr_remote_addr = [], ntr_error = to_string e\<rparr>)"

definition handle_new_tunnel ::
    "(control_error \<Rightarrow> string) \<Rightarrow> (port_kind \<Rightarrow> string \<Rightarrow> string option) \<Rightarrow> NewTunnel \<Rightarrow> clock \<Rightarrow> Control \<Rightarrow> Shared \<Rightarrow>
     (control_error + unit) \<times> Control \<times> Shared" where
  "handle_new_tunnel to_string bind np now c sh =
     (case register_tunnel bind np now c sh of
        (res, c, sh) \<Rightarrow>
          (case ctl_write (tunnel_response to_string np res) c of (r, c) \<Rightarrow> (r, c, sh)))"

section \<open>Heartbeat\<close>

definition effective_ping_timeout :: "ServerConfig \<Rightarrow> int" where
  "effective_ping_timeout cfg =
     (let hb_to = sint (st_heartbeat_timeout (sc_transport cfg));
          mux_ka = sint (st_mux_keepalive_secs (sc_transport cfg))
      in if 0 < hb_to then hb_to
         else if st_tcp_mux (sc_transport cfg) \<and> 0 < mux_ka then min (mux_ka * 3) (2 ^ 63 - 1)
         else - 1)"

definition handle_ping :: "clock \<Rightarrow> Control \<Rightarrow> (control_error + unit) \<times> Control" where
  "handle_ping now c = ctl_write (Pong \<lparr>pong_error = []\<rparr>) (c\<lparr>co_last_ping_unix := ck_time now\<rparr>)"

text \<open>One round of the background check of \<open>run\<close>.\<close>

definition heartbeat_expired :: "clock \<Rightarrow> Control \<Rightarrow> bool" where
  "heartbeat_expired now c \<longleftrightarrow>
     0 < effective_ping_timeout (co_cfg c) \<and> 0 < co_last_ping_unix c \<and>
     effective_ping_timeout (co_cfg c) < ck_time now - co_last_ping_unix c"

section \<open>The end of a session\<close>

definition signal_close :: "Control \<Rightarrow> Control" where
  "signal_close c = c\<lparr>co_closed := True\<rparr>"

text \<open>A second \<open>shutdown\<close> only waits for the first one.\<close>

definition shutdown :: "clock \<Rightarrow> Control \<Rightarrow> Shared \<Rightarrow> Control \<times> Shared" where
  "shutdown now c sh =
     (let c = signal_close c
      in if co_cleaning c then (c, sh)
         else
           let c = c\<lparr>co_cleaning := True\<rparr>;
               (closed, tm, sh) = close_all (co_tunnels c) sh;
               sh = fold (\<lambda>(name, d) sh. metrics_close_tunnel name (dt_tunnel_type d) now
                      (release_global_slot c name d sh)) closed sh
           in (c\<lparr>co_tunnels := tm, co_writer_open := False, co_finished := True\<rparr>, sh))"

definition kick :: "string \<Rightarrow> clock \<Rightarrow> Control \<Rightarrow> Shared \<Rightarrow> Control \<times> Shared" where
  "kick reason now c sh =
     (let c = signal_close c; (_, c) = ctl_write (KickOut \<lparr>ko_reason = reason\<rparr>) c
      in shutdown now c sh)"

text \<open>\<open>Drop\<close>: a session that was shut down releases nothing any more, but dropping its fields still
  drops the tunnels it has; any other one abandons its tunnels.\<close>

definition Control_drop :: "Control \<Rightarrow> Shared \<Rightarrow> Shared" where
  "Control_drop c sh =
     (let (closed, tm, sh) = abandon_all (co_tunnels c) sh
      in if co_finished c then sh
         else fold (\<lambda>(name, d). release_global_slot c name d) closed sh)"

section \<open>The message loop\<close>

text \<open>The first requests of \<open>run\<close>, as many as the pool has places.\<close>

fun request_pool :: "nat \<Rightarrow> Control \<Rightarrow> (control_error + unit) \<times> Control" where
  "request_pool 0 c = (Inr (), c)"
| "request_pool (Suc n) c =
     (if co_closed c then (Inr (), c)
      else (case request_data_conn c of
              (Inl e, c) \<Rightarrow> (Inl e, c)
            | (Inr _, c) \<Rightarrow> request_pool n c))"

text \<open>One message of the loop of \<open>run\<close>; an error ends the loop.\<close>

definition handle_message ::
    "(control_error \<Rightarrow> string) \<Rightarrow> (port_kind \<Rightarrow> string \<Rightarrow> string option) \<Rightarrow> Message \<Rightarrow> clock \<Rightarrow> Control \<Rightarrow> Shared \<Rightarrow>
     (control_error + unit) \<times> Control \<times> Shared" where
  "handle_message to_string bind m now c sh =
     (case m of
        NewTunnel np \<Rightarrow> handle_new_tunnel to_string bind np now c sh
      | CloseTunnel cp \<Rightarrow> (Inr (), handle_close_tunnel cp now c sh)
      | Ping p \<Rightarrow> (case handle_ping now c of (r, c) \<Rightarrow> (r, c, sh))
      | _ \<Rightarrow> (Inr (), c, sh))"

section \<open>A registration in steps\<close>

text \<open>Where a registration waits: after the claim of name and port for the socket, after the start of the
  tunnel for the lock of the session's tunnels.\<close>

datatype pc =
    Idle
  | PortClaimed port_kind NewTunnel
  | PortStarted port_kind NewTunnel RegisteredTunnel
  | HttpClaimed NewTunnel u16
  | HttpStarted NewTunnel u16 HttpTunnel
  | HttpsClaimed NewTunnel u16
  | HttpsStarted NewTunnel u16 HttpsTunnel

text \<open>The answer to the client ends the handler.\<close>

definition reg_answer ::
    "(control_error \<Rightarrow> string) \<Rightarrow> NewTunnel \<Rightarrow> (control_error + string) \<times> Control \<times> Shared \<Rightarrow> pc \<times> Control \<times> Shared" where
  "reg_answer to_string np rcs =
     (case rcs of (res, c, sh) \<Rightarrow> (Idle, snd (ctl_write (tunnel_response to_string np res) c), sh))"

definition reg_begin_port ::
    "(control_error \<Rightarrow> string) \<Rightarrow> port_kind \<Rightarrow> NewTunnel \<Rightarrow> clock \<Rightarrow> Control \<Rightarrow> Shared \<Rightarrow> pc \<times> Control \<times> Shared" where
  "reg_begin_port to_string k np now c sh =
     (if sint (nt_remote_port np) \<le> 0 \<or> 65535 < sint (nt_remote_port np)
      then reg_answer to_string np (Inl InvalidRemotePort, c, sh)
      else (case register_port_claim k np now c sh of
              (Inl e, c, sh) \<Rightarrow> reg_answer to_string np (Inl e, c, sh)
            | (Inr _, c, sh) \<Rightarrow> (PortClaimed k np, c, sh)))"

definition reg_begin_gw ::
    "(control_error \<Rightarrow> string) \<Rightarrow> control_error \<Rightarrow> u16 option \<Rightarrow> (u16 \<Rightarrow> pc) \<Rightarrow> NewTunnel \<Rightarrow> clock \<Rightarrow> Control \<Rightarrow> Shared \<Rightarrow>
     pc \<times> Control \<times> Shared" where
  "reg_begin_gw to_string disabled gw_port claimed np now c sh =
     (case gw_port of
        None \<Rightarrow> reg_answer to_string np (Inl disabled, c, sh)
      | Some port \<Rightarrow>
          (case claim_name (nt_tunnel_name np) now c sh of
             (Inl e, c, sh) \<Rightarrow> reg_answer to_string np (Inl e, c, sh)
           | (Inr _, c, sh) \<Rightarrow> (claimed port, c, sh)))"

definition reg_begin ::
    "(control_error \<Rightarrow> string) \<Rightarrow> NewTunnel \<Rightarrow> clock \<Rightarrow> Control \<Rightarrow> Shared \<Rightarrow> pc \<times> Control \<times> Shared" where
  "reg_begin to_string np now c sh =
     (if is_closed c then reg_answer to_string np (Inl SessionClosed, c, sh)
      else if nt_protocol np = ''tcp'' then reg_begin_port to_string TcpPorts np now c sh
      else if nt_protocol np = ''http'' then
        reg_begin_gw to_string HttpGwDisabled (map_option hg_listen_port (sh_http_gw sh)) (HttpClaimed np) np now c sh
      else if nt_protocol np = ''https'' then
        reg_begin_gw to_string HttpsGwDisabled (map_option sg_listen_port (sh_https_gw sh)) (HttpsClaimed np) np now c sh
      else if nt_protocol np = ''udp'' then reg_begin_port to_string UdpPorts np now c sh
      else reg_answer to_string np (Inl (UnsupportedProtocol (nt_protocol np)), c, sh))"

fun reg_continue ::
    "(control_error \<Rightarrow> string) \<Rightarrow> (port_kind \<Rightarrow> string \<Rightarrow> string option) \<Rightarrow> clock \<Rightarrow> pc \<times> Control \<times> Shared \<Rightarrow>
     pc \<times> Control \<times> Shared" where
  "reg_continue to_string bind now (Idle, c, sh) = (Idle, c, sh)"
| "reg_continue to_string bind now (PortClaimed k np, c, sh) =
     (case register_port_start bind k np (owner c) c sh of
        (Inl e, sh) \<Rightarrow> reg_answer to_string np (Inl e, c, sh)
      | (Inr t, sh) \<Rightarrow> (PortStarted k np t, c, sh))"
| "reg_continue to_string bind now (PortStarted k np t, c, sh) =
     reg_answer to_string np (register_port_insert k np t (owner c) now c sh)"
| "reg_continue to_string bind now (HttpClaimed np port, c, sh) =
     (case register_http_start np (owner c) c sh of
        (Inl e, sh) \<Rightarrow> reg_answer to_string np (Inl e, c, sh)
      | (Inr t, sh) \<Rightarrow> (HttpStarted np port t, c, sh))"
| "reg_continue to_string bind now (HttpStarted np port t, c, sh) =
     reg_answer to_string np
       (insert_tunnel (nt_tunnel_name np) (HttpReg t) (format_local_addr (nt_local_ip np) (nt_local_port np))
          (gw_remote_addr (ht_domains t) port) (owner c) None now c sh)"
| "reg_continue to_string bind now (HttpsClaimed np port, c, sh) =
     (case register_https_start np (owner c) c sh of
        (Inl e, sh) \<Rightarrow> reg_answer to_string np (Inl e, c, sh)
      | (Inr t, sh) \<Rightarrow> (HttpsStarted np port t, c, sh))"
| "reg_continue to_string bind now (HttpsStarted np port t, c, sh) =
     reg_answer to_string np
       (insert_tunnel (nt_tunnel_name np) (HttpsReg t) (format_local_addr (nt_local_ip np) (nt_local_port np))
          (gw_remote_addr (hst_domains t) port) (owner c) None now c sh)"

text \<open>The handler is its steps in a row.\<close>

lemma set_tunnels_owner [simp]: "owner (c\<lparr>co_tunnels := tm\<rparr>) = owner c"
  by (simp add: owner_def)

lemma detach_owner: "detach_tunnel n c sh = (r, c', sh') \<Longrightarrow> owner c' = owner c"
  by (auto simp: detach_tunnel_def split: prod.splits option.splits)

lemma prepare_owner: "prepare_name_slot n now c sh = (c', sh') \<Longrightarrow> owner c' = owner c"
  by (auto simp: prepare_name_slot_def dest!: detach_owner split: prod.splits option.splits)

lemma claim_name_owner:
  "claim_name n now c sh = (r, c', sh') \<Longrightarrow> owner c' = owner c \<and> (\<forall>ow. r = Inr ow \<longrightarrow> ow = owner c)"
  by (auto simp: claim_name_def Let_def dest!: prepare_owner split: prod.splits sum.splits)

lemma register_port_claim_owner:
  "register_port_claim k np now c sh = (r, c', sh') \<Longrightarrow> owner c' = owner c \<and> (\<forall>ow. r = Inr ow \<longrightarrow> ow = owner c)"
  by (auto simp: register_port_claim_def dest!: claim_name_owner split: prod.splits sum.splits)

lemma reg_continue_answer [simp]:
  "reg_continue to_string bind now (reg_answer to_string np rcs) = reg_answer to_string np rcs"
  by (cases rcs) (simp add: reg_answer_def)

lemma port_steps:
  "reg_continue to_string bind now (reg_continue to_string bind now (reg_begin_port to_string k np now c sh)) =
    reg_answer to_string np (register_port_tunnel bind k np now c sh)"
proof (cases "register_port_claim k np now c sh")
  case (fields r c1 sh1)
  show ?thesis
  proof (cases r)
    case (Inr ow)
    then have "ow = owner c1" using register_port_claim_owner [OF fields] by simp
    with Inr fields show ?thesis
      by (cases "register_port_start bind k np (owner c1) c1 sh1"; cases "fst (register_port_start bind k np (owner c1) c1 sh1)")
        (auto simp: reg_begin_port_def register_port_tunnel_def)
  qed (simp add: reg_begin_port_def register_port_tunnel_def fields)
qed

lemma http_steps:
  "reg_continue to_string bind now (reg_continue to_string bind now
      (reg_begin_gw to_string HttpGwDisabled (map_option hg_listen_port (sh_http_gw sh)) (HttpClaimed np) np now c sh)) =
    reg_answer to_string np (register_http_tunnel np now c sh)"
proof (cases "claim_name (nt_tunnel_name np) now c sh")
  case (fields r c1 sh1)
  show ?thesis
  proof (cases r)
    case (Inr ow)
    then have "ow = owner c1" using claim_name_owner [OF fields] by simp
    with Inr fields show ?thesis
      by (cases "register_http_start np (owner c1) c1 sh1"; cases "fst (register_http_start np (owner c1) c1 sh1)"; cases "sh_http_gw sh")
        (auto simp: reg_begin_gw_def register_http_tunnel_def)
  qed (cases "sh_http_gw sh"; simp add: reg_begin_gw_def register_http_tunnel_def fields)
qed

lemma https_steps:
  "reg_continue to_string bind now (reg_continue to_string bind now
      (reg_begin_gw to_string HttpsGwDisabled (map_option sg_listen_port (sh_https_gw sh)) (HttpsClaimed np) np now c sh)) =
    reg_answer to_string np (register_https_tunnel np now c sh)"
proof (cases "claim_name (nt_tunnel_name np) now c sh")
  case (fields r c1 sh1)
  show ?thesis
  proof (cases r)
    case (Inr ow)
    then have "ow = owner c1" using claim_name_owner [OF fields] by simp
    with Inr fields show ?thesis
      by (cases "register_https_start np (owner c1) c1 sh1"; cases "fst (register_https_start np (owner c1) c1 sh1)"; cases "sh_https_gw sh")
        (auto simp: reg_begin_gw_def register_https_tunnel_def)
  qed (cases "sh_https_gw sh"; simp add: reg_begin_gw_def register_https_tunnel_def fields)
qed

lemma handle_new_tunnel_steps:
  "snd (handle_new_tunnel to_string bind np now c sh) =
    snd (reg_continue to_string bind now (reg_continue to_string bind now (reg_begin to_string np now c sh)))"
proof -
  have "reg_continue to_string bind now (reg_continue to_string bind now (reg_begin to_string np now c sh)) =
      reg_answer to_string np (register_tunnel bind np now c sh)"
    by (simp add: reg_begin_def register_tunnel_def port_steps http_steps https_steps)
  then show ?thesis
    by (simp add: handle_new_tunnel_def reg_answer_def split: prod.split)
qed

end
