(* ===== verification/Control_Ledger.thy ===== *)
theory Control_Ledger
  imports Control_Session
begin

text \<open>
  What the control sessions hold together: the tables of names and ports and the routes of the
  gateways implement one ledger, a map from tunnel names to the owner of the name and the slot the
  tunnel occupies, and the ledger is the union of what the live sessions have registered.
\<close>

section \<open>The ledger of held resources\<close>

text \<open>
  The tables are specified by one map from tunnel names to the owner of the name and what the tunnel
  occupies: a port, routes of a gateway, or nothing but the name while it waits for its routes.
\<close>

datatype slot = TcpSlot u16 | UdpSlot u16 | HttpSlot | HttpsSlot | Reserved

fun slot_of :: "RegisteredTunnel \<Rightarrow> slot" where
  "slot_of (TcpReg t) = TcpSlot (tt_remote_port t)"
| "slot_of (UdpReg t) = UdpSlot (ut_remote_port t)"
| "slot_of (HttpReg t) = HttpSlot"
| "slot_of (HttpsReg t) = HttpsSlot"

type_synonym ledger = "string \<rightharpoonup> TunnelOwner \<times> slot"

definition http_routed :: "Shared \<Rightarrow> string \<Rightarrow> TunnelOwner \<Rightarrow> bool" where
  "http_routed sh n ow \<longleftrightarrow>
     (\<exists>gw kl r. sh_http_gw sh = Some gw \<and> http_table gw kl = Some r \<and> hr_tunnel_name r = n \<and> hr_control r = ow)"

definition https_routed :: "Shared \<Rightarrow> string \<Rightarrow> TunnelOwner \<Rightarrow> bool" where
  "https_routed sh n ow \<longleftrightarrow>
     (\<exists>gw key r. sh_https_gw sh = Some gw \<and> sg_routes gw key = Some r \<and> sr_tunnel_name r = n \<and> sr_control r = ow)"

definition gw_ok :: "Shared \<Rightarrow> bool" where
  "gw_ok sh \<longleftrightarrow> (case sh_http_gw sh of None \<Rightarrow> True | Some gw \<Rightarrow> http_wf gw)"

text \<open>A port table shows the ledger's entries of one kind of slot.\<close>

definition shows_slots :: "PortTable \<Rightarrow> (u16 \<Rightarrow> slot) \<Rightarrow> ledger \<Rightarrow> bool" where
  "shows_slots t K A \<longleftrightarrow> (\<forall>p n. by_port t p = Some n \<longleftrightarrow> (\<exists>ow. A n = Some (ow, K p)))"

definition implements :: "Shared \<Rightarrow> ledger \<Rightarrow> bool" where
  "implements sh A \<longleftrightarrow>
     by_name (sh_names sh) = (\<lambda>n. map_option fst (A n)) \<and>
     shows_slots (sh_tcp_ports sh) TcpSlot A \<and> shows_slots (sh_udp_ports sh) UdpSlot A \<and> gw_ok sh \<and>
     (\<forall>n ow. http_routed sh n ow \<longrightarrow> A n = Some (ow, HttpSlot)) \<and>
     (\<forall>n ow. https_routed sh n ow \<longrightarrow> A n = Some (ow, HttpsSlot))"

text \<open>The tunnel handle of an entry carries the entry's name and is open.\<close>

fun named :: "string \<Rightarrow> RegisteredTunnel \<Rightarrow> bool" where
  "named n (HttpReg t) \<longleftrightarrow> ht_name t = n \<and> \<not> ht_closed t"
| "named n (HttpsReg t) \<longleftrightarrow> hst_name t = n \<and> \<not> hst_closed t"
| "named n (TcpReg t) \<longleftrightarrow> True"
| "named n (UdpReg t) \<longleftrightarrow> True"

definition held :: "Control \<Rightarrow> string \<rightharpoonup> slot" where
  "held c = (\<lambda>n. map_option (slot_of \<circ> te_tunnel) (map_of (tm_tunnels (co_tunnels c)) n))"

definition session_ok :: "Control \<Rightarrow> bool" where
  "session_ok c \<longleftrightarrow>
     distinct (map fst (tm_tunnels (co_tunnels c))) \<and>
     (\<forall>(n, e) \<in> set (tm_tunnels (co_tunnels c)). named n (te_tunnel e))"

text \<open>The session has exactly its part of the ledger: its tunnels and what a registration in progress
  has claimed.\<close>

definition holds :: "ledger \<Rightarrow> Control \<Rightarrow> (string \<rightharpoonup> slot) \<Rightarrow> bool" where
  "holds A c X \<longleftrightarrow>
     session_ok c \<and> (\<forall>n. X n \<noteq> None \<longrightarrow> held c n = None) \<and>
     (\<forall>n s. A n = Some (owner c, s) \<longleftrightarrow> held c n = Some s \<or> X n = Some s)"

text \<open>A change of the ledger that only touches names of one owner.\<close>

definition own_move :: "TunnelOwner \<Rightarrow> ledger \<Rightarrow> ledger \<Rightarrow> bool" where
  "own_move ow A A' \<longleftrightarrow> (\<forall>n. A' n \<noteq> A n \<longrightarrow> fst ` set_option (A n) \<union> fst ` set_option (A' n) \<subseteq> {ow})"

definition unrouted :: "Shared \<Rightarrow> string \<Rightarrow> bool" where
  "unrouted sh n \<longleftrightarrow> (\<forall>ow. \<not> http_routed sh n ow \<and> \<not> https_routed sh n ow)"

lemmas shared_defs = implements_def http_routed_def https_routed_def gw_ok_def

text \<open>Metrics are not part of the ledger.\<close>

lemma implements_metrics [simp]: "implements (sh\<lparr>sh_metrics := m\<rparr>) A = implements sh A"
  by (simp add: shared_defs)

lemma unrouted_metrics [simp]: "unrouted (sh\<lparr>sh_metrics := m\<rparr>) n = unrouted sh n"
  by (simp add: unrouted_def shared_defs)

lemma http_shutdown_table:
  assumes "http_wf gw"
  shows "http_wf (snd (HttpTunnel_shutdown t gw)) \<and>
    (http_table (snd (HttpTunnel_shutdown t gw)) kl = Some r \<longleftrightarrow>
      http_table gw kl = Some r \<and> (ht_closed t \<or> hr_tunnel_name r \<noteq> ht_name t))"
  using assms by (auto simp: HttpTunnel_shutdown_def http_unregister_wf http.unreg_table split: option.splits)

lemma https_shutdown_table:
  "sg_routes (snd (HttpsTunnel_shutdown t gw)) key = Some r \<longleftrightarrow>
    sg_routes gw key = Some r \<and> (hst_closed t \<or> sr_tunnel_name r \<noteq> hst_name t)"
  by (auto simp: HttpsTunnel_shutdown_def https_unregister_tunnel_def split: option.splits if_splits)

lemma close_fields [simp]:
  "sh_names (RegisteredTunnel_close t sh) = sh_names sh"
  "sh_tcp_ports (RegisteredTunnel_close t sh) = sh_tcp_ports sh"
  "sh_udp_ports (RegisteredTunnel_close t sh) = sh_udp_ports sh"
  by (cases t; simp)+

lemma close_gw_ok: "gw_ok sh \<Longrightarrow> gw_ok (RegisteredTunnel_close t sh)"
  by (cases t) (auto simp: gw_ok_def http_shutdown_table split: option.splits)

lemma close_http_routed:
  assumes "gw_ok sh"
  shows "http_routed (RegisteredTunnel_close t sh) n ow \<longleftrightarrow>
    http_routed sh n ow \<and> (case t of HttpReg h \<Rightarrow> ht_closed h \<or> ht_name h \<noteq> n | _ \<Rightarrow> True)"
  using assms by (cases t) (fastforce simp: http_routed_def gw_ok_def http_shutdown_table)+

lemma close_https_routed:
  "https_routed (RegisteredTunnel_close t sh) n ow \<longleftrightarrow>
    https_routed sh n ow \<and> (case t of HttpsReg h \<Rightarrow> hst_closed h \<or> hst_name h \<noteq> n | _ \<Rightarrow> True)"
  by (cases t) (fastforce simp: https_routed_def https_shutdown_table)+

lemma close_implements: "implements sh A \<Longrightarrow> implements (RegisteredTunnel_close t sh) A"
  by (simp add: implements_def close_gw_ok close_http_routed close_https_routed)

lemma close_keeps_unrouted: "gw_ok sh \<Longrightarrow> unrouted sh n \<Longrightarrow> unrouted (RegisteredTunnel_close t sh) n"
  by (simp add: unrouted_def close_http_routed close_https_routed)

lemma close_unroutes:
  assumes "implements sh A" and "A n = Some (ow, slot_of t)" and "named n t"
  shows "unrouted (RegisteredTunnel_close t sh) n"
  using assms
  by (cases t)
    (auto simp: unrouted_def implements_def close_http_routed close_https_routed simp del: RegisteredTunnel_close.simps)

lemma release_fields [simp]:
  "sh_http_gw (release_global_slot c n d sh) = sh_http_gw sh"
  "sh_https_gw (release_global_slot c n d sh) = sh_https_gw sh"
  by (simp_all add: release_global_slot_def Let_def split: option.split)

lemma release_routed [simp]:
  "http_routed (release_global_slot c n d sh) m ow = http_routed sh m ow"
  "https_routed (release_global_slot c n d sh) m ow = https_routed sh m ow"
  "gw_ok (release_global_slot c n d sh) = gw_ok sh"
  "unrouted (release_global_slot c n d sh) m = unrouted sh m"
  by (simp_all add: http_routed_def https_routed_def gw_ok_def unrouted_def)

lemma shows_slots_unique:
  "shows_slots t K A \<Longrightarrow> A n = Some (ow, K p) \<Longrightarrow> A m = Some (ow', K p) \<Longrightarrow> n = m"
  unfolding shows_slots_def by (metis option.inject)

lemma shows_slots_release:
  assumes sl: "shows_slots t K A" and "inj K" and A: "A n = Some (ow, K p)"
  shows "shows_slots (release t p n) K (A(n := None))"
proof -
  have p: "by_port t p = Some n" using sl A by (auto simp: shows_slots_def)
  have only: "q = p" if "by_port t q = Some n" for q
    using sl A that \<open>inj K\<close> by (fastforce simp: shows_slots_def dest: injD)
  have "by_port (release t p n) = (by_port t)(p := None)" using p by (simp add: release_def)
  moreover have "((by_port t)(p := None)) q = Some m \<longleftrightarrow> m \<noteq> n \<and> by_port t q = Some m" for q m
    using p only [of q] by (cases "q = p") auto
  ultimately have "by_port (release t p n) q = Some m \<longleftrightarrow> m \<noteq> n \<and> (\<exists>ow. A m = Some (ow, K q))" for q m
    using sl by (simp add: shows_slots_def)
  then show ?thesis by (simp add: shows_slots_def)
qed

lemma shows_slots_other:
  assumes "shows_slots t K A" and "A n = None \<or> (\<exists>ow s. A n = Some (ow, s) \<and> s \<notin> range K)" and "v = None \<or> (\<exists>ow s. v = Some (ow, s) \<and> s \<notin> range K)"
  shows "shows_slots t K (A(n := v))"
  using assms by (auto simp: shows_slots_def)

lemma shows_slots_claim:
  assumes sl: "shows_slots t K A" and "inj K" and "A n = None" and "claim t p n = (Inr (), t')"
  shows "shows_slots t' K (A(n \<mapsto> (ow, K p)))"
proof -
  have t': "by_port t' = (by_port t)(p \<mapsto> n)" and free: "by_port t p = None"
    using assms(4) by (auto simp: claim_def split: if_splits option.splits)
  have "(\<exists>ow'. (A(n \<mapsto> (ow, K p))) m = Some (ow', K q)) \<longleftrightarrow> ((by_port t)(p \<mapsto> n)) q = Some m" for q m
    using sl free \<open>inj K\<close> assms(3) by (auto simp: shows_slots_def dest: injD) (metis option.distinct(1))+
  then show ?thesis by (auto simp: shows_slots_def t')
qed

lemma inj_slots [simp]: "inj TcpSlot" "inj UdpSlot"
  by (auto intro: injI)

lemma release_implements:
  assumes impl: "implements sh A" and A: "A n = Some (owner c, slot_of (te_tunnel e))" and un: "unrouted sh n"
  shows "implements (release_global_slot c n (detached e) sh) (A(n := None))"
proof -
  let ?sh = "release_global_slot c n (detached e) sh"
  have "by_name (sh_names ?sh) = (\<lambda>m. map_option fst ((A(n := None)) m))"
    using impl A
    by (auto simp: implements_def release_global_slot_def remove_if_owner_def Let_def fun_eq_iff split: option.split)
  moreover have "shows_slots (sh_tcp_ports ?sh) TcpSlot (A(n := None))"
    using impl A
    by (cases "te_tunnel e")
      (auto simp: implements_def release_global_slot_def detached_def Let_def shows_slots_release intro!: shows_slots_other)
  moreover have "shows_slots (sh_udp_ports ?sh) UdpSlot (A(n := None))"
    using impl A
    by (cases "te_tunnel e")
      (auto simp: implements_def release_global_slot_def detached_def Let_def shows_slots_release intro!: shows_slots_other)
  moreover have "(A(n := None)) m = Some (ow, HttpSlot)" if "http_routed sh m ow" for m ow
    using impl un that by (auto simp: implements_def unrouted_def)
  moreover have "(A(n := None)) m = Some (ow, HttpsSlot)" if "https_routed sh m ow" for m ow
    using impl un that by (auto simp: implements_def unrouted_def)
  moreover have "gw_ok sh" using impl by (simp add: implements_def)
  ultimately show ?thesis by (simp add: implements_def)
qed

section \<open>Detaching\<close>

lemma own_move_refl [simp]: "own_move ow A A"
  by (simp add: own_move_def)

lemma own_move_trans: "own_move ow A B \<Longrightarrow> own_move ow B C \<Longrightarrow> own_move ow A C"
  unfolding own_move_def by (metis Un_subset_iff)

lemma own_move_holds:
  assumes "own_move ow A A'" and "holds A d X" and "owner d \<noteq> ow"
  shows "holds A' d X"
proof -
  have "A' n = Some (owner d, s) \<longleftrightarrow> A n = Some (owner d, s)" for n s
    using assms(1,3) by (cases "A' n = A n") (force simp: own_move_def)+
  with assms(2) show ?thesis by (simp add: holds_def)
qed

lemma held_remove [simp]:
  "held (c\<lparr>co_tunnels := tm\<lparr>tm_tunnels := filter (\<lambda>x. fst x \<noteq> n) (tm_tunnels tm)\<rparr>\<rparr>) =
    (held (c\<lparr>co_tunnels := tm\<rparr>))(n := None)"
proof -
  have "map_of (filter (\<lambda>x. fst x \<noteq> n) l) = (map_of l)(n := None)" for l :: "(string \<times> TunnelEntry) list"
    by (induction l) auto
  then show ?thesis by (auto simp: held_def)
qed

lemma session_ok_remove:
  "session_ok c \<Longrightarrow>
    session_ok (c\<lparr>co_tunnels := (co_tunnels c)\<lparr>tm_tunnels := filter P (tm_tunnels (co_tunnels c))\<rparr>\<rparr>)"
  by (auto simp: session_ok_def distinct_map_filter)

text \<open>The ledger after the session gave up its tunnel of a name.\<close>

definition detach_ledger :: "Control \<Rightarrow> string \<Rightarrow> ledger \<Rightarrow> ledger" where
  "detach_ledger c n A = (if held c n = None then A else A(n := None))"

lemma detach_holds:
  assumes impl: "implements sh A" and h: "holds A c X" and X: "X n = None"
    and det: "detach_tunnel n c sh = (r, c', sh')"
  shows "implements sh' (detach_ledger c n A) \<and> holds (detach_ledger c n A) c' X \<and>
    own_move (owner c) A (detach_ledger c n A) \<and> held c' n = None"
proof (cases "map_of (tm_tunnels (co_tunnels c)) n")
  case None
  with det have "c' = c\<lparr>co_tunnels := co_tunnels c\<rparr>" "sh' = sh"
    by (simp_all add: detach_tunnel_def tm_remove_def)
  with impl h None show ?thesis by (simp add: detach_ledger_def held_def)
next
  case (Some e)
  let ?t = "te_tunnel e"
  let ?sh = "RegisteredTunnel_close ?t sh"
  have hn: "held c n = Some (slot_of ?t)" using Some by (simp add: held_def)
  then have A: "A n = Some (owner c, slot_of ?t)" using h by (simp add: holds_def)
  have nm: "named n ?t" using h Some by (force simp: holds_def session_ok_def dest: map_of_SomeD)
  have sh': "sh' = release_global_slot c n (detached e) ?sh"
    and c': "c' = c\<lparr>co_tunnels := (co_tunnels c)\<lparr>tm_tunnels := filter (\<lambda>x. fst x \<noteq> n) (tm_tunnels (co_tunnels c))\<rparr>\<rparr>"
    using det Some by (auto simp: detach_tunnel_def tm_remove_def)
  have "implements sh' (A(n := None))"
    unfolding sh' using close_implements [OF impl] A close_unroutes [OF impl A nm] by (rule release_implements)
  moreover have "held c' = (held c)(n := None)" by (simp add: c')
  then have "holds (A(n := None)) c' X"
    using h X A by (auto simp: holds_def c' session_ok_remove)
  moreover have "own_move (owner c) A (A(n := None))" using A by (auto simp: own_move_def)
  moreover have "held c' n = None" by (simp add: c')
  moreover have "detach_ledger c n A = A(n := None)" by (simp add: detach_ledger_def hn)
  ultimately show ?thesis by simp
qed

section \<open>Claiming\<close>

text \<open>What a waiting registration has claimed.\<close>

fun port_slot :: "port_kind \<Rightarrow> u16 \<Rightarrow> slot" where
  "port_slot TcpPorts p = TcpSlot p"
| "port_slot UdpPorts p = UdpSlot p"

fun claimed :: "pc \<Rightarrow> string \<rightharpoonup> slot" where
  "claimed Idle = Map.empty"
| "claimed (PortClaimed k np) = [nt_tunnel_name np \<mapsto> port_slot k (ucast (nt_remote_port np))]"
| "claimed (PortStarted k np t) = [nt_tunnel_name np \<mapsto> port_slot k (ucast (nt_remote_port np))]"
| "claimed (HttpClaimed np p) = [nt_tunnel_name np \<mapsto> Reserved]"
| "claimed (HttpStarted np p t) = [nt_tunnel_name np \<mapsto> HttpSlot]"
| "claimed (HttpsClaimed np p) = [nt_tunnel_name np \<mapsto> Reserved]"
| "claimed (HttpsStarted np p t) = [nt_tunnel_name np \<mapsto> HttpsSlot]"

text \<open>The tunnel of a waiting registration fits its claim.\<close>

fun pc_ok :: "pc \<Rightarrow> bool" where
  "pc_ok (PortStarted k np t) \<longleftrightarrow>
     slot_of t = port_slot k (ucast (nt_remote_port np)) \<and> named (nt_tunnel_name np) t"
| "pc_ok (HttpStarted np p t) \<longleftrightarrow> named (nt_tunnel_name np) (HttpReg t)"
| "pc_ok (HttpsStarted np p t) \<longleftrightarrow> named (nt_tunnel_name np) (HttpsReg t)"
| "pc_ok _ \<longleftrightarrow> True"

lemma implements_names: "implements sh A \<Longrightarrow> by_name (sh_names sh) n = map_option fst (A n)"
  by (simp add: implements_def)

lemma implements_set_names:
  "http_routed (sh\<lparr>sh_names := ns\<rparr>) = http_routed sh" "https_routed (sh\<lparr>sh_names := ns\<rparr>) = https_routed sh"
  "gw_ok (sh\<lparr>sh_names := ns\<rparr>) = gw_ok sh" "unrouted (sh\<lparr>sh_names := ns\<rparr>) = unrouted sh"
  by (simp_all add: http_routed_def https_routed_def gw_ok_def unrouted_def fun_eq_iff)

lemma set_ports_fields [simp]:
  "sh_names (set_ports k t sh) = sh_names sh" "sh_http_gw (set_ports k t sh) = sh_http_gw sh"
  "sh_https_gw (set_ports k t sh) = sh_https_gw sh"
  by (cases k; simp)+

lemma implements_set_ports:
  "http_routed (set_ports k t sh) = http_routed sh" "https_routed (set_ports k t sh) = https_routed sh"
  "gw_ok (set_ports k t sh) = gw_ok sh"
  by (simp_all add: http_routed_def https_routed_def gw_ok_def fun_eq_iff)

lemma prepare_ledger:
  assumes "implements sh A" and "holds A c X" and "X n = None" and "prepare_name_slot n now c sh = (c', sh')"
  shows "implements sh' (detach_ledger c n A) \<and> holds (detach_ledger c n A) c' X \<and>
    own_move (owner c) A (detach_ledger c n A) \<and> held c' n = None"
proof -
  obtain r c1 sh1 where det: "detach_tunnel n c sh = (r, c1, sh1)" by (cases "detach_tunnel n c sh")
  with assms(4) have "c' = c1" and "sh' = sh1 \<or> (\<exists>m. sh' = sh1\<lparr>sh_metrics := m\<rparr>)"
    by (auto simp: prepare_name_slot_def metrics_close_tunnel_def split: option.splits)
  with detach_holds [OF assms(1-3) det] show ?thesis by auto
qed

lemma prepare_holds:
  assumes "implements sh A" and "holds A c X" and "X n = None" and "prepare_name_slot n now c sh = (c', sh')"
  shows "\<exists>A'. implements sh' A' \<and> holds A' c' X \<and> own_move (owner c) A A' \<and> held c' n = None"
  using prepare_ledger [OF assms] by blast

text \<open>A fresh name gets a slot without a port.\<close>

lemma insert_name:
  assumes impl: "implements sh A" and ins: "try_insert (sh_names sh) n ow = (Inr (), ns)" and n: "trim n = n"
    and free: "shows_slots (sh_tcp_ports sh) TcpSlot (A(n \<mapsto> (ow, s)))"
      "shows_slots (sh_udp_ports sh) UdpSlot (A(n \<mapsto> (ow, s)))"
  shows "A n = None \<and> implements (sh\<lparr>sh_names := ns\<rparr>) (A(n \<mapsto> (ow, s)))"
proof -
  have A: "A n = None" and ns: "by_name ns = (by_name (sh_names sh))(n \<mapsto> ow)"
    using ins n implements_names [OF impl, of n] by (auto simp: try_insert_def Let_def split: if_splits option.splits)
  moreover have "by_name (sh_names sh) = (\<lambda>n. map_option fst (A n))" using impl by (simp add: implements_def)
  ultimately show ?thesis
    using impl free by (auto simp: implements_def implements_set_names)
qed

lemma try_insert_Inl: "try_insert t n ow = (Inl e, t') \<Longrightarrow> t' = t"
  by (auto simp: try_insert_def Let_def split: if_splits option.splits)

lemma claim_Inl: "claim t p n = (Inl e, t') \<Longrightarrow> t' = t"
  by (auto simp: claim_def split: if_splits option.splits)

lemma set_ports_same [simp]: "set_ports k (ports_of k sh) sh = sh"
  by (cases k) simp_all

lemma remove_after_insert:
  assumes "try_insert t n ow = (Inr (), t')" and "trim n = n"
  shows "remove_if_owner t' n ow = t"
  using assms
  by (cases t) (auto simp: try_insert_def remove_if_owner_def Let_def fun_eq_iff split: if_splits option.splits)

lemma insert_name_port:
  assumes impl: "implements sh A" and ins: "try_insert (sh_names sh) n ow = (Inr (), ns)" and n: "trim n = n"
    and cl: "claim (ports_of k sh) p n = (Inr (), t)"
  shows "A n = None \<and> implements (set_ports k t (sh\<lparr>sh_names := ns\<rparr>)) (A(n \<mapsto> (ow, port_slot k p)))"
proof -
  have A: "A n = None" and ns: "by_name ns = (by_name (sh_names sh))(n \<mapsto> ow)"
    using ins n implements_names [OF impl, of n] by (auto simp: try_insert_def Let_def split: if_splits option.splits)
  moreover have "by_name (sh_names sh) = (\<lambda>n. map_option fst (A n))" using impl by (simp add: implements_def)
  moreover have "shows_slots (sh_tcp_ports (set_ports k t sh)) TcpSlot (A(n \<mapsto> (ow, port_slot k p)))"
    using impl cl A by (cases k) (auto simp: implements_def intro: shows_slots_claim shows_slots_other)
  moreover have "shows_slots (sh_udp_ports (set_ports k t sh)) UdpSlot (A(n \<mapsto> (ow, port_slot k p)))"
    using impl cl A by (cases k) (auto simp: implements_def intro: shows_slots_claim shows_slots_other)
  moreover have "sh_tcp_ports (set_ports k t (sh\<lparr>sh_names := ns\<rparr>)) = sh_tcp_ports (set_ports k t sh)"
    "sh_udp_ports (set_ports k t (sh\<lparr>sh_names := ns\<rparr>)) = sh_udp_ports (set_ports k t sh)"
    by (cases k; simp)+
  ultimately show ?thesis
    using impl by (auto simp: implements_def implements_set_names implements_set_ports)
qed

lemma holds_claim:
  "holds A c Map.empty \<Longrightarrow> held c n = None \<Longrightarrow> holds (A(n \<mapsto> (owner c, s))) c [n \<mapsto> s]"
  by (auto simp: holds_def)

lemma own_move_claim: "A n = None \<Longrightarrow> own_move ow A (A(n \<mapsto> (ow, s)))"
  by (auto simp: own_move_def)

lemma claim_name_cases:
  assumes "claim_name n now c sh = (r, c', sh')"
  obtains e sh1 where "prepare_name_slot n now c sh = (c', sh1)" "r = Inl (TableError e)" "sh' = sh1"
  | ns sh1 where "prepare_name_slot n now c sh = (c', sh1)" "r = Inr (owner c)"
      "try_insert (sh_names sh1) n (owner c) = (Inr (), ns)" "sh' = sh1\<lparr>sh_names := ns\<rparr>"
proof -
  obtain sh1 where p: "prepare_name_slot n now c sh = (c', sh1)"
    using assms by (auto simp: claim_name_def Let_def split: prod.splits sum.splits)
  obtain x ns where i: "try_insert (sh_names sh1) n (owner c) = (x, ns)" by (cases "try_insert (sh_names sh1) n (owner c)")
  show thesis
    using assms p i that by (cases x) (auto simp: claim_name_def Let_def dest: try_insert_Inl)
qed

text \<open>The outcome of a step: what the session has claimed afterwards.\<close>

definition step_ok :: "ledger \<Rightarrow> TunnelOwner \<Rightarrow> pc \<times> Control \<times> Shared \<Rightarrow> bool" where
  "step_ok A ow st \<longleftrightarrow>
     (case st of (pc, c, sh) \<Rightarrow>
        \<exists>A'. implements sh A' \<and> holds A' c (claimed pc) \<and> pc_ok pc \<and> own_move ow A A' \<and> owner c = ow)"

lemma step_okI:
  "implements sh A' \<Longrightarrow> holds A' c (claimed pc) \<Longrightarrow> pc_ok pc \<Longrightarrow> own_move ow A A' \<Longrightarrow> owner c = ow \<Longrightarrow>
    step_ok A ow (pc, c, sh)"
  by (auto simp: step_ok_def)

lemma ctl_write_fields [simp]:
  "owner (snd (ctl_write m c)) = owner c" "co_tunnels (snd (ctl_write m c)) = co_tunnels c"
  by (simp_all add: ctl_write_def owner_def)

lemma holds_cong: "owner c' = owner c \<Longrightarrow> co_tunnels c' = co_tunnels c \<Longrightarrow> holds A c' X = holds A c X"
  by (simp add: holds_def held_def session_ok_def)

lemma step_ok_answer [simp]:
  "step_ok A ow (reg_answer to_string np (res, c, sh)) \<longleftrightarrow> step_ok A ow (Idle, c, sh)"
  using holds_cong [of "snd (ctl_write (tunnel_response to_string np res) c)" c]
  by (simp add: step_ok_def reg_answer_def)

lemma claim_gw_ok:
  assumes impl: "implements sh A" and h: "holds A c Map.empty" and n: "trim n = n"
    and cl: "claim_name n now c sh = (r, c', sh')"
    and pc: "claimed pc = [n \<mapsto> Reserved]" "pc_ok pc"
  shows "step_ok A (owner c) (case r of Inl _ \<Rightarrow> Idle | Inr _ \<Rightarrow> pc, c', sh')"
  using cl
proof (cases rule: claim_name_cases)
  case (1 e sh1)
  with prepare_holds [OF impl h _ 1(1)] prepare_owner [OF 1(1)] show ?thesis by (auto simp: step_ok_def)
next
  case (2 ns sh1)
  obtain A1 where A1: "implements sh1 A1" "holds A1 c' Map.empty" "own_move (owner c) A A1" "held c' n = None"
    using prepare_holds [OF impl h _ 2(1)] by auto
  have ow: "owner c' = owner c" using prepare_owner [OF 2(1)] .
  have none: "A1 n = None"
    using 2(3) n implements_names [OF A1(1), of n] by (auto simp: try_insert_def Let_def split: if_splits option.splits)
  then have "shows_slots (sh_tcp_ports sh1) TcpSlot (A1(n \<mapsto> (owner c, Reserved)))"
    "shows_slots (sh_udp_ports sh1) UdpSlot (A1(n \<mapsto> (owner c, Reserved)))"
    using A1(1) by (auto simp: implements_def intro!: shows_slots_other)
  from insert_name [OF A1(1) 2(3) n this] show ?thesis
    using holds_claim [OF A1(2,4), of Reserved] own_move_trans [OF A1(3) own_move_claim [of A1 n, OF none]] pc ow 2
    by (auto simp: step_ok_def)
qed

lemma claim_port_ok:
  assumes impl: "implements sh A" and h: "holds A c Map.empty" and n: "trim (nt_tunnel_name np) = nt_tunnel_name np"
    and cl: "register_port_claim k np now c sh = (r, c', sh')"
  shows "step_ok A (owner c) (case r of Inl _ \<Rightarrow> Idle | Inr _ \<Rightarrow> PortClaimed k np, c', sh')"
proof -
  let ?n = "nt_tunnel_name np" and ?p = "ucast (nt_remote_port np) :: u16"
  obtain r1 c1 sh1 where cn: "claim_name ?n now c sh = (r1, c1, sh1)" by (cases "claim_name ?n now c sh")
  then show ?thesis
  proof (cases rule: claim_name_cases)
    case (1 e sh1')
    with cl cn have "r = Inl (TableError e)" "c' = c1" "sh' = sh1'" by (auto simp: register_port_claim_def)
    with prepare_holds [OF impl h _ 1(1)] prepare_owner [OF 1(1)] show ?thesis by (auto simp: step_ok_def)
  next
    case (2 ns sh2)
    obtain A1 where A1: "implements sh2 A1" "holds A1 c1 Map.empty" "own_move (owner c) A A1" "held c1 ?n = None"
      using prepare_holds [OF impl h _ 2(1)] by auto
    have ow: "owner c1 = owner c" using prepare_owner [OF 2(1)] .
    obtain x t where x: "claim (ports_of k sh2) ?p ?n = (x, t)" by (cases "claim (ports_of k sh2) ?p ?n")
    have ps: "ports_of k (sh2\<lparr>sh_names := ns\<rparr>) = ports_of k sh2" by (cases k) simp_all
    show ?thesis
    proof (cases x)
      case (Inl e)
      have "release_name ?n (owner c) (sh2\<lparr>sh_names := ns\<rparr>) = sh2"
        using remove_after_insert [OF 2(3) n] by (simp add: release_name_def)
      with Inl x claim_Inl cl cn 2 ps have "r = Inl (TableError e)" "c' = c1" "sh' = sh2"
        by (auto simp: register_port_claim_def claim_port_def) (metis set_ports_same)+
      with A1 ow show ?thesis by (auto simp: step_ok_def)
    next
      case (Inr u)
      with x cl cn 2 ps have r: "r = Inr (owner c)" "c' = c1" "sh' = set_ports k t (sh2\<lparr>sh_names := ns\<rparr>)"
        by (auto simp: register_port_claim_def claim_port_def)
      have "claim (ports_of k sh2) ?p ?n = (Inr (), t)" using x Inr by simp
      from insert_name_port [OF A1(1) 2(3) n this] r show ?thesis
        using holds_claim [OF A1(2,4), of "port_slot k ?p"] own_move_trans [OF A1(3) own_move_claim] ow
        by (auto simp: step_ok_def)
    qed
  qed
qed

lemma reg_begin_ok:
  assumes impl: "implements sh A" and h: "holds A c Map.empty" and n: "trim (nt_tunnel_name np) = nt_tunnel_name np"
  shows "step_ok A (owner c) (reg_begin to_string np now c sh)"
proof -
  have idle: "step_ok A (owner c) (Idle, c, sh)" using impl h by (auto simp: step_ok_def)
  have port: "step_ok A (owner c) (reg_begin_port to_string k np now c sh)" for k
    using idle claim_port_ok [OF impl h n, of k now]
    by (cases "register_port_claim k np now c sh"; cases "fst (register_port_claim k np now c sh)")
      (fastforce simp: reg_begin_port_def)+
  have gw: "step_ok A (owner c) (reg_begin_gw to_string d p pc np now c sh)"
    if "\<And>q. claimed (pc q) = [nt_tunnel_name np \<mapsto> Reserved] \<and> pc_ok (pc q)" for d p pc
    using idle claim_gw_ok [OF impl h n, of now] that
    by (cases p; cases "claim_name (nt_tunnel_name np) now c sh"; cases "fst (claim_name (nt_tunnel_name np) now c sh)")
      (fastforce simp: reg_begin_gw_def)+
  show ?thesis using idle port gw by (simp add: reg_begin_def)
qed

section \<open>Starting and inserting\<close>

text \<open>Giving up a claim.\<close>

definition port_entry :: "port_kind \<Rightarrow> string \<Rightarrow> u16 \<Rightarrow> TunnelEntry" where
  "port_entry k n p =
     \<lparr>te_tunnel = (case k of TcpPorts \<Rightarrow> TcpReg \<lparr>tt_name = n, tt_remote_port = p\<rparr>
                           | UdpPorts \<Rightarrow> UdpReg \<lparr>ut_name = n, ut_remote_port = p\<rparr>), te_local_addr = []\<rparr>"

lemma slot_port_entry [simp]: "slot_of (te_tunnel (port_entry k n p)) = port_slot k p"
  by (cases k) (simp_all add: port_entry_def)

lemma release_port_claim:
  "release_name n (owner c) (release_port k p n sh) = release_global_slot c n (detached (port_entry k n p)) sh"
  by (cases k) (simp_all add: release_name_def release_port_def release_global_slot_def detached_def port_entry_def)

lemma release_gw_claim:
  "release_name n (owner c) sh = release_global_slot c n \<lparr>dt_tunnel_type = ty, dt_remote_port = None\<rparr> sh"
  by (simp add: release_name_def release_global_slot_def)

lemma unrouted_slot:
  "implements sh A \<Longrightarrow> A n = Some (ow, s) \<Longrightarrow> s \<noteq> HttpSlot \<Longrightarrow> s \<noteq> HttpsSlot \<Longrightarrow> unrouted sh n"
  by (auto simp: implements_def unrouted_def)

lemma release_reserved:
  assumes impl: "implements sh A" and A: "A n = Some (ow, s)" and s: "s \<in> {Reserved, HttpSlot, HttpsSlot}" and un: "unrouted sh n"
  shows "implements (release_name n ow sh) (A(n := None))"
proof -
  have "by_name (remove_if_owner (sh_names sh) n ow) = (\<lambda>m. map_option fst ((A(n := None)) m))"
    using impl A by (auto simp: implements_def remove_if_owner_def fun_eq_iff)
  moreover have "shows_slots (sh_tcp_ports sh) TcpSlot (A(n := None))" "shows_slots (sh_udp_ports sh) UdpSlot (A(n := None))"
    using impl A s by (auto simp: implements_def intro!: shows_slots_other)
  ultimately show ?thesis
    using impl un by (auto simp: implements_def release_name_def implements_set_names unrouted_def)
qed

lemma holds_claimed: "holds A c [n \<mapsto> s] \<Longrightarrow> A n = Some (owner c, s) \<and> held c n = None"
  by (auto simp: holds_def)

lemma holds_release: "holds A c [n \<mapsto> s] \<Longrightarrow> holds (A(n := None)) c Map.empty"
  by (auto simp: holds_def)

lemma holds_change: "holds A c [n \<mapsto> s] \<Longrightarrow> holds (A(n \<mapsto> (owner c, s'))) c [n \<mapsto> s']"
  by (auto simp: holds_def)

lemma own_move_mine: "A n = Some (ow, s) \<Longrightarrow> fst ` set_option v \<subseteq> {ow} \<Longrightarrow> own_move ow A (A(n := v))"
  by (auto simp: own_move_def)

lemma port_start_ok:
  assumes impl: "implements sh A" and h: "holds A c (claimed (PortClaimed k np))"
  shows "step_ok A (owner c) (reg_continue to_string bind now (PortClaimed k np, c, sh))"
proof -
  let ?n = "nt_tunnel_name np" and ?p = "ucast (nt_remote_port np) :: u16"
  have A: "A ?n = Some (owner c, port_slot k ?p)" using holds_claimed h by simp
  obtain r sh' where st: "register_port_start bind k np (owner c) c sh = (r, sh')"
    by (cases "register_port_start bind k np (owner c) c sh")
  show ?thesis
  proof (cases r)
    case (Inl e)
    then have "sh' = release_global_slot c ?n (detached (port_entry k ?n ?p)) sh"
      using st by (auto simp: register_port_start_def Let_def release_port_claim split: sum.splits)
    moreover have "unrouted sh ?n" by (rule unrouted_slot [OF impl A]; cases k; simp)
    ultimately have "implements sh' (A(?n := None))"
      using release_implements [OF impl, of ?n c "port_entry k ?n ?p"] A by simp
    then have "step_ok A (owner c) (Idle, c, sh')"
      by (rule step_okI) (use h A in \<open>simp_all add: holds_release own_move_mine\<close>)
    with Inl st show ?thesis by simp
  next
    case (Inr t)
    then have "sh' = sh" "slot_of t = port_slot k ?p" "named ?n t"
      using st by (cases k; auto simp: register_port_start_def Let_def TcpTunnel_start_def UdpTunnel_start_def
          split: option.splits)+
    with Inr st impl h show ?thesis by (auto simp: step_ok_def)
  qed
qed

lemma insert_ok:
  assumes impl: "implements sh A" and h: "holds A c [n \<mapsto> slot_of t]" and nm: "named n t"
    and ins: "insert_tunnel n t la ra (owner c) ps now c sh = (r, c', sh')"
  shows "step_ok A (owner c) (Idle, c', sh')"
proof -
  have none: "map_of (tm_tunnels (co_tunnels c)) n = None" using holds_claimed [OF h] by (simp add: held_def)
  let ?e = "\<lparr>te_tunnel = t, te_local_addr = la\<rparr>"
  let ?c = "c\<lparr>co_tunnels := (co_tunnels c)\<lparr>tm_tunnels := (n, ?e) # tm_tunnels (co_tunnels c)\<rparr>\<rparr>"
  have "c' = ?c" "implements sh' A"
    using ins none impl by (auto simp: insert_tunnel_def tm_insert_def note_tunnel_registered_def)
  moreover have "held ?c = (held c)(n \<mapsto> slot_of t)" by (auto simp: held_def)
  moreover have "session_ok ?c"
    using h none nm by (auto simp: holds_def session_ok_def map_of_eq_None_iff)
  ultimately show ?thesis using h by (auto simp: step_ok_def holds_def intro!: exI [of _ A])
qed

text \<open>What registering in a gateway does to the routes.\<close>

lemma HttpTunnel_register_origin:
  assumes "http_wf g" and reg: "HttpTunnel_register np ow g dom_root limiter = (res, g')" and "http_table g' kl = Some w"
  shows "http_table g kl = Some w \<and> (hr_tunnel_name w \<noteq> nt_tunnel_name np \<or> g' = g) \<or>
    (\<exists>t. res = Inr t) \<and> hr_tunnel_name w = nt_tunnel_name np \<and> hr_control w = ow"
proof (cases "build_domains (nt_domains np) dom_root")
  case (Inl e)
  with reg assms(3) show ?thesis by (auto simp: HttpTunnel_register_def)
next
  case (Inr ds)
  let ?all = "register_all http_register http_unregister_tunnel (nt_tunnel_name np)
    (http_unregister_tunnel g (nt_tunnel_name np)) (http_routes np ow limiter ds)"
  have "snd ?all = g'" and "fst ?all = Inr () \<Longrightarrow> \<exists>t. res = Inr t"
    using reg Inr by (auto simp: HttpTunnel_register_def Let_def split: prod.splits sum.splits)
  moreover have "hr_tunnel_name v = nt_tunnel_name np \<and> hr_control v = ow" if "v \<in> snd ` set (http_routes np ow limiter ds)" for v
    using that by (auto simp: http_routes_def)
  moreover have "hr_tunnel_name w \<noteq> nt_tunnel_name np \<and> http_table g kl = Some w \<or>
      fst ?all = Inr () \<and> w \<in> snd ` set (http_routes np ow limiter ds)"
    by (rule http.register_all_origin [OF assms(1) http_routes_tunnel]) (use \<open>snd ?all = g'\<close> assms(3) in simp)
  ultimately show ?thesis by blast
qed

lemma HttpsTunnel_register_origin:
  assumes reg: "HttpsTunnel_register np ow g dom_root limiter = (res, g')" and "sg_routes g' key = Some w"
  shows "sg_routes g key = Some w \<and> (sr_tunnel_name w \<noteq> nt_tunnel_name np \<or> g' = g) \<or>
    (\<exists>t. res = Inr t) \<and> sr_tunnel_name w = nt_tunnel_name np \<and> sr_control w = ow"
proof (cases "build_domains (nt_domains np) dom_root")
  case (Inl e)
  with reg assms(2) show ?thesis by (auto simp: HttpsTunnel_register_def)
next
  case (Inr ds)
  let ?all = "register_all https_register https_unregister_tunnel (nt_tunnel_name np)
    (https_unregister_tunnel g (nt_tunnel_name np)) (https_routes np ow limiter ds)"
  have "snd ?all = g'" and "fst ?all = Inr () \<Longrightarrow> \<exists>t. res = Inr t"
    using reg Inr by (auto simp: HttpsTunnel_register_def Let_def split: prod.splits sum.splits)
  moreover have "sr_tunnel_name v = nt_tunnel_name np \<and> sr_control v = ow" if "v \<in> snd ` set (https_routes np ow limiter ds)" for v
    using that by (auto simp: https_routes_def)
  moreover have "sr_tunnel_name w \<noteq> nt_tunnel_name np \<and> sg_routes g key = Some w \<or>
      fst ?all = Inr () \<and> w \<in> snd ` set (https_routes np ow limiter ds)"
    by (rule https.register_all_origin [OF TrueI https_routes_tunnel]) (use \<open>snd ?all = g'\<close> assms(2) in simp)
  ultimately show ?thesis by blast
qed

lemma register_named:
  "HttpTunnel_register np ow g dom_root limiter = (Inr t, g') \<Longrightarrow> ht_name t = nt_tunnel_name np \<and> \<not> ht_closed t"
  "HttpsTunnel_register np ow gs dom_root limiter = (Inr t', gs') \<Longrightarrow> hst_name t' = nt_tunnel_name np \<and> \<not> hst_closed t'"
  by (auto simp: HttpTunnel_register_def HttpsTunnel_register_def Let_def split: prod.splits sum.splits)

lemma http_start_ok:
  assumes impl: "implements sh A" and h: "holds A c (claimed (HttpClaimed np p))" and gw: "sh_http_gw sh = Some gw"
  shows "step_ok A (owner c) (reg_continue to_string bind now (HttpClaimed np p, c, sh))"
proof -
  let ?n = "nt_tunnel_name np"
  obtain res gw' where reg: "HttpTunnel_register np (owner c) gw (sc_root_domain (co_cfg c)) (tunnel_transport np) = (res, gw')"
    by (cases "HttpTunnel_register np (owner c) gw (sc_root_domain (co_cfg c)) (tunnel_transport np)")
  have wf: "http_wf gw" using impl gw by (simp add: implements_def gw_ok_def)
  have A: "A ?n = Some (owner c, Reserved)" using holds_claimed h by simp
  have un: "unrouted sh ?n" by (rule unrouted_slot [OF impl A]) simp_all
  let ?sh = "sh\<lparr>sh_http_gw := Some gw'\<rparr>"
  have ok: "gw_ok ?sh" using HttpTunnel_register_wf [OF wf reg] by (simp add: gw_ok_def)
  have same: "https_routed ?sh = https_routed sh" by (simp add: https_routed_def fun_eq_iff)
  have routed: "http_routed sh n ow \<or> (\<exists>t. res = Inr t) \<and> n = ?n \<and> ow = owner c" if "http_routed ?sh n ow" for n ow
    using that HttpTunnel_register_origin [OF wf reg] gw by (fastforce simp: http_routed_def)
  show ?thesis
  proof (cases res)
    case (Inl e)
    have "implements ?sh A" using impl ok same routed Inl by (auto simp: implements_def)
    moreover have "unrouted ?sh ?n" using un routed Inl same by (auto simp: unrouted_def)
    ultimately have "implements (release_name ?n (owner c) ?sh) (A(?n := None))"
      using A by (intro release_reserved [of _ A ?n "owner c" Reserved]) simp_all
    then have "step_ok A (owner c) (Idle, c, release_name ?n (owner c) ?sh)"
      by (rule step_okI) (use h A in \<open>simp_all add: holds_release own_move_mine\<close>)
    with Inl reg gw show ?thesis by (simp add: register_http_start_def)
  next
    case (Inr t)
    let ?A = "A(?n \<mapsto> (owner c, HttpSlot))"
    have "shows_slots (sh_tcp_ports sh) TcpSlot ?A" "shows_slots (sh_udp_ports sh) UdpSlot ?A"
      using impl A by (auto simp: implements_def intro!: shows_slots_other)
    then have "implements ?sh ?A"
      using impl ok same routed A un by (fastforce simp: implements_def unrouted_def fun_eq_iff)
    then have "step_ok A (owner c) (HttpStarted np p t, c, ?sh)"
      by (rule step_okI) (use h A register_named(1) reg Inr in \<open>simp_all add: holds_change own_move_mine\<close>)
    with Inr reg gw show ?thesis by (simp add: register_http_start_def)
  qed
qed

lemma https_start_ok:
  assumes impl: "implements sh A" and h: "holds A c (claimed (HttpsClaimed np p))" and gw: "sh_https_gw sh = Some gw"
  shows "step_ok A (owner c) (reg_continue to_string bind now (HttpsClaimed np p, c, sh))"
proof -
  let ?n = "nt_tunnel_name np"
  obtain res gw' where reg: "HttpsTunnel_register np (owner c) gw (sc_root_domain (co_cfg c)) (tunnel_transport np) = (res, gw')"
    by (cases "HttpsTunnel_register np (owner c) gw (sc_root_domain (co_cfg c)) (tunnel_transport np)")
  have A: "A ?n = Some (owner c, Reserved)" using holds_claimed h by simp
  have un: "unrouted sh ?n" by (rule unrouted_slot [OF impl A]) simp_all
  let ?sh = "sh\<lparr>sh_https_gw := Some gw'\<rparr>"
  have ok: "gw_ok ?sh = gw_ok sh" and same: "http_routed ?sh = http_routed sh"
    by (simp_all add: gw_ok_def http_routed_def fun_eq_iff)
  have routed: "https_routed sh n ow \<or> (\<exists>t. res = Inr t) \<and> n = ?n \<and> ow = owner c" if "https_routed ?sh n ow" for n ow
    using that HttpsTunnel_register_origin [OF reg] gw by (fastforce simp: https_routed_def)
  show ?thesis
  proof (cases res)
    case (Inl e)
    have "implements ?sh A" using impl ok same routed Inl by (auto simp: implements_def)
    moreover have "unrouted ?sh ?n" using un routed Inl same by (auto simp: unrouted_def)
    ultimately have "implements (release_name ?n (owner c) ?sh) (A(?n := None))"
      using A by (intro release_reserved [of _ A ?n "owner c" Reserved]) simp_all
    then have "step_ok A (owner c) (Idle, c, release_name ?n (owner c) ?sh)"
      by (rule step_okI) (use h A in \<open>simp_all add: holds_release own_move_mine\<close>)
    with Inl reg gw show ?thesis by (simp add: register_https_start_def)
  next
    case (Inr t)
    let ?A = "A(?n \<mapsto> (owner c, HttpsSlot))"
    have "shows_slots (sh_tcp_ports sh) TcpSlot ?A" "shows_slots (sh_udp_ports sh) UdpSlot ?A"
      using impl A by (auto simp: implements_def intro!: shows_slots_other)
    then have "implements ?sh ?A"
      using impl ok same routed A un by (fastforce simp: implements_def unrouted_def fun_eq_iff)
    then have "step_ok A (owner c) (HttpsStarted np p t, c, ?sh)"
      by (rule step_okI) (use h A register_named(2) reg Inr in \<open>simp_all add: holds_change own_move_mine\<close>)
    with Inr reg gw show ?thesis by (simp add: register_https_start_def)
  qed
qed

text \<open>A registration that waits for a gateway has found it.\<close>

fun pc_gw :: "Shared \<Rightarrow> pc \<Rightarrow> bool" where
  "pc_gw sh (HttpClaimed np p) \<longleftrightarrow> sh_http_gw sh \<noteq> None"
| "pc_gw sh (HttpsClaimed np p) \<longleftrightarrow> sh_https_gw sh \<noteq> None"
| "pc_gw sh _ \<longleftrightarrow> True"

lemma reg_continue_ok:
  assumes "implements sh A" and "holds A c (claimed pc)" and "pc_ok pc" and "pc_gw sh pc"
  shows "step_ok A (owner c) (reg_continue to_string bind now (pc, c, sh))"
proof (cases pc)
  case Idle
  with assms show ?thesis by (auto simp: step_ok_def)
next
  case (PortClaimed k np)
  with assms port_start_ok show ?thesis by simp
next
  case (PortStarted k np t)
  with assms have h: "holds A c [nt_tunnel_name np \<mapsto> slot_of t]" "named (nt_tunnel_name np) t" by simp_all
  show ?thesis
    using PortStarted insert_ok [OF assms(1) h]
    by (cases "register_port_insert k np t (owner c) now c sh") (simp add: register_port_insert_def Let_def)
next
  case (HttpClaimed np p)
  with assms http_start_ok show ?thesis by auto
next
  case (HttpStarted np p t)
  with assms have h: "holds A c [nt_tunnel_name np \<mapsto> slot_of (HttpReg t)]" "named (nt_tunnel_name np) (HttpReg t)"
    by simp_all
  show ?thesis using HttpStarted insert_ok [OF assms(1) h] by simp (metis prod_cases3 step_ok_answer)
next
  case (HttpsClaimed np p)
  with assms https_start_ok show ?thesis by auto
next
  case (HttpsStarted np p t)
  with assms have h: "holds A c [nt_tunnel_name np \<mapsto> slot_of (HttpsReg t)]" "named (nt_tunnel_name np) (HttpsReg t)"
    by simp_all
  show ?thesis using HttpsStarted insert_ok [OF assms(1) h] by simp (metis prod_cases3 step_ok_answer)
qed

section \<open>The end of a session\<close>

lemma fold_close_implements:
  "implements sh A \<Longrightarrow> implements (fold (\<lambda>(n, e). RegisteredTunnel_close (te_tunnel e)) l sh) A"
  by (induction l arbitrary: sh) (auto simp: close_implements)

lemma fold_close_unrouted:
  "implements sh A \<Longrightarrow> unrouted sh n \<Longrightarrow> unrouted (fold (\<lambda>(n, e). RegisteredTunnel_close (te_tunnel e)) l sh) n"
proof (induction l arbitrary: sh)
  case Nil
  then show ?case by simp
next
  case (Cons x l)
  then have "unrouted (RegisteredTunnel_close (te_tunnel (snd x)) sh) n"
    by (auto simp: implements_def intro: close_keeps_unrouted)
  with Cons show ?case by (simp add: close_implements case_prod_beta)
qed

lemma fold_close_unroutes:
  assumes "implements sh A" and "\<forall>(n, e) \<in> set l. A n = Some (ow, slot_of (te_tunnel e)) \<and> named n (te_tunnel e)"
    and "(n, e) \<in> set l"
  shows "unrouted (fold (\<lambda>(n, e). RegisteredTunnel_close (te_tunnel e)) l sh) n"
  using assms
proof (induction l arbitrary: sh)
  case Nil
  then show ?case by simp
next
  case (Cons x l)
  obtain m f where x: "x = (m, f)" by (cases x)
  have impl: "implements (RegisteredTunnel_close (te_tunnel f) sh) A" using Cons.prems(1) by (rule close_implements)
  show ?case
  proof (cases "(n, e) = x")
    case True
    then have "unrouted (RegisteredTunnel_close (te_tunnel f) sh) n"
      using Cons.prems(2) x by (intro close_unroutes [OF Cons.prems(1)]) auto
    from fold_close_unrouted [OF impl this] show ?thesis by (simp add: x)
  next
    case False
    with Cons.prems(3) have "(n, e) \<in> set l" by simp
    with Cons.prems(2) Cons.IH [OF impl] show ?thesis by (simp add: x)
  qed
qed

text \<open>The second loop of \<open>shutdown\<close> and of the destructor, with any change of the metrics.\<close>

lemma fold_release_implements:
  assumes "implements sh A" and "distinct (map fst l)"
    and "\<forall>(n, e) \<in> set l. A n = Some (owner c, slot_of (te_tunnel e)) \<and> unrouted sh n"
    and f: "\<And>n d sh. \<exists>m. f n d sh = sh\<lparr>sh_metrics := m\<rparr>"
  shows "implements (fold (\<lambda>(n, d) sh. f n d (release_global_slot c n d sh)) (map (\<lambda>(n, e). (n, detached e)) l) sh)
    (\<lambda>n. if n \<in> fst ` set l then None else A n)"
  using assms(1-3)
proof (induction l arbitrary: sh A)
  case Nil
  then show ?case by simp
next
  case (Cons x l)
  obtain n e where x: "x = (n, e)" by (cases x)
  let ?sh = "f n (detached e) (release_global_slot c n (detached e) sh)"
  have "implements (release_global_slot c n (detached e) sh) (A(n := None))"
    using Cons.prems x by (intro release_implements) auto
  then have impl: "implements ?sh (A(n := None))" using f by (metis implements_metrics)
  have un: "unrouted ?sh m = unrouted sh m" for m
    using f by (metis unrouted_metrics release_routed(4))
  have "implements (fold (\<lambda>(n, d) sh. f n d (release_global_slot c n d sh)) (map (\<lambda>(n, e). (n, detached e)) l) ?sh)
      (\<lambda>m. if m \<in> fst ` set l then None else (A(n := None)) m)"
  proof (rule Cons.IH [OF impl])
    show "distinct (map fst l)" using Cons.prems(2) by simp
    show "\<forall>(m, e) \<in> set l. (A(n := None)) m = Some (owner c, slot_of (te_tunnel e)) \<and> unrouted ?sh m"
    proof clarify
      fix m e'
      assume m: "(m, e') \<in> set l"
      then have "m \<noteq> n" using Cons.prems(2) x by (force simp: image_iff)
      with m Cons.prems(3) un show "(A(n := None)) m = Some (owner c, slot_of (te_tunnel e')) \<and> unrouted ?sh m"
        by (auto simp: x)
    qed
  qed
  moreover have "(\<lambda>m. if m \<in> fst ` set l then None else (A(n := None)) m) =
      (\<lambda>m. if m \<in> fst ` set (x # l) then None else A m)"
    by (auto simp: x fun_eq_iff)
  ultimately show ?case by (simp add: x)
qed

definition forget :: "TunnelOwner \<Rightarrow> ledger \<Rightarrow> ledger" where
  "forget ow A = (\<lambda>n. case A n of Some (o', s) \<Rightarrow> if o' = ow then None else Some (o', s) | None \<Rightarrow> None)"

lemma own_move_forget: "own_move ow A (forget ow A)"
  by (auto simp: own_move_def forget_def split: option.splits if_splits)

lemma holds_map_of:
  assumes "holds A c Map.empty"
  shows "A n = Some (owner c, s) \<longleftrightarrow> (\<exists>e. (n, e) \<in> set (tm_tunnels (co_tunnels c)) \<and> slot_of (te_tunnel e) = s)"
proof -
  have "distinct (map fst (tm_tunnels (co_tunnels c)))" using assms by (simp add: holds_def session_ok_def)
  then have "map_of (tm_tunnels (co_tunnels c)) n = Some e \<longleftrightarrow> (n, e) \<in> set (tm_tunnels (co_tunnels c))" for e
    by simp
  with assms show ?thesis by (auto simp: holds_def held_def)
qed

lemma release_all_implements:
  assumes impl: "implements sh A" and h: "holds A c Map.empty" and c': "owner c' = owner c"
    and f: "\<And>n d sh. \<exists>m. f n d sh = sh\<lparr>sh_metrics := m\<rparr>"
    and close: "close_all (co_tunnels c) sh = (cls, tm, sh1)"
  shows "implements (fold (\<lambda>(n, d) sh. f n d (release_global_slot c' n d sh)) cls sh1) (forget (owner c) A)"
proof -
  let ?l = "tm_tunnels (co_tunnels c)"
  have all: "\<forall>(n, e) \<in> set ?l. A n = Some (owner c, slot_of (te_tunnel e)) \<and> named n (te_tunnel e)"
  proof clarify
    fix n e
    assume "(n, e) \<in> set ?l"
    moreover have "\<forall>(n, e) \<in> set ?l. named n (te_tunnel e)" using h by (simp add: holds_def session_ok_def)
    ultimately show "A n = Some (owner c, slot_of (te_tunnel e)) \<and> named n (te_tunnel e)"
      using holds_map_of [OF h, of n "slot_of (te_tunnel e)"] by auto
  qed
  have sh1: "sh1 = fold (\<lambda>(n, e). RegisteredTunnel_close (te_tunnel e)) ?l sh"
    and cl: "cls = map (\<lambda>(n, e). (n, detached e)) ?l"
    using close by (auto simp: close_all_def)
  have "release_global_slot c' = release_global_slot c"
    using c' by (simp add: release_global_slot_def fun_eq_iff)
  moreover have "implements (fold (\<lambda>(n, d) sh. f n d (release_global_slot c n d sh)) cls sh1)
      (\<lambda>n. if n \<in> fst ` set ?l then None else A n)"
    unfolding cl
  proof (rule fold_release_implements)
    show "implements sh1 A" unfolding sh1 by (rule fold_close_implements [OF impl])
    show "distinct (map fst ?l)" using h by (simp add: holds_def session_ok_def)
    show "\<forall>(n, e) \<in> set ?l. A n = Some (owner c, slot_of (te_tunnel e)) \<and> unrouted sh1 n"
      using all fold_close_unroutes [OF impl all] by (auto simp: sh1)
  qed (rule f)
  moreover have "(\<lambda>n. if n \<in> fst ` set ?l then None else A n) = forget (owner c) A"
  proof
    fix n
    show "(if n \<in> fst ` set ?l then None else A n) = forget (owner c) A n"
      using all holds_map_of [OF h, of n] by (force simp: forget_def split: option.splits)
  qed
  ultimately show ?thesis by simp
qed

text \<open>A session that was shut down is closed and has no tunnels.\<close>

definition fin_ok :: "Control \<Rightarrow> bool" where
  "fin_ok c \<longleftrightarrow> (co_cleaning c \<longleftrightarrow> co_finished c) \<and> (co_finished c \<longrightarrow> co_closed c \<and> tm_tunnels (co_tunnels c) = [])"

lemma shutdown_ok:
  assumes impl: "implements sh A" and h: "holds A c Map.empty" and fin: "fin_ok c"
    and sd: "shutdown now c sh = (c', sh')"
  shows "implements sh' (forget (owner c) A) \<and> holds (forget (owner c) A) c' Map.empty \<and>
    owner c' = owner c \<and> fin_ok c' \<and> co_finished c' \<and> tm_tunnels (co_tunnels c') = []"
proof (cases "co_cleaning c")
  case True
  then have nil: "tm_tunnels (co_tunnels c) = []" and "co_finished c" using fin by (auto simp: fin_ok_def)
  then have "forget (owner c) A = A"
    using holds_map_of [OF h] by (auto simp: forget_def fun_eq_iff split: option.splits)
  moreover have "c' = signal_close c" "sh' = sh" using sd True by (auto simp: shutdown_def signal_close_def Let_def)
  ultimately show ?thesis
    using impl h nil fin True \<open>co_finished c\<close> holds_cong [of c' c A]
    by (simp add: signal_close_def owner_def fin_ok_def)
next
  case False
  let ?c = "(signal_close c)\<lparr>co_cleaning := True\<rparr>"
  obtain cls tm sh1 where cl: "close_all (co_tunnels c) sh = (cls, tm, sh1)" by (cases "close_all (co_tunnels c) sh")
  let ?f = "\<lambda>n d. metrics_close_tunnel n (dt_tunnel_type d) now"
  have "implements (fold (\<lambda>(n, d) sh. ?f n d (release_global_slot ?c n d sh)) cls sh1) (forget (owner c) A)"
    by (rule release_all_implements [OF impl h _ _ cl])
      (auto simp: owner_def signal_close_def metrics_close_tunnel_def)
  moreover have "tm_tunnels tm = []" using cl by (auto simp: close_all_def)
  moreover have "sh' = fold (\<lambda>(n, d) sh. ?f n d (release_global_slot ?c n d sh)) cls sh1"
    and "c' = ?c\<lparr>co_tunnels := tm, co_writer_open := False, co_finished := True\<rparr>"
    using sd cl False by (auto simp: shutdown_def Let_def signal_close_def)
  ultimately show ?thesis
    by (auto simp: holds_def held_def session_ok_def owner_def fin_ok_def signal_close_def forget_def
        split: option.splits if_splits)
qed

lemma drop_ok:
  assumes impl: "implements sh A" and h: "holds A c Map.empty" and fin: "fin_ok c"
  shows "implements (Control_drop c sh) (forget (owner c) A)"
proof -
  obtain cls tm sh1 where cl: "close_all (co_tunnels c) sh = (cls, tm, sh1)" by (cases "close_all (co_tunnels c) sh")
  have same: "\<exists>m. x = x\<lparr>sh_metrics := m\<rparr>" for x :: Shared by (rule exI [of _ "sh_metrics x"]) simp
  have rel: "implements (fold (\<lambda>(n, d) sh. release_global_slot c n d sh) cls sh1) (forget (owner c) A)"
    by (rule release_all_implements [OF impl h refl same cl])
  show ?thesis
  proof (cases "co_finished c")
    case True
    then have "cls = []" using fin cl by (auto simp: fin_ok_def close_all_def)
    with rel True cl show ?thesis by (simp add: Control_drop_def abandon_all_def)
  next
    case False
    with rel cl show ?thesis by (simp add: Control_drop_def abandon_all_def)
  qed
qed

end
