(* ===== verification/Control_Server.thy ===== *)
theory Control_Server
  imports Control_Ledger
begin

text \<open>
  All control sessions of a server together, as a step system over the shared state: sessions
  connect, register tunnels in steps that interleave with those of other sessions, close tunnels,
  are shut down and dropped. The properties of this theory hold in every state of such a run.
\<close>

section \<open>Runs of the server\<close>

text \<open>What no handler of a session changes before its end: the identity and the flags of the session,
  and which gateways there are.\<close>

definition frame :: "Control \<Rightarrow> Shared \<Rightarrow> Control \<Rightarrow> Shared \<Rightarrow> bool" where
  "frame c sh c' sh' \<longleftrightarrow>
     owner c' = owner c \<and> co_closed c' = co_closed c \<and> co_cleaning c' = co_cleaning c \<and> co_finished c' = co_finished c \<and>
     co_activated c' = co_activated c \<and>
     (sh_http_gw sh' = None \<longleftrightarrow> sh_http_gw sh = None) \<and> (sh_https_gw sh' = None \<longleftrightarrow> sh_https_gw sh = None)"

lemma frame_refl [simp]: "frame c sh c sh"
  by (simp add: frame_def)

lemma frame_trans: "frame c sh c1 sh1 \<Longrightarrow> frame c1 sh1 c2 sh2 \<Longrightarrow> frame c sh c2 sh2"
  by (auto simp: frame_def)

lemma close_gw [simp]:
  "sh_http_gw (RegisteredTunnel_close t sh) = None \<longleftrightarrow> sh_http_gw sh = None"
  "sh_https_gw (RegisteredTunnel_close t sh) = None \<longleftrightarrow> sh_https_gw sh = None"
  by (cases t; simp)+

lemma release_name_gw [simp]:
  "sh_http_gw (release_name n ow sh) = sh_http_gw sh" "sh_https_gw (release_name n ow sh) = sh_https_gw sh"
  by (simp_all add: release_name_def)

lemma release_port_gw [simp]:
  "sh_http_gw (release_port k p n sh) = sh_http_gw sh" "sh_https_gw (release_port k p n sh) = sh_https_gw sh"
  by (simp_all add: release_port_def)

lemma detach_frame: "detach_tunnel n c sh = (r, c', sh') \<Longrightarrow> frame c sh c' sh'"
  by (auto simp: detach_tunnel_def tm_remove_def frame_def owner_def split: option.splits)

lemma prepare_frame: "prepare_name_slot n now c sh = (c', sh') \<Longrightarrow> frame c sh c' sh'"
  by (auto simp: prepare_name_slot_def metrics_close_tunnel_def frame_def dest!: detach_frame split: prod.splits option.splits)

lemma claim_name_frame: "claim_name n now c sh = (r, c', sh') \<Longrightarrow> frame c sh c' sh'"
  by (auto simp: claim_name_def Let_def frame_def dest!: prepare_frame split: prod.splits sum.splits)

lemma port_claim_frame: "register_port_claim k np now c sh = (r, c', sh') \<Longrightarrow> frame c sh c' sh'"
  by (auto simp: register_port_claim_def claim_port_def frame_def dest!: claim_name_frame split: prod.splits sum.splits)

lemma ctl_write_flags [simp]:
  "co_closed (snd (ctl_write m c)) = co_closed c" "co_cleaning (snd (ctl_write m c)) = co_cleaning c"
  "co_finished (snd (ctl_write m c)) = co_finished c" "co_activated (snd (ctl_write m c)) = co_activated c"
  by (simp_all add: ctl_write_def)

lemma answer_frame:
  "reg_answer to_string np (r, c, sh) = (pc, c', sh') \<Longrightarrow> frame c sh c' sh' \<and> pc = Idle"
  by (auto simp: reg_answer_def frame_def)

lemma answer_frame':
  assumes "frame c sh (fst (snd rcs)) (snd (snd rcs))" and "reg_answer to_string np rcs = (pc, c', sh')"
  shows "frame c sh c' sh'"
  using assms by (cases rcs) (auto dest!: answer_frame intro: frame_trans)

lemma begin_frame: "reg_begin to_string np now c sh = (pc, c', sh') \<Longrightarrow> frame c sh c' sh'"
proof -
  have port: "reg_begin_port to_string k np now c sh = (pc, c', sh') \<Longrightarrow> frame c sh c' sh'" for k
    by (auto simp: reg_begin_port_def split: if_splits prod.splits sum.splits
        dest!: port_claim_frame answer_frame intro: frame_trans)
  have gw: "reg_begin_gw to_string d p f np now c sh = (pc, c', sh') \<Longrightarrow> frame c sh c' sh'" for d p f
    by (auto simp: reg_begin_gw_def split: option.splits prod.splits sum.splits
        dest!: claim_name_frame answer_frame intro: frame_trans)
  assume "reg_begin to_string np now c sh = (pc, c', sh')"
  with port gw show ?thesis by (auto simp: reg_begin_def split: if_splits dest!: answer_frame)
qed

lemma port_start_frame: "register_port_start bind k np ow c sh = (r, sh') \<Longrightarrow> frame c sh c sh'"
  by (auto simp: register_port_start_def Let_def frame_def split: sum.splits)

lemma gw_start_frame:
  "register_http_start np ow c sh = (r, sh') \<Longrightarrow> frame c sh c sh'"
  "register_https_start np ow c sh = (r', sh'') \<Longrightarrow> frame c sh c sh''"
  by (auto simp: register_http_start_def register_https_start_def frame_def split: option.splits prod.splits sum.splits)

lemma insert_frame:
  "frame c sh (fst (snd (insert_tunnel n t la ra ow ps now c sh))) (snd (snd (insert_tunnel n t la ra ow ps now c sh)))"
  by (simp add: insert_tunnel_def note_tunnel_registered_def Let_def frame_def owner_def split: prod.split sum.split option.split)

lemma continue_frame:
  assumes "reg_continue to_string bind now (pc, c, sh) = (pc', c', sh')"
  shows "frame c sh c' sh'"
proof (cases pc)
  case (PortStarted k np t)
  with assms show ?thesis
    by (auto simp: register_port_insert_def Let_def intro: answer_frame' [OF insert_frame])
next
  case (HttpStarted np p t)
  with assms show ?thesis by (auto intro: answer_frame' [OF insert_frame])
next
  case (HttpsStarted np p t)
  with assms show ?thesis by (auto intro: answer_frame' [OF insert_frame])
qed (use assms in \<open>auto split: prod.splits sum.splits dest!: port_start_frame gw_start_frame answer_frame intro: frame_trans\<close>)

text \<open>The live sessions, each with the place where its handler waits.\<close>

type_synonym sessions = "TunnelOwner \<rightharpoonup> Control \<times> pc"

definition Shared_new :: "u16 option \<Rightarrow> u16 option \<Rightarrow> clock \<Rightarrow> Shared" where
  "Shared_new http_port https_port now =
     \<lparr>sh_names = TunnelRegistry_new, sh_tcp_ports = PortTable_new, sh_udp_ports = PortTable_new,
      sh_http_gw = map_option HttpGw_new http_port, sh_https_gw = map_option HttpsGw_new https_port,
      sh_metrics = MemMetrics_new now\<rparr>"

text \<open>A session ends between two messages; what happens when it ends while a registration waits is the
  subject of a theorem of its own below. Traffic changes the metrics at any time.\<close>

inductive server_run :: "Shared \<Rightarrow> sessions \<Rightarrow> bool" where
  start: "server_run (Shared_new http_port https_port now) Map.empty"
| connect: "server_run sh S \<Longrightarrow>
    c = Control_new sid gen cfg pool user agent host os arch ver ip now \<Longrightarrow> S (owner c) = None \<Longrightarrow>
    server_run sh (S(owner c \<mapsto> (c, Idle)))"
| request: "server_run sh S \<Longrightarrow> S ow = Some (c, Idle) \<Longrightarrow> trim (nt_tunnel_name np) = nt_tunnel_name np \<Longrightarrow>
    reg_begin to_string np now c sh = (pc, c', sh') \<Longrightarrow> server_run sh' (S(ow \<mapsto> (c', pc)))"
| proceed: "server_run sh S \<Longrightarrow> S ow = Some (c, pc) \<Longrightarrow>
    reg_continue to_string bind now (pc, c, sh) = (pc', c', sh') \<Longrightarrow> server_run sh' (S(ow \<mapsto> (c', pc')))"
| close: "server_run sh S \<Longrightarrow> S ow = Some (c, Idle) \<Longrightarrow>
    handle_close_tunnel cp now c sh = (c', sh') \<Longrightarrow> server_run sh' (S(ow \<mapsto> (c', Idle)))"
| reply: "server_run sh S \<Longrightarrow> S ow = Some (c, pc) \<Longrightarrow> server_run sh (S(ow \<mapsto> (snd (ctl_write m c), pc)))"
| finish: "server_run sh S \<Longrightarrow> S ow = Some (c, Idle) \<Longrightarrow>
    shutdown now c sh = (c', sh') \<Longrightarrow> server_run sh' (S(ow \<mapsto> (c', Idle)))"
| drop: "server_run sh S \<Longrightarrow> S ow = Some (c, Idle) \<Longrightarrow> server_run (Control_drop c sh) (S(ow := None))"
| traffic: "server_run sh S \<Longrightarrow> server_run (sh\<lparr>sh_metrics := m\<rparr>) S"

text \<open>The invariant of a session within the ledger.\<close>

definition in_ledger :: "Shared \<Rightarrow> ledger \<Rightarrow> TunnelOwner \<Rightarrow> Control \<times> pc \<Rightarrow> bool" where
  "in_ledger sh A ow cp \<longleftrightarrow>
     (case cp of (c, pc) \<Rightarrow>
        owner c = ow \<and> holds A c (claimed pc) \<and> pc_ok pc \<and> pc_gw sh pc \<and> fin_ok c \<and> (pc \<noteq> Idle \<longrightarrow> \<not> co_finished c))"

definition sys_ok :: "Shared \<Rightarrow> sessions \<Rightarrow> ledger \<Rightarrow> bool" where
  "sys_ok sh S A \<longleftrightarrow>
     implements sh A \<and> (\<forall>ow cp. S ow = Some cp \<longrightarrow> in_ledger sh A ow cp) \<and>
     (\<forall>n ow s. A n = Some (ow, s) \<longrightarrow> S ow \<noteq> None)"

lemma sys_ok_live: "sys_ok sh S A \<Longrightarrow> A n = Some (ow, s) \<Longrightarrow> S ow \<noteq> None"
  unfolding sys_ok_def by blast

lemma pc_gw_cong:
  "(sh_http_gw sh' = None \<longleftrightarrow> sh_http_gw sh = None) \<Longrightarrow> (sh_https_gw sh' = None \<longleftrightarrow> sh_https_gw sh = None) \<Longrightarrow>
    pc_gw sh' pc = pc_gw sh pc"
  by (cases pc) auto

text \<open>A step of one session that moves only its own part of the ledger keeps the others.\<close>

lemma sys_ok_step:
  assumes ok: "sys_ok sh S A" and S: "S ow = Some cp" and impl: "implements sh' A'" and mv: "own_move ow A A'"
    and new: "in_ledger sh' A' ow cp'"
    and gw: "sh_http_gw sh' = None \<longleftrightarrow> sh_http_gw sh = None" "sh_https_gw sh' = None \<longleftrightarrow> sh_https_gw sh = None"
  shows "sys_ok sh' (S(ow \<mapsto> cp')) A'"
proof -
  have other: "in_ledger sh' A' ow' cp''" if "S ow' = Some cp''" "ow' \<noteq> ow" for ow' cp''
    using ok that mv pc_gw_cong [OF gw] by (auto simp: sys_ok_def in_ledger_def intro: own_move_holds)
  have "(S(ow \<mapsto> cp')) ow' \<noteq> None" if "A' n = Some (ow', s)" for n ow' s
  proof (cases "A' n = A n")
    case True
    then have "A n = Some (ow', s)" using that by simp
    then show ?thesis using sys_ok_live [OF ok] by simp
  next
    case False
    with mv that have "ow' = ow" by (force simp: own_move_def)
    then show ?thesis by simp
  qed
  with impl new other show ?thesis by (auto simp: sys_ok_def)
qed

lemma sys_ok_begin_continue:
  assumes ok: "sys_ok sh S A" and S: "S ow = Some (c, pc)" and st: "step_ok A (owner c) (pc', c', sh')"
    and fr: "frame c sh c' sh'" and fin: "co_finished c \<longrightarrow> pc' = Idle \<and> tm_tunnels (co_tunnels c') = []"
    and gw: "pc_gw sh' pc'"
  shows "\<exists>A'. sys_ok sh' (S(ow \<mapsto> (c', pc'))) A'"
proof -
  have c: "in_ledger sh A ow (c, pc)" using ok S by (simp add: sys_ok_def)
  then obtain A' where A': "implements sh' A'" "holds A' c' (claimed pc')" "pc_ok pc'" "own_move ow A A'"
    using st by (auto simp: step_ok_def in_ledger_def)
  have "in_ledger sh' A' ow (c', pc')"
    using A' c fr fin gw by (auto simp: in_ledger_def frame_def fin_ok_def)
  then show ?thesis using sys_ok_step [OF ok S A'(1,4)] fr by (auto simp: frame_def)
qed

lemma begin_gw:
  assumes "reg_begin to_string np now c sh = (pc, c', sh')"
  shows "pc_gw sh' pc"
proof -
  have idle: "reg_answer to_string np rcs = (pc, c', sh') \<Longrightarrow> pc = Idle" for rcs
    by (cases rcs) (simp add: reg_answer_def)
  have fr: "frame c sh c' sh'" using assms by (rule begin_frame)
  have "pc_gw sh pc"
    using assms
    by (auto simp: reg_begin_def reg_begin_port_def reg_begin_gw_def split: if_splits option.splits prod.splits sum.splits
        dest!: idle)
  with fr show ?thesis using pc_gw_cong [of sh' sh pc] by (simp add: frame_def)
qed

lemma begin_closed:
  assumes "reg_begin to_string np now c sh = (pc, c', sh')" and "co_closed c"
  shows "pc = Idle \<and> co_tunnels c' = co_tunnels c"
  using assms by (auto simp: reg_begin_def is_closed_def reg_answer_def)

lemma continue_gw:
  assumes "reg_continue to_string bind now (pc, c, sh) = (pc', c', sh')"
  shows "pc_gw sh' pc'"
proof -
  have idle: "reg_answer to_string np rcs = (pc', c', sh') \<Longrightarrow> pc' = Idle" for rcs np
    by (cases rcs) (simp add: reg_answer_def)
  from assms show ?thesis by (cases pc) (auto split: prod.splits sum.splits dest!: idle)
qed

lemma fold_gw:
  assumes "\<And>x sh. x \<in> set l \<Longrightarrow> (sh_http_gw (f x sh) = None \<longleftrightarrow> sh_http_gw sh = None) \<and> (sh_https_gw (f x sh) = None \<longleftrightarrow> sh_https_gw sh = None)"
  shows "(sh_http_gw (fold f l sh) = None \<longleftrightarrow> sh_http_gw sh = None) \<and> (sh_https_gw (fold f l sh) = None \<longleftrightarrow> sh_https_gw sh = None)"
  using assms by (induction l arbitrary: sh) simp_all

lemma close_all_gw:
  assumes "close_all tm sh = (cls, tm', sh')"
  shows "(sh_http_gw sh' = None \<longleftrightarrow> sh_http_gw sh = None) \<and> (sh_https_gw sh' = None \<longleftrightarrow> sh_https_gw sh = None)"
proof -
  have "sh' = fold (\<lambda>(name, entry). RegisteredTunnel_close (te_tunnel entry)) (tm_tunnels tm) sh"
    using assms by (simp add: close_all_def)
  then show ?thesis by (simp only:) (rule fold_gw, simp add: case_prod_beta)
qed

lemma shutdown_gw:
  assumes "shutdown now c sh = (c', sh')"
  shows "(sh_http_gw sh' = None \<longleftrightarrow> sh_http_gw sh = None) \<and> (sh_https_gw sh' = None \<longleftrightarrow> sh_https_gw sh = None)"
proof (cases "co_cleaning c")
  case True
  with assms show ?thesis by (simp add: shutdown_def signal_close_def Let_def)
next
  case False
  obtain cls tm sh1 where cl: "close_all (co_tunnels c) sh = (cls, tm, sh1)" by (cases "close_all (co_tunnels c) sh")
  then have "sh' = fold (\<lambda>(name, d) sh. metrics_close_tunnel name (dt_tunnel_type d) now
      (release_global_slot ((signal_close c)\<lparr>co_cleaning := True\<rparr>) name d sh)) cls sh1"
    using assms False by (auto simp: shutdown_def signal_close_def Let_def)
  moreover have "(sh_http_gw (fold (\<lambda>(name, d) sh. metrics_close_tunnel name (dt_tunnel_type d) now
      (release_global_slot ((signal_close c)\<lparr>co_cleaning := True\<rparr>) name d sh)) cls sh1) = None \<longleftrightarrow> sh_http_gw sh1 = None) \<and>
    (sh_https_gw (fold (\<lambda>(name, d) sh. metrics_close_tunnel name (dt_tunnel_type d) now
      (release_global_slot ((signal_close c)\<lparr>co_cleaning := True\<rparr>) name d sh)) cls sh1) = None \<longleftrightarrow> sh_https_gw sh1 = None)"
    by (rule fold_gw) (simp add: case_prod_beta metrics_close_tunnel_def)
  ultimately show ?thesis using close_all_gw [OF cl] by simp
qed

lemma drop_gw:
  "(sh_http_gw (Control_drop c sh) = None \<longleftrightarrow> sh_http_gw sh = None) \<and> (sh_https_gw (Control_drop c sh) = None \<longleftrightarrow> sh_https_gw sh = None)"
proof -
  obtain cls tm sh1 where cl: "close_all (co_tunnels c) sh = (cls, tm, sh1)" by (cases "close_all (co_tunnels c) sh")
  have "(sh_http_gw (fold (\<lambda>(n, d). release_global_slot c n d) cls sh1) = None \<longleftrightarrow> sh_http_gw sh1 = None) \<and>
    (sh_https_gw (fold (\<lambda>(n, d). release_global_slot c n d) cls sh1) = None \<longleftrightarrow> sh_https_gw sh1 = None)"
    by (rule fold_gw) (simp add: case_prod_beta)
  with close_all_gw [OF cl] cl show ?thesis by (simp add: Control_drop_def abandon_all_def)
qed

lemma Shared_new_ok: "sys_ok (Shared_new http_port https_port now) Map.empty Map.empty"
  by (auto simp: sys_ok_def implements_def Shared_new_def TunnelRegistry_new_def PortTable_new_def shows_slots_def
      gw_ok_def http_routed_def https_routed_def http_wf_def HttpGw_new_def HttpsGw_new_def http_table_def
      split: option.splits)

lemma connect_ok:
  assumes ok: "sys_ok sh S A" and c: "c = Control_new sid gen cfg pool user agent host os arch ver ip now"
    and S: "S (owner c) = None"
  shows "sys_ok sh (S(owner c \<mapsto> (c, Idle))) A"
proof -
  have "A n \<noteq> Some (owner c, s)" for n s using sys_ok_live [OF ok] S by blast
  then have "in_ledger sh A (owner c) (c, Idle)"
    by (auto simp: in_ledger_def holds_def held_def session_ok_def fin_ok_def c Control_new_def TunnelManager_new_def)
  with ok show ?thesis by (auto simp: sys_ok_def)
qed

lemma close_message_ok:
  assumes ok: "sys_ok sh S A" and S: "S ow = Some (c, Idle)" and h: "handle_close_tunnel cp now c sh = (c', sh')"
  shows "\<exists>A'. sys_ok sh' (S(ow \<mapsto> (c', Idle))) A'"
proof -
  have p: "prepare_name_slot (ct_tunnel_name cp) now c sh = (c', sh')"
    using h by (simp add: handle_close_tunnel_def prepare_name_slot_def)
  have c: "in_ledger sh A ow (c, Idle)" using ok S by (simp add: sys_ok_def)
  then have "holds A c Map.empty" "implements sh A" using ok by (auto simp: in_ledger_def sys_ok_def)
  from prepare_holds [OF this(2,1) _ p] have "step_ok A (owner c) (Idle, c', sh')"
    using prepare_owner [OF p] by (auto simp: step_ok_def)
  moreover have "tm_tunnels (co_tunnels c') = []" if "tm_tunnels (co_tunnels c) = []"
    using p that
    by (auto simp: prepare_name_slot_def detach_tunnel_def tm_remove_def split: option.splits prod.splits)
  ultimately show ?thesis
    using sys_ok_begin_continue [OF ok S _ prepare_frame [OF p]] c by (auto simp: in_ledger_def fin_ok_def)
qed

lemma server_run_ok: "server_run sh S \<Longrightarrow> \<exists>A. sys_ok sh S A"
proof (induction rule: server_run.induct)
  case (start http_port https_port now)
  show ?case using Shared_new_ok by blast
next
  case (connect sh S c sid gen cfg pool user agent host os arch ver ip now)
  then show ?case using connect_ok by blast
next
  case (request sh S ow c np to_string now pc c' sh')
  then obtain A where ok: "sys_ok sh S A" by blast
  have c: "in_ledger sh A ow (c, Idle)" using ok request.hyps by (simp add: sys_ok_def)
  have "step_ok A (owner c) (pc, c', sh')"
    using reg_begin_ok [of sh A c np to_string now] ok c request.hyps by (simp add: in_ledger_def sys_ok_def)
  moreover have "co_finished c \<longrightarrow> pc = Idle \<and> tm_tunnels (co_tunnels c') = []"
    using begin_closed [OF request.hyps(4)] c by (auto simp: in_ledger_def fin_ok_def)
  ultimately show ?case
    by (rule sys_ok_begin_continue [OF ok request.hyps(2) _ begin_frame [OF request.hyps(4)] _ begin_gw [OF request.hyps(4)]])
next
  case (proceed sh S ow c pc to_string bind now pc' c' sh')
  then obtain A where ok: "sys_ok sh S A" by blast
  have c: "in_ledger sh A ow (c, pc)" using ok proceed.hyps by (simp add: sys_ok_def)
  have st: "step_ok A (owner c) (pc', c', sh')"
    using reg_continue_ok [of sh A c pc to_string bind now] ok c proceed.hyps by (simp add: in_ledger_def sys_ok_def)
  have "co_finished c \<longrightarrow> pc' = Idle \<and> tm_tunnels (co_tunnels c') = []"
    using c proceed.hyps(3) by (auto simp: in_ledger_def fin_ok_def)
  from sys_ok_begin_continue [OF ok proceed.hyps(2) st continue_frame [OF proceed.hyps(3)] this continue_gw [OF proceed.hyps(3)]]
  show ?case .
next
  case (close sh S ow c cp now c' sh')
  then show ?case using close_message_ok by blast
next
  case (reply sh S ow c pc m)
  then obtain A where ok: "sys_ok sh S A" by blast
  have "in_ledger sh A ow (c, pc)" using ok reply.hyps by (simp add: sys_ok_def)
  then have "in_ledger sh A ow (snd (ctl_write m c), pc)"
    using holds_cong [of "snd (ctl_write m c)" c] by (simp add: in_ledger_def fin_ok_def)
  moreover have "implements sh A" using ok by (simp add: sys_ok_def)
  ultimately show ?case using sys_ok_step [OF ok reply.hyps(2) _ own_move_refl _ refl refl] by blast
next
  case (finish sh S ow c now c' sh')
  then obtain A where ok: "sys_ok sh S A" by blast
  have c: "in_ledger sh A ow (c, Idle)" using ok finish.hyps by (simp add: sys_ok_def)
  then have sd: "implements sh' (forget ow A) \<and> holds (forget ow A) c' Map.empty \<and> owner c' = ow \<and> fin_ok c'"
    using shutdown_ok [OF _ _ _ finish.hyps(3), of A] ok by (auto simp: in_ledger_def sys_ok_def)
  then have "in_ledger sh' (forget ow A) ow (c', Idle)" by (simp add: in_ledger_def)
  then have "sys_ok sh' (S(ow \<mapsto> (c', Idle))) (forget ow A)"
    using sd shutdown_gw [OF finish.hyps(3)] by (intro sys_ok_step [OF ok finish.hyps(2) _ own_move_forget]) simp_all
  then show ?case by blast
next
  case (drop sh S ow c)
  then obtain A where ok: "sys_ok sh S A" by blast
  have c: "in_ledger sh A ow (c, Idle)" using ok drop.hyps by (simp add: sys_ok_def)
  then have impl: "implements (Control_drop c sh) (forget ow A)"
    using drop_ok ok by (auto simp: in_ledger_def sys_ok_def)
  have other: "in_ledger (Control_drop c sh) (forget ow A) ow' cp" if "S ow' = Some cp" "ow' \<noteq> ow" for ow' cp
    using ok that own_move_holds [OF own_move_forget] pc_gw_cong [of "Control_drop c sh" sh] drop_gw [of c sh]
    by (auto simp: sys_ok_def in_ledger_def)
  have "S ow' \<noteq> None \<and> ow' \<noteq> ow" if "forget ow A n = Some (ow', s)" for n ow' s
    using sys_ok_live [OF ok] that by (auto simp: forget_def split: option.splits if_splits)
  with impl other show ?case by (intro exI [of _ "forget ow A"]) (auto simp: sys_ok_def)
next
  case (traffic sh S m)
  then obtain A where ok: "sys_ok sh S A" by blast
  have "pc_gw (sh\<lparr>sh_metrics := m\<rparr>) pc = pc_gw sh pc" for pc by (rule pc_gw_cong) simp_all
  then have "sys_ok (sh\<lparr>sh_metrics := m\<rparr>) S A" using ok by (auto simp: sys_ok_def in_ledger_def)
  then show ?case by blast
qed

lemma i32_port:
  assumes "0 < sint (x :: i32)" and "sint x \<le> 65535"
  shows "(ucast x :: u16) \<noteq> 0"
proof
  assume z: "(ucast x :: u16) = 0"
  have u: "uint x = sint x" using assms by (simp add: uint_sint take_bit_int_eq_self)
  have "uint (ucast x :: u16) = take_bit 16 (uint x)" by (simp add: unsigned_ucast_eq)
  also have "\<dots> = sint x" using assms u by (simp add: take_bit_int_eq_self)
  finally show False using z assms by simp
qed

lemma prepare_cfg: "prepare_name_slot n now c sh = (c', sh') \<Longrightarrow> co_cfg c' = co_cfg c"
  by (auto simp: prepare_name_slot_def detach_tunnel_def tm_remove_def split: option.splits prod.splits)

lemma implements_ports: "implements sh A \<Longrightarrow> shows_slots (ports_of k sh) (port_slot k) A"
proof (cases k)
  case TcpPorts
  moreover have "port_slot TcpPorts = TcpSlot" by (rule ext) simp
  ultimately show "implements sh A \<Longrightarrow> ?thesis" by (simp add: implements_def)
next
  case UdpPorts
  moreover have "port_slot UdpPorts = UdpSlot" by (rule ext) simp
  ultimately show "implements sh A \<Longrightarrow> ?thesis" by (simp add: implements_def)
qed

lemma ports_of_set [simp]: "ports_of k (set_ports k t sh) = t" "ports_of k (sh\<lparr>sh_names := ns\<rparr>) = ports_of k sh"
  "ports_of k (sh\<lparr>sh_metrics := m\<rparr>) = ports_of k sh"
  by (cases k; simp)+

lemma set_ports_names [simp]: "sh_names (set_ports k t sh) = sh_names sh"
  by (cases k) simp_all

text \<open>The name and the port a session finds after it gave up its own tunnel of the name.\<close>

lemma detach_ledger_free:
  assumes impl: "implements sh A" "implements sh1 (detach_ledger c n A)" and h: "holds A c Map.empty"
  shows "by_name (sh_names sh1) n = None \<longleftrightarrow> by_name (sh_names sh) n \<in> {None, Some (owner c)}"
    and "by_name (sh_names sh1) n = None \<Longrightarrow>
      by_port (ports_of k sh1) p = None \<longleftrightarrow> by_port (ports_of k sh) p \<in> {None, Some n}"
proof -
  let ?A = "detach_ledger c n A"
  have n: "by_name (sh_names sh1) n = map_option fst (?A n)" "by_name (sh_names sh) n = map_option fst (A n)"
    using implements_names impl by blast+
  have own: "A n = Some (owner c, s) \<longleftrightarrow> held c n = Some s" for s using h by (simp add: holds_def)
  show "by_name (sh_names sh1) n = None \<longleftrightarrow> by_name (sh_names sh) n \<in> {None, Some (owner c)}"
    using own by (auto simp: n detach_ledger_def)
  assume "by_name (sh_names sh1) n = None"
  then have A: "?A n = None" by (simp add: n)
  have other: "?A m = A m" if "m \<noteq> n" for m using that by (simp add: detach_ledger_def)
  have "by_port (ports_of k sh1) p = Some m \<longleftrightarrow> m \<noteq> n \<and> by_port (ports_of k sh) p = Some m" for m
    using implements_ports [OF impl(1), of k] implements_ports [OF impl(2), of k] A other [of m]
    by (cases "m = n") (simp_all add: shows_slots_def)
  then show "by_port (ports_of k sh1) p = None \<longleftrightarrow> by_port (ports_of k sh) p \<in> {None, Some n}"
    by (metis insert_iff not_None_eq option.inject singletonD)
qed

text \<open>The rest of a port registration, once the session has no tunnel of the name.\<close>

lemma port_registration_result:
  assumes pr: "prepare_name_slot n now c sh = (c1, sh1)" and none: "held c1 n = None"
    and np: "0 < sint (nt_remote_port np)" "sint (nt_remote_port np) \<le> 65535" "nt_tunnel_name np = n" "trim n = n" "n \<noteq> []"
    and p: "p = ucast (nt_remote_port np)"
    and reg: "register_port_tunnel bind k np now c sh = (r, c', sh')"
  shows "(r = Inr ('':'' @ port_to_string p) \<longleftrightarrow>
      by_name (sh_names sh1) n = None \<and> by_port (ports_of k sh1) p = None \<and>
      bind k (sc_proxy_addr (co_cfg c) @ '':'' @ port_to_string p) = None) \<and>
    (r = Inr ('':'' @ port_to_string p) \<longrightarrow>
      by_name (sh_names sh') n = Some (owner c) \<and> by_port (ports_of k sh') p = Some n \<and> n \<in> dom (held c'))"
proof -
  have p0: "p \<noteq> 0" using i32_port np p by simp
  have none': "map_of (tm_tunnels (co_tunnels c1)) n = None" using none by (simp add: held_def)
  let ?ns = "(sh_names sh1)\<lparr>by_name := (by_name (sh_names sh1))(n \<mapsto> owner c)\<rparr>"
  let ?sh2 = "sh1\<lparr>sh_names := ?ns\<rparr>"
  show ?thesis
  proof (cases "by_name (sh_names sh1) n")
    case (Some ow)
    with reg pr np have "\<exists>e. r = Inl e"
      by (auto simp: register_port_tunnel_def register_port_claim_def claim_name_def try_insert_def)
    with Some show ?thesis by auto
  next
    case None
    then have cn: "claim_name n now c sh = (Inr (owner c), c1, ?sh2)"
      using pr np by (simp add: claim_name_def try_insert_def Let_def)
    show ?thesis
    proof (cases "by_port (ports_of k sh1) p")
      case (Some m)
      with reg cn np p p0 have "\<exists>e. r = Inl e"
        by (auto simp: register_port_tunnel_def register_port_claim_def claim_port_def claim_def)
      with Some show ?thesis by auto
    next
      case free: None
      let ?t = "(ports_of k sh1)\<lparr>by_port := (by_port (ports_of k sh1))(p \<mapsto> n)\<rparr>"
      let ?sh3 = "set_ports k ?t ?sh2"
      have cl: "register_port_claim k np now c sh = (Inr (owner c), c1, ?sh3)"
        using cn free np p p0 by (simp add: register_port_claim_def claim_port_def claim_def)
      show ?thesis
      proof (cases "bind k (sc_proxy_addr (co_cfg c) @ '':'' @ port_to_string p)")
        case (Some e)
        with reg cl np p prepare_cfg [OF pr] have "\<exists>e. r = Inl e"
          by (cases k) (auto simp: register_port_tunnel_def register_port_start_def TcpTunnel_start_def UdpTunnel_start_def Let_def)
        with Some show ?thesis by auto
      next
        case bound: None
        then obtain t where st: "register_port_start bind k np (owner c) c1 ?sh3 = (Inr t, ?sh3)"
          using np p prepare_cfg [OF pr]
          by (cases k) (auto simp: register_port_start_def TcpTunnel_start_def UdpTunnel_start_def Let_def)
        then have "r = Inr ('':'' @ port_to_string p)" "sh_names sh' = ?ns" "ports_of k sh' = ?t" "n \<in> dom (held c')"
          using reg cl np p none'
          by (auto simp: register_port_tunnel_def register_port_insert_def insert_tunnel_def tm_insert_def
              note_tunnel_registered_def held_def Let_def)
        with None free bound show ?thesis by simp
      qed
    qed
  qed
qed

section \<open>Properties\<close>

text \<open>What a session occupies, with the claims of a registration that is still waiting.\<close>

definition occupies :: "sessions \<Rightarrow> TunnelOwner \<Rightarrow> string \<Rightarrow> slot \<Rightarrow> bool" where
  "occupies S ow n s \<longleftrightarrow> (\<exists>c pc. S ow = Some (c, pc) \<and> (held c n = Some s \<or> claimed pc n = Some s))"

lemma sys_ok_occupies:
  assumes "sys_ok sh S A"
  shows "A n = Some (ow, s) \<longleftrightarrow> occupies S ow n s"
proof -
  have share: "A n = Some (ow, s) \<longleftrightarrow> held c n = Some s \<or> claimed pc n = Some s" if "S ow = Some (c, pc)" for c pc
  proof -
    have "in_ledger sh A ow (c, pc)" using assms that by (simp add: sys_ok_def)
    then show ?thesis by (auto simp: in_ledger_def holds_def)
  qed
  with sys_ok_live [OF assms, of n ow s] show ?thesis by (auto simp: occupies_def)
qed


text \<open>A session and a message for concrete instances.\<close>

definition demo_clock :: clock where "demo_clock = \<lparr>ck_date = 0, ck_time = 0, ck_offset = 0\<rparr>"

definition demo_control :: Control where
  "demo_control = Control_new ''s'' 1 ServerConfig_default 1 [] [] [] [] [] [] [] demo_clock"

definition demo_request :: "string \<Rightarrow> i32 \<Rightarrow> NewTunnel" where
  "demo_request n p =
     \<lparr>nt_tunnel_name = n, nt_protocol = ''tcp'', nt_remote_port = p, nt_local_ip = [], nt_local_port = 0,
      nt_domains = [], nt_locations = [], nt_basic_auth_user = [], nt_basic_auth_password = [],
      nt_host_header_rewrite = [], nt_headers = Map.empty, nt_response_headers = Map.empty,
      nt_bandwidth = 0, nt_bandwidth_limit_side = []\<rparr>"

lemma demo_begin:
  "fst (reg_begin (\<lambda>_. []) (demo_request ''a'' 22) demo_clock demo_control (Shared_new None None demo_clock)) =
    PortClaimed TcpPorts (demo_request ''a'' 22)"
  by (simp add: reg_begin_def reg_begin_port_def register_port_claim_def claim_name_def prepare_name_slot_def
      detach_tunnel_def tm_remove_def demo_control_def Control_new_def TunnelManager_new_def is_closed_def
      demo_request_def try_insert_def Shared_new_def TunnelRegistry_new_def claim_port_def claim_def PortTable_new_def
      str_simps Let_def)



text \<open>The session of the instance above with its tunnel registered.\<close>

lemma demo_registered:
  "\<exists>c sh. server_run sh [owner demo_control \<mapsto> (c, Idle)] \<and>
    by_name (sh_names sh) ''a'' = Some (owner demo_control) \<and> by_port (sh_tcp_ports sh) 22 = Some ''a''"
proof -
  let ?sh = "Shared_new None None demo_clock" and ?np = "demo_request ''a'' 22" and ?ow = "owner demo_control"
  let ?bind = "\<lambda>_ _. None"
  obtain c1 sh1 where b: "reg_begin (\<lambda>_. []) ?np demo_clock demo_control ?sh = (PortClaimed TcpPorts ?np, c1, sh1)"
    using demo_begin by (metis prod.collapse)
  obtain t c2 sh2 where st: "reg_continue (\<lambda>_. []) ?bind demo_clock (PortClaimed TcpPorts ?np, c1, sh1) =
      (PortStarted TcpPorts ?np t, c2, sh2)"
    by (simp add: register_port_start_def TcpTunnel_start_def Let_def)
  obtain c3 sh3 where ins: "reg_continue (\<lambda>_. []) ?bind demo_clock (PortStarted TcpPorts ?np t, c2, sh2) = (Idle, c3, sh3)"
    by (cases "register_port_insert TcpPorts ?np t (owner c2) demo_clock c2 sh2") (simp add: reg_answer_def)
  have r0: "server_run ?sh [?ow \<mapsto> (demo_control, Idle)]"
    using server_run.connect [OF server_run.start demo_control_def] by simp
  have r1: "server_run sh1 [?ow \<mapsto> (c1, PortClaimed TcpPorts ?np)]"
    using server_run.request [OF r0 _ _ b, of ?ow] by (simp add: demo_request_def str_simps)
  have r2: "server_run sh2 [?ow \<mapsto> (c2, PortStarted TcpPorts ?np t)]"
    using server_run.proceed [OF r1 _ st, of ?ow] by simp
  have r3: "server_run sh3 [?ow \<mapsto> (c3, Idle)]"
    using server_run.proceed [OF r2 _ ins, of ?ow] by simp
  have hnt: "snd (handle_new_tunnel (\<lambda>_. []) ?bind ?np demo_clock demo_control ?sh) = (c3, sh3)"
    by (simp add: handle_new_tunnel_steps b st ins del: reg_continue.simps)
  obtain r c' where reg: "register_port_tunnel ?bind TcpPorts ?np demo_clock demo_control ?sh = (r, c', sh3)"
    using hnt by (cases "register_port_tunnel ?bind TcpPorts ?np demo_clock demo_control ?sh")
      (auto simp: handle_new_tunnel_def register_tunnel_def demo_request_def is_closed_def demo_control_def Control_new_def
        split: prod.splits)
  have pr: "prepare_name_slot ''a'' demo_clock demo_control ?sh = (demo_control\<lparr>co_tunnels := TunnelManager_new\<rparr>, ?sh)"
    by (simp add: prepare_name_slot_def detach_tunnel_def tm_remove_def demo_control_def Control_new_def TunnelManager_new_def)
  have "by_name (sh_names sh3) ''a'' = Some ?ow \<and> by_port (ports_of TcpPorts sh3) 22 = Some ''a''"
    using port_registration_result [OF pr _ _ _ _ _ _ refl reg]
    by (simp add: demo_request_def held_def TunnelManager_new_def Shared_new_def TunnelRegistry_new_def PortTable_new_def str_simps)
  with r3 show ?thesis by auto
qed




lemma release_other:
  assumes "m \<noteq> n"
  shows "by_name (sh_names (release_global_slot c m d sh)) n = by_name (sh_names sh) n"
    and "by_port (ports_of k sh) p = Some n \<Longrightarrow> by_port (ports_of k (release_global_slot c m d sh)) p = Some n"
  using assms
  by (cases k; auto simp: release_global_slot_def remove_if_owner_def release_def Let_def split: option.split)+

lemma fold_close_tables:
  "sh_names (fold (\<lambda>(n, e). RegisteredTunnel_close (te_tunnel e)) l sh) = sh_names sh"
  "ports_of k (fold (\<lambda>(n, e). RegisteredTunnel_close (te_tunnel e)) l sh) = ports_of k sh"
proof -
  have "ports_of k (RegisteredTunnel_close t sh) = ports_of k sh" for t sh by (cases k) simp_all
  then show "sh_names (fold (\<lambda>(n, e). RegisteredTunnel_close (te_tunnel e)) l sh) = sh_names sh"
    "ports_of k (fold (\<lambda>(n, e). RegisteredTunnel_close (te_tunnel e)) l sh) = ports_of k sh"
    by (induction l arbitrary: sh) (simp_all add: case_prod_beta)
qed

lemma fold_release_other:
  assumes "n \<notin> fst ` set l" and "by_name (sh_names sh) n = Some ow" and "by_port (ports_of k sh) p = Some n"
  shows "by_name (sh_names (fold (\<lambda>(m, d) sh. metrics_close_tunnel m (f d) now (release_global_slot c m d sh)) l sh)) n = Some ow \<and>
    by_port (ports_of k (fold (\<lambda>(m, d) sh. metrics_close_tunnel m (f d) now (release_global_slot c m d sh)) l sh)) p = Some n"
  using assms
proof (induction l arbitrary: sh)
  case Nil
  then show ?case by simp
next
  case (Cons x l)
  obtain m d where x: "x = (m, d)" by (cases x)
  then have "m \<noteq> n" "n \<notin> fst ` set l" using Cons.prems(1) by auto
  with Cons release_other [of m n] show ?case by (simp add: x metrics_close_tunnel_def)
qed

text \<open>C30. A session that is ended while a registration waits for its socket leaks the name and the port.
  The shutdown releases the session's tunnels but not the claims of the waiting registration; this
  then starts and inserts its tunnel into the session that is already finished, and neither a second
  shutdown nor the destructor releases anything of a finished session.\<close>

theorem shutdown_race_leaks:
  assumes run: "server_run sh S" and S: "S ow = Some (c, PortClaimed k np)"
    and bound: "bind k (sc_proxy_addr (co_cfg c) @ '':'' @ port_to_string p) = None"
    and n: "n = nt_tunnel_name np" and p: "p = ucast (nt_remote_port np)"
    and sd: "shutdown now c sh = (c1, sh1)"
    and cont: "reg_continue to_string bind now (reg_continue to_string bind now (PortClaimed k np, c1, sh1)) = (pc, c2, sh2)"
    and again: "shutdown now' c2 sh2 = (c3, sh3)"
  shows "pc = Idle \<and> by_name (sh_names (Control_drop c3 sh3)) n = Some ow \<and>
    by_port (ports_of k (Control_drop c3 sh3)) p = Some n"
proof -
  from server_run_ok [OF run] obtain A where ok: "sys_ok sh S A" by blast
  have led: "in_ledger sh A ow (c, PortClaimed k np)" and impl: "implements sh A" using ok S by (simp_all add: sys_ok_def)
  then have h: "holds A c [n \<mapsto> port_slot k p]" and ow: "owner c = ow" and "\<not> co_finished c" and "fin_ok c"
    by (simp_all add: in_ledger_def n p)
  then have clean: "\<not> co_cleaning c" by (simp add: fin_ok_def)
  have A: "A n = Some (ow, port_slot k p)" and free: "held c n = None" using holds_claimed [OF h] ow by simp_all
  then have held: "by_name (sh_names sh) n = Some ow" "by_port (ports_of k sh) p = Some n"
    using implements_names [OF impl] implements_ports [OF impl, of k] by (auto simp: shows_slots_def)
  obtain cls tm shc where cl: "close_all (co_tunnels c) sh = (cls, tm, shc)" by (cases "close_all (co_tunnels c) sh")
  let ?c = "(signal_close c)\<lparr>co_cleaning := True\<rparr>"
  have sh1: "sh1 = fold (\<lambda>(m, d) sh. metrics_close_tunnel m (dt_tunnel_type d) now (release_global_slot ?c m d sh)) cls shc"
    and c1: "c1 = ?c\<lparr>co_tunnels := tm, co_writer_open := False, co_finished := True\<rparr>"
    using sd cl clean by (auto simp: shutdown_def Let_def signal_close_def)
  have "n \<notin> fst ` set cls"
    using cl free by (force simp: close_all_def held_def map_of_eq_None_iff)
  moreover have "by_name (sh_names shc) n = Some ow" "by_port (ports_of k shc) p = Some n"
    using cl held by (auto simp: close_all_def fold_close_tables)
  ultimately have kept: "by_name (sh_names sh1) n = Some ow" "by_port (ports_of k sh1) p = Some n"
    using fold_release_other [of n cls shc ow k p dt_tunnel_type now ?c] unfolding sh1 by simp_all
  have tm: "tm_tunnels tm = []" using cl by (auto simp: close_all_def)
  obtain t where st: "register_port_start bind k np (owner c1) c1 sh1 = (Inr t, sh1)"
    using bound n p
    by (cases k) (auto simp: register_port_start_def TcpTunnel_start_def UdpTunnel_start_def Let_def c1 signal_close_def)
  from cont st have ins: "reg_answer to_string np (register_port_insert k np t (owner c1) now c1 sh1) = (pc, c2, sh2)"
    by simp
  then have after: "pc = Idle" "sh_names sh2 = sh_names sh1" "ports_of k sh2 = ports_of k sh1" "co_cleaning c2" "co_finished c2"
    by (auto simp: reg_answer_def register_port_insert_def insert_tunnel_def tm_insert_def note_tunnel_registered_def
        ctl_write_def c1 tm signal_close_def Let_def)
  then have sh3: "sh3 = sh2" and c3: "co_finished c3"
    using again by (auto simp: shutdown_def Let_def signal_close_def)
  have "sh_names (Control_drop c3 sh3) = sh_names sh3" "ports_of k (Control_drop c3 sh3) = ports_of k sh3"
    using c3 by (simp_all add: Control_drop_def abandon_all_def close_all_def fold_close_tables)
  with after sh3 kept show ?thesis by simp
qed

theorem shutdown_race_leaks_witness:
  "\<exists>c sh c1 sh1 pc c2 sh2 c3 sh3. shutdown demo_clock c sh = (c1, sh1) \<and>
    reg_continue (\<lambda>_. []) (\<lambda>_ _. None) demo_clock (reg_continue (\<lambda>_. []) (\<lambda>_ _. None) demo_clock
      (PortClaimed TcpPorts (demo_request ''a'' 22), c1, sh1)) = (pc, c2, sh2) \<and>
    shutdown demo_clock c2 sh2 = (c3, sh3) \<and> by_name (sh_names (Control_drop c3 sh3)) ''a'' = Some (owner demo_control) \<and>
    by_port (sh_tcp_ports (Control_drop c3 sh3)) 22 = Some ''a''"
proof -
  let ?np = "demo_request ''a'' 22" and ?ow = "owner demo_control"
  obtain c sh where b: "reg_begin (\<lambda>_. []) ?np demo_clock demo_control (Shared_new None None demo_clock) =
      (PortClaimed TcpPorts ?np, c, sh)"
    using demo_begin by (metis prod.collapse)
  have "server_run (Shared_new None None demo_clock) [?ow \<mapsto> (demo_control, Idle)]"
    using server_run.connect [OF server_run.start demo_control_def] by simp
  then have run: "server_run sh [?ow \<mapsto> (c, PortClaimed TcpPorts ?np)]"
    using server_run.request [OF _ _ _ b, of "[?ow \<mapsto> (demo_control, Idle)]" ?ow] by (simp add: demo_request_def str_simps)
  obtain c1 sh1 where sd: "shutdown demo_clock c sh = (c1, sh1)" by (cases "shutdown demo_clock c sh")
  obtain pc c2 sh2 where cont: "reg_continue (\<lambda>_. []) (\<lambda>_ _. None) demo_clock (reg_continue (\<lambda>_. []) (\<lambda>_ _. None) demo_clock
      (PortClaimed TcpPorts ?np, c1, sh1)) = (pc, c2, sh2)"
    by (metis prod_cases3)
  obtain c3 sh3 where again: "shutdown demo_clock c2 sh2 = (c3, sh3)" by (cases "shutdown demo_clock c2 sh2")
  have "''a'' = nt_tunnel_name ?np" "22 = (ucast (nt_remote_port ?np) :: u16)" by (simp_all add: demo_request_def)
  with shutdown_race_leaks [OF run _ refl _ _ sd cont again, of ?ow "''a''" 22] sd cont again show ?thesis
    by (metis fun_upd_same ports_of.simps(1))
qed

lemma padded_try_insert:
  assumes "by_name t (trim n) = Some ow" and "trim m = trim n"
  shows "\<exists>e. try_insert t m ow' = (Inl e, t)"
  using assms by (auto simp: try_insert_def Let_def)



end
