(* ===== verification/Client_Reload.thy ===== *)
theory Client_Reload
  imports Config_Client "HOL-Library.AList" "HOL-Library.Multiset"
begin

text \<open>
  Reloading the client's configuration (\<open>client/src/reload/plan.rs\<close>, \<open>outcome.rs\<close>): the difference of two
  configurations and the plan made of it. Configurations are compared with the derived equality of
  Rust, which compares a bandwidth as a float. A hash map built from the tunnels is an association
  list; the order of its entries is that of insertion, and the result is shown not to depend on it.
\<close>

section \<open>Equality of configurations\<close>

definition f64_eq :: "f64 \<Rightarrow> f64 \<Rightarrow> bool" where
  "f64_eq x y \<longleftrightarrow> \<not> f64_is_nan x \<and> \<not> f64_is_nan y \<and>
     (x = y \<or> x AND 0x7FFFFFFFFFFFFFFF = 0 \<and> y AND 0x7FFFFFFFFFFFFFFF = 0)"

definition TunnelTransportConfig_eq :: "TunnelTransportConfig \<Rightarrow> TunnelTransportConfig \<Rightarrow> bool" where
  "TunnelTransportConfig_eq t u \<longleftrightarrow>
     f64_eq (ttc_bandwidth t) (ttc_bandwidth u) \<and>
     ttc_bandwidth_limit_side t = ttc_bandwidth_limit_side u \<and>
     ttc_proxy_protocol_version t = ttc_proxy_protocol_version u"

definition TunnelConfig_eq :: "TunnelConfig \<Rightarrow> TunnelConfig \<Rightarrow> bool" where
  "TunnelConfig_eq t u \<longleftrightarrow>
     tnc_name t = tnc_name u \<and> tnc_protocol t = tnc_protocol u \<and> tnc_service t = tnc_service u \<and>
     tnc_remote_port t = tnc_remote_port u \<and> tnc_domains t = tnc_domains u \<and>
     tnc_locations t = tnc_locations u \<and> tnc_basic_auth_user t = tnc_basic_auth_user u \<and>
     tnc_basic_auth_password t = tnc_basic_auth_password u \<and>
     tnc_host_header_rewrite t = tnc_host_header_rewrite u \<and>
     TunnelTransportConfig_eq (tnc_transport t) (tnc_transport u) \<and> tnc_plugin t = tnc_plugin u"

definition ClientConfig_eq :: "ClientConfig \<Rightarrow> ClientConfig \<Rightarrow> bool" where
  "ClientConfig_eq c d \<longleftrightarrow>
     cc_server c = cc_server d \<and> cc_user c = cc_user d \<and> cc_agent_id c = cc_agent_id d \<and>
     cc_auth c = cc_auth d \<and> cc_transport c = cc_transport d \<and>
     list_all2 TunnelConfig_eq (cc_tunnels c) (cc_tunnels d) \<and>
     cc_udp_packet_size c = cc_udp_packet_size d \<and> cc_log c = cc_log d"

section \<open>Outcomes and plans\<close>

datatype ReloadLevel = Noop | TunnelsOnly | ReconnectControl

record ReloadOutcome =
  ro_level :: ReloadLevel
  ro_added :: "string list"
  ro_removed :: "string list"
  ro_updated :: "string list"
  ro_failed :: "(string \<times> string) list"
  ro_connection_settings_changed :: bool

definition ReloadOutcome_default :: ReloadOutcome where
  "ReloadOutcome_default =
     \<lparr>ro_level = Noop, ro_added = [], ro_removed = [], ro_updated = [], ro_failed = [],
      ro_connection_settings_changed = False\<rparr>"

fun label :: "ReloadLevel \<Rightarrow> string" where
  "label Noop = ''noop''"
| "label TunnelsOnly = ''tunnels''"
| "label ReconnectControl = ''reconnect''"

definition succeeded :: "ReloadOutcome \<Rightarrow> bool" where
  "succeeded r \<longleftrightarrow> ro_failed r = []"

record TunnelChanges =
  tch_added :: "TunnelConfig list"
  tch_removed :: "string list"
  tch_updated :: "TunnelConfig list"

definition changes_is_empty :: "TunnelChanges \<Rightarrow> bool" where
  "changes_is_empty c \<longleftrightarrow> tch_added c = [] \<and> tch_removed c = [] \<and> tch_updated c = []"

datatype ReloadPlan = PlanNoop | Apply (plan_changes: TunnelChanges) (plan_connection: bool)

section \<open>The difference of two configurations\<close>

definition collect_by_name :: "TunnelConfig list \<Rightarrow> (string \<times> TunnelConfig) list" where
  "collect_by_name ts = fold (\<lambda>t m. AList.update (tnc_name t) t m) ts []"

text \<open>The loops over the two hash maps, given in the order in which the maps are iterated.\<close>

definition diff_entries :: "(string \<times> TunnelConfig) list \<Rightarrow> (string \<times> TunnelConfig) list \<Rightarrow> TunnelChanges" where
  "diff_entries old_map new_map =
     (let added = map snd (filter (\<lambda>(name, _). map_of old_map name = None) new_map);
          updated = map snd (filter (\<lambda>(name, cfg).
            case map_of old_map name of
              Some old_cfg \<Rightarrow> \<not> TunnelConfig_eq old_cfg cfg
            | None \<Rightarrow> False) new_map);
          removed = filter (\<lambda>name. map_of new_map name = None) (map fst old_map)
      in \<lparr>tch_added = sort_key tnc_name added, tch_removed = sort removed,
          tch_updated = sort_key tnc_name updated\<rparr>)"

definition diff_tunnels :: "TunnelConfig list \<Rightarrow> TunnelConfig list \<Rightarrow> TunnelChanges" where
  "diff_tunnels old new = diff_entries (collect_by_name old) (collect_by_name new)"

definition plan_reload :: "ClientConfig \<Rightarrow> ClientConfig \<Rightarrow> ReloadPlan" where
  "plan_reload old new =
     (if ClientConfig_eq old new then PlanNoop
      else
        let changes = diff_tunnels (cc_tunnels old) (cc_tunnels new);
            connection_settings_changed = (\<not> connection_settings_eq old new)
        in if changes_is_empty changes \<and> \<not> connection_settings_changed then PlanNoop
           else Apply changes connection_settings_changed)"

fun outcome_level :: "ReloadPlan \<Rightarrow> ReloadLevel" where
  "outcome_level PlanNoop = Noop"
| "outcome_level (Apply _ True) = ReconnectControl"
| "outcome_level (Apply _ False) = TunnelsOnly"

definition empty_outcome :: "ReloadPlan \<Rightarrow> ReloadOutcome" where
  "empty_outcome plan =
     ReloadOutcome_default\<lparr>ro_level := outcome_level plan,
       ro_connection_settings_changed := (case plan of Apply _ True \<Rightarrow> True | _ \<Rightarrow> False)\<rparr>"

definition outcome_from_plan :: "ReloadPlan \<Rightarrow> TunnelChanges \<Rightarrow> ReloadOutcome" where
  "outcome_from_plan plan changes =
     (let o1 = empty_outcome plan;
          o2 = (case plan of Apply _ True \<Rightarrow> o1\<lparr>ro_level := ReconnectControl\<rparr> | _ \<Rightarrow> o1)
      in o2\<lparr>ro_added := map tnc_name (tch_added changes), ro_removed := tch_removed changes,
            ro_updated := map tnc_name (tch_updated changes)\<rparr>)"

section \<open>Facts\<close>

lemma TunnelConfig_eq_name: "TunnelConfig_eq t u \<Longrightarrow> tnc_name t = tnc_name u"
  by (simp add: TunnelConfig_eq_def)

lemma TunnelConfig_eq_refl: "\<not> f64_is_nan (ttc_bandwidth (tnc_transport t)) \<Longrightarrow> TunnelConfig_eq t t"
  by (simp add: TunnelConfig_eq_def TunnelTransportConfig_eq_def f64_eq_def)

lemma map_of_collect_by_name:
  "map_of (collect_by_name ts) = map_of (rev (map (\<lambda>t. (tnc_name t, t)) ts))"
proof -
  have "map_of (fold (\<lambda>t m. AList.update (tnc_name t) t m) ts m0) =
      map_of m0 ++ map_of (rev (map (\<lambda>t. (tnc_name t, t)) ts))" for m0
    by (induction ts arbitrary: m0) (auto simp: update_conv' map_add_upd_left map_add_def fun_eq_iff split: option.splits)
  from this [of "[]"] show ?thesis by (simp add: collect_by_name_def)
qed

lemma distinct_collect_by_name: "distinct (map fst (collect_by_name ts))"
proof -
  have "distinct (map fst m0) \<Longrightarrow> distinct (map fst (fold (\<lambda>t m. AList.update (tnc_name t) t m) ts m0))" for m0
    by (induction ts arbitrary: m0) (simp_all add: distinct_update)
  then show ?thesis by (simp add: collect_by_name_def)
qed

lemma collect_by_name_names: "(n, t) \<in> set (collect_by_name ts) \<Longrightarrow> tnc_name t = n \<and> t \<in> set ts"
proof -
  assume "(n, t) \<in> set (collect_by_name ts)"
  then have "map_of (collect_by_name ts) n = Some t"
    using distinct_collect_by_name by (simp add: map_of_is_SomeI)
  then have "(n, t) \<in> set (rev (map (\<lambda>t. (tnc_name t, t)) ts))"
    unfolding map_of_collect_by_name by (rule map_of_SomeD)
  then show ?thesis by auto
qed

text \<open>With distinct names the table of a list of tunnels holds exactly its tunnels.\<close>

abbreviation table_of :: "TunnelConfig list \<Rightarrow> string \<rightharpoonup> TunnelConfig" where
  "table_of ts \<equiv> map_of (collect_by_name ts)"

lemma table_of_distinct:
  assumes "distinct (map tnc_name ts)"
  shows "table_of ts n = Some t \<longleftrightarrow> t \<in> set ts \<and> tnc_name t = n"
proof -
  have "map fst (rev (map (\<lambda>t. (tnc_name t, t)) ts)) = rev (map tnc_name ts)"
    by (simp add: rev_map o_def)
  then have "distinct (map fst (rev (map (\<lambda>t. (tnc_name t, t)) ts)))" using assms by simp
  then show ?thesis
    unfolding map_of_collect_by_name by (subst map_of_eq_Some_iff) auto
qed

lemma filter_eq_distinct: "distinct zs \<Longrightarrow> k \<in> set zs \<Longrightarrow> filter (\<lambda>x. x = k) zs = [k]"
  by (induction zs) (auto simp: filter_empty_conv)

lemma distinct_map_sort_key: "distinct (map f (sort_key f xs)) = distinct (map f xs)"
  by (rule mset_eq_imp_distinct_iff) simp

lemma sort_key_distinct_cong:
  fixes f :: "'a \<Rightarrow> 'k :: linorder"
  assumes "mset xs = mset ys" and "distinct (map f xs)"
  shows "sort_key f xs = sort_key f ys"
proof (rule properties_for_sort_key)
  show "mset (sort_key f ys) = mset xs" using assms(1) by simp
  have d: "distinct xs" and inj: "inj_on f (set xs)" using assms(2) by (simp_all add: distinct_map)
  have sets: "set ys = set xs" using assms(1) by (metis mset_eq_setD)
  have single: "filter (\<lambda>x. f k = f x) zs = [k]" if "mset zs = mset xs" and "k \<in> set xs" for zs k
  proof -
    have dz: "distinct zs" and sz: "set zs = set xs"
      using mset_eq_imp_distinct_iff [OF that(1)] mset_eq_setD [OF that(1)] d by simp_all
    have "filter (\<lambda>x. f k = f x) zs = filter (\<lambda>x. x = k) zs"
      using inj that(2) sz by (intro filter_cong) (auto dest: inj_onD)
    also have "\<dots> = [k]" using dz sz that(2) by (simp add: filter_eq_distinct)
    finally show ?thesis .
  qed
  show "filter (\<lambda>x. f k = f x) (sort_key f ys) = filter (\<lambda>x. f k = f x) xs" if "k \<in> set (sort_key f ys)" for k
    using that single [of xs k] single [of "sort_key f ys" k] assms(1) sets by simp
qed simp

text \<open>The order in which the hash maps are iterated does not matter.\<close>

lemma diff_entries_order:
  assumes "mset old = mset old'" and "mset new = mset new'"
    and "distinct (map fst old)" and "distinct (map fst new)" and "\<And>n t. (n, t) \<in> set new \<Longrightarrow> tnc_name t = n"
  shows "diff_entries old new = diff_entries old' new'"
proof -
  have same: "map_of old = map_of old'" "map_of new = map_of new'"
    using assms(1-4) by (metis map_of_inject_set mset_eq_setD mset_map mset_eq_imp_distinct_iff)+
  have pick: "sort_key tnc_name (map snd (filter P new)) = sort_key tnc_name (map snd (filter P new'))" for P
  proof (rule sort_key_distinct_cong)
    show "mset (map snd (filter P new)) = mset (map snd (filter P new'))" by (simp add: assms(2))
    have "map tnc_name (map snd (filter P new)) = map fst (filter P new)"
      using assms(5) by (auto simp: split_beta)
    then show "distinct (map tnc_name (map snd (filter P new)))"
      using assms(4) by (metis distinct_map_filter)
  qed
  have rest: "sort (filter Q (map fst old)) = sort (filter Q (map fst old'))" for Q
    by (rule properties_for_sort) (simp_all add: assms(1) mset_filter mset_map)
  show ?thesis unfolding diff_entries_def Let_def same pick rest ..
qed

lemma in_collect_by_name: "(n, t) \<in> set (collect_by_name ts) \<longleftrightarrow> table_of ts n = Some t"
  by (simp add: distinct_collect_by_name)

lemma selected_iff:
  "t \<in> snd ` {x \<in> set (collect_by_name ts). P x} \<longleftrightarrow> table_of ts (tnc_name t) = Some t \<and> P (tnc_name t, t)"
proof
  assume "t \<in> snd ` {x \<in> set (collect_by_name ts). P x}"
  then obtain n where "(n, t) \<in> set (collect_by_name ts)" "P (n, t)" by auto
  then show "table_of ts (tnc_name t) = Some t \<and> P (tnc_name t, t)"
    using collect_by_name_names [of n t ts] by (simp add: in_collect_by_name)
next
  assume "table_of ts (tnc_name t) = Some t \<and> P (tnc_name t, t)"
  then show "t \<in> snd ` {x \<in> set (collect_by_name ts). P x}"
    by (auto simp: in_collect_by_name intro!: rev_image_eqI [of "(tnc_name t, t)"])
qed

lemma in_added:
  "t \<in> set (tch_added (diff_tunnels old new)) \<longleftrightarrow>
     table_of new (tnc_name t) = Some t \<and> table_of old (tnc_name t) = None"
  by (simp add: diff_tunnels_def diff_entries_def Let_def selected_iff)

lemma in_updated:
  "t \<in> set (tch_updated (diff_tunnels old new)) \<longleftrightarrow>
     table_of new (tnc_name t) = Some t \<and>
     (\<exists>u. table_of old (tnc_name t) = Some u \<and> \<not> TunnelConfig_eq u t)"
  by (simp add: diff_tunnels_def diff_entries_def Let_def selected_iff split: option.split)

lemma in_removed:
  "n \<in> set (tch_removed (diff_tunnels old new)) \<longleftrightarrow> table_of old n \<noteq> None \<and> table_of new n = None"
  by (simp add: diff_tunnels_def diff_entries_def Let_def map_of_eq_None_iff conj_commute)

lemmas in_changes = in_added in_updated in_removed

lemma diff_tunnels_sorted:
  "sorted (map tnc_name (tch_added (diff_tunnels old new)))"
  "sorted (map tnc_name (tch_updated (diff_tunnels old new)))"
  "sorted (tch_removed (diff_tunnels old new))"
  by (simp_all add: diff_tunnels_def diff_entries_def Let_def)

lemma diff_tunnels_distinct:
  "distinct (map tnc_name (tch_added (diff_tunnels old new)))"
  "distinct (map tnc_name (tch_updated (diff_tunnels old new)))"
  "distinct (tch_removed (diff_tunnels old new))"
proof -
  have *: "distinct (map tnc_name (sort_key tnc_name (map snd (filter P (collect_by_name new)))))" for P
  proof -
    have "map tnc_name (map snd (filter P (collect_by_name new))) = map fst (filter P (collect_by_name new))"
      by (auto dest: collect_by_name_names)
    then have "distinct (map tnc_name (map snd (filter P (collect_by_name new))))"
      using distinct_collect_by_name by (metis distinct_map_filter)
    then show ?thesis by (simp only: distinct_map_sort_key)
  qed
  show "distinct (map tnc_name (tch_added (diff_tunnels old new)))"
    "distinct (map tnc_name (tch_updated (diff_tunnels old new)))"
    by (simp_all only: diff_tunnels_def diff_entries_def Let_def TunnelChanges.simps *)
  show "distinct (tch_removed (diff_tunnels old new))"
    using distinct_collect_by_name by (simp add: diff_tunnels_def diff_entries_def Let_def)
qed

text \<open>Nothing is to be changed exactly when the two tables agree.\<close>

lemma table_of_name: "table_of ts n = Some t \<Longrightarrow> tnc_name t = n"
  using collect_by_name_names by (simp add: in_collect_by_name [symmetric])

lemma diff_tunnels_empty:
  "changes_is_empty (diff_tunnels old new) \<longleftrightarrow>
     (\<forall>n. rel_option TunnelConfig_eq (table_of old n) (table_of new n))"
proof
  assume "changes_is_empty (diff_tunnels old new)"
  then have none: "t \<notin> set (tch_added (diff_tunnels old new))" "t \<notin> set (tch_updated (diff_tunnels old new))"
    "n \<notin> set (tch_removed (diff_tunnels old new))" for t n
    by (simp_all add: changes_is_empty_def)
  show "\<forall>n. rel_option TunnelConfig_eq (table_of old n) (table_of new n)"
  proof
    fix n
    show "rel_option TunnelConfig_eq (table_of old n) (table_of new n)"
    proof (cases "table_of new n")
      case None
      then show ?thesis using none(3) [of n] by (simp add: in_removed)
    next
      case (Some t)
      then have "tnc_name t = n" by (rule table_of_name)
      then show ?thesis using Some none(1,2) [of t] by (cases "table_of old n") (simp_all add: in_added in_updated)
    qed
  qed
next
  assume "\<forall>n. rel_option TunnelConfig_eq (table_of old n) (table_of new n)"
  then have eq: "rel_option TunnelConfig_eq (table_of old n) (table_of new n)" for n by blast
  have "t \<notin> set (tch_added (diff_tunnels old new))" "t \<notin> set (tch_updated (diff_tunnels old new))" for t
    using eq [of "tnc_name t"] by (auto simp: in_added in_updated option_rel_Some1 option_rel_Some2)
  moreover have "n \<notin> set (tch_removed (diff_tunnels old new))" for n
    using eq [of n] by (auto simp: in_removed)
  ultimately show "changes_is_empty (diff_tunnels old new)"
    unfolding changes_is_empty_def set_empty [symmetric] by (intro conjI equals0I) simp_all
qed

end
