(* ===== verification/Client_Tunnels.thy ===== *)
theory Client_Tunnels
  imports Client_Reload Bandwidth Proxy_Protocol Message_Codec
begin

text \<open>
  The tunnels of the client (\<open>client/src/tunnel/manager.rs\<close>), the construction of its plugins
  (\<open>client/src/plugin\<close>) and the decision what to do with a data connection. Loading or generating a
  certificate and parsing the text of a socket address are arguments; what follows the decision is
  the relaying of bytes.
\<close>

section \<open>Errors\<close>

datatype client_error =
    ConfigError cfg_error
  | ProxyProtocolError pp_error
  | ServiceRequired string
  | RemotePortMissing string string
  | ProtocolUnsupported string string
  | UnknownPlugin string
  | PluginNeedsService
  | PluginNeedsCredentials
  | TlsConfigFailed
  | UnknownTunnel string
  | BadService string
  | BadUdpService string
  | WriteBroken
  | ConnectFailed
  | ReadBroken
  | UnexpectedMessage u8
  | LoginRejected string
  | StartDataConnError string

section \<open>Plugins\<close>

datatype 'tls Plugin =
    TlsTermPlugin (local_addr: string) (host_header_rewrite: string) (acceptor: 'tls)
      (plugin_keepalive: TcpKeepaliveConfig)
  | Socks5Plugin (plugin_tunnel: string) (username: string) (password: string)

record PluginContext =
  px_name :: string
  px_cert_common_name :: string
  px_tcp_keepalive :: TcpKeepaliveConfig

definition TlsTermPlugin_new ::
    "(string \<Rightarrow> string \<Rightarrow> string \<Rightarrow> 'tls option) \<Rightarrow> PluginContext \<Rightarrow> PluginConfig \<Rightarrow> client_error + 'tls Plugin" where
  "TlsTermPlugin_new load_or_generate ctx cfg =
     (let addr = trim (pc_service cfg)
      in if addr = [] then Inl PluginNeedsService
         else
           let cn = (if px_cert_common_name ctx = [] then ''localhost'' else px_cert_common_name ctx)
           in (case load_or_generate (pc_cert_file cfg) (pc_key_file cfg) cn of
                 None \<Rightarrow> Inl TlsConfigFailed
               | Some tls \<Rightarrow> Inr (TlsTermPlugin addr (pc_host_header_rewrite cfg) tls (px_tcp_keepalive ctx))))"

definition required_credentials :: "PluginConfig \<Rightarrow> client_error + string \<times> string" where
  "required_credentials cfg =
     (let user = trim (pc_username cfg); pass = trim (pc_password cfg)
      in if user = [] \<or> pass = [] then Inl PluginNeedsCredentials else Inr (user, pass))"

definition Socks5Plugin_new :: "PluginContext \<Rightarrow> PluginConfig \<Rightarrow> client_error + 'tls Plugin" where
  "Socks5Plugin_new ctx cfg =
     rbind (required_credentials cfg) (\<lambda>(user, pass). Inr (Socks5Plugin (px_name ctx) user pass))"

text \<open>The test of a user name and password in \<open>Socks5Plugin::serve\<close>.\<close>

fun socks5_accepts :: "'tls Plugin \<Rightarrow> string \<Rightarrow> string \<Rightarrow> bool" where
  "socks5_accepts (Socks5Plugin _ expected_user expected_pass) user pass \<longleftrightarrow>
     user = expected_user \<and> pass = expected_pass"
| "socks5_accepts (TlsTermPlugin _ _ _ _) user pass \<longleftrightarrow> False"

definition plugin_create ::
    "(string \<Rightarrow> string \<Rightarrow> string \<Rightarrow> 'tls option) \<Rightarrow> PluginContext \<Rightarrow> PluginConfig \<Rightarrow> client_error + 'tls Plugin" where
  "plugin_create load_or_generate ctx cfg =
     (let ty = to_ascii_lowercase (trim (pc_plugin_type cfg))
      in if ty = ''tls-term'' then TlsTermPlugin_new load_or_generate ctx cfg
         else if ty = ''socks5'' then Socks5Plugin_new ctx cfg
         else Inl (UnknownPlugin ty))"

section \<open>Entries\<close>

record 'tls TunnelEntry =
  te_cfg :: TunnelConfig
  te_limiter :: "BandwidthLimiter option"
  te_plugin :: "'tls Plugin option"
  te_proxy_protocol :: "string option"
  te_tcp_keepalive :: TcpKeepaliveConfig
  te_udp_cancel :: "nat option"

definition pick_cert_common_name :: "string list \<Rightarrow> string \<Rightarrow> string" where
  "pick_cert_common_name domains tunnel_name =
     (let ds = filter (\<lambda>d. d \<noteq> []) (map trim domains)
      in case find (\<lambda>d. CHR ''.'' \<in> set d \<and> CHR ''*'' \<notin> set d) ds of
           Some d \<Rightarrow> to_ascii_lowercase d
         | None \<Rightarrow> (case ds of
                      d # _ \<Rightarrow> to_ascii_lowercase d
                    | [] \<Rightarrow> to_ascii_lowercase (trim tunnel_name)))"

definition entry_plugin ::
    "(string \<Rightarrow> string \<Rightarrow> string \<Rightarrow> 'tls option) \<Rightarrow> TunnelConfig \<Rightarrow> TcpKeepaliveConfig \<Rightarrow>
     client_error + 'tls Plugin option" where
  "entry_plugin load_or_generate tunnel keepalive =
     (case tnc_plugin tunnel of
        None \<Rightarrow> Inr None
      | Some pc \<Rightarrow>
          if pc_plugin_type pc = [] then Inr None
          else map_sum id Some (plugin_create load_or_generate
                 \<lparr>px_name = tnc_name tunnel,
                  px_cert_common_name = pick_cert_common_name (tnc_domains tunnel) (tnc_name tunnel),
                  px_tcp_keepalive = keepalive\<rparr> pc))"

definition build_entry ::
    "(string \<Rightarrow> string \<Rightarrow> string \<Rightarrow> 'tls option) \<Rightarrow> TunnelConfig \<Rightarrow> TcpKeepaliveConfig \<Rightarrow>
     client_error + 'tls TunnelEntry" where
  "build_entry load_or_generate tunnel keepalive =
     (let limiter = limiter_if_side (ttc_bandwidth (tnc_transport tunnel))
            (ttc_bandwidth_limit_side (tnc_transport tunnel)) Client
      in rbind (entry_plugin load_or_generate tunnel keepalive) (\<lambda>plugin.
           rbind (map_sum ProxyProtocolError id
                    (parse_proxy_protocol_version (ttc_proxy_protocol_version (tnc_transport tunnel))))
             (\<lambda>proxy_protocol. Inr
               \<lparr>te_cfg = tunnel, te_limiter = limiter, te_plugin = plugin, te_proxy_protocol = proxy_protocol,
                te_tcp_keepalive = keepalive, te_udp_cancel = None\<rparr>)))"

section \<open>The manager\<close>

text \<open>The UDP sessions of the client are numbered; \<open>ctm_stopped\<close> holds those that were told to stop.\<close>

record 'tls ClientTunnelManager =
  ctm_by_name :: "string \<rightharpoonup> 'tls TunnelEntry"
  ctm_udp_packet_size :: nat
  ctm_tcp_keepalive :: TcpKeepaliveConfig
  ctm_stopped :: "nat list"

definition upsert ::
    "(string \<Rightarrow> string \<Rightarrow> string \<Rightarrow> 'tls option) \<Rightarrow> TunnelConfig \<Rightarrow> 'tls ClientTunnelManager \<Rightarrow>
     client_error + 'tls ClientTunnelManager" where
  "upsert load_or_generate tunnel m =
     rbind (build_entry load_or_generate tunnel (ctm_tcp_keepalive m)) (\<lambda>entry.
       Inr (m\<lparr>ctm_by_name := (ctm_by_name m)(tnc_name tunnel \<mapsto> entry)\<rparr>))"

fun upsert_all ::
    "(string \<Rightarrow> string \<Rightarrow> string \<Rightarrow> 'tls option) \<Rightarrow> TunnelConfig list \<Rightarrow> 'tls ClientTunnelManager \<Rightarrow>
     client_error + 'tls ClientTunnelManager" where
  "upsert_all load_or_generate [] m = Inr m"
| "upsert_all load_or_generate (t # ts) m =
     rbind (upsert load_or_generate t m) (upsert_all load_or_generate ts)"

definition from_config ::
    "(string \<Rightarrow> string \<Rightarrow> string \<Rightarrow> 'tls option) \<Rightarrow> ClientConfig \<Rightarrow> client_error + 'tls ClientTunnelManager" where
  "from_config load_or_generate cfg =
     upsert_all load_or_generate (cc_tunnels cfg)
       \<lparr>ctm_by_name = Map.empty, ctm_udp_packet_size = max (cc_udp_packet_size cfg) 512,
        ctm_tcp_keepalive = client_tcp_keepalive (cc_transport cfg), ctm_stopped = []\<rparr>"

definition cancel_udp_sync :: "'tls TunnelEntry \<Rightarrow> nat list" where
  "cancel_udp_sync entry = (case te_udp_cancel entry of Some i \<Rightarrow> [i] | None \<Rightarrow> [])"

definition manager_remove :: "string \<Rightarrow> 'tls ClientTunnelManager \<Rightarrow> 'tls ClientTunnelManager" where
  "manager_remove name m =
     (case ctm_by_name m name of
        None \<Rightarrow> m
      | Some entry \<Rightarrow> m\<lparr>ctm_by_name := (ctm_by_name m)(name := None),
                       ctm_stopped := ctm_stopped m @ cancel_udp_sync entry\<rparr>)"

definition tunnel_names :: "'tls ClientTunnelManager \<Rightarrow> string list" where
  "tunnel_names m = sorted_list_of_set (dom (ctm_by_name m))"

section \<open>Data connections\<close>

datatype 'tls data_action =
    ByPlugin "'tls Plugin" "BandwidthLimiter option"
  | DialLocal string "u8 list" "BandwidthLimiter option"
  | ForwardUdp SocketAddr nat "string option" "BandwidthLimiter option"

definition handle_stream ::
    "ip6_text \<Rightarrow> 'tls TunnelEntry \<Rightarrow> StartDataConn \<Rightarrow> client_error + 'tls data_action" where
  "handle_stream ip6 entry start =
     (case te_plugin entry of
        Some plugin \<Rightarrow> Inr (ByPlugin plugin (te_limiter entry))
      | None \<Rightarrow>
          rbind (map_sum ConfigError id (service_host_port (te_cfg entry))) (\<lambda>(svc_host, svc_port).
            let addr = trim (tnc_service (te_cfg entry))
            in if addr = [] \<or> svc_port = 0 then Inl (BadService (tnc_name (te_cfg entry)))
               else (case te_proxy_protocol entry of
                       None \<Rightarrow> Inr (DialLocal addr [] (te_limiter entry))
                     | Some ver \<Rightarrow>
                         (case addrs_from_start_data_conn ip6 (sdc_src_addr start) (sdc_src_port start)
                                 (sdc_dst_addr start) (sdc_dst_port start) svc_port of
                            None \<Rightarrow> Inr (DialLocal addr [] (te_limiter entry))
                          | Some (src, dst) \<Rightarrow>
                              map_sum ProxyProtocolError (\<lambda>hdr. DialLocal addr hdr (te_limiter entry))
                                (build_proxy_protocol_header ip6 src dst ver)))))"

text \<open>A UDP tunnel has one session at a time: a new one, numbered \<open>i\<close>, stops the one before it.\<close>

definition handle_udp ::
    "(string \<Rightarrow> SocketAddr option) \<Rightarrow> nat \<Rightarrow> string \<Rightarrow> 'tls TunnelEntry \<Rightarrow> 'tls ClientTunnelManager \<Rightarrow>
     (client_error + 'tls data_action) \<times> 'tls ClientTunnelManager" where
  "handle_udp parse_socket i name entry m =
     (case parse_socket (trim (tnc_service (te_cfg entry))) of
        None \<Rightarrow> (Inl (BadUdpService (tnc_service (te_cfg entry))), m)
      | Some addr \<Rightarrow>
          (Inr (ForwardUdp addr (ctm_udp_packet_size m) (te_proxy_protocol entry) (te_limiter entry)),
           m\<lparr>ctm_by_name := (ctm_by_name m)(name \<mapsto> entry\<lparr>te_udp_cancel := Some i\<rparr>),
             ctm_stopped := ctm_stopped m @ cancel_udp_sync entry\<rparr>))"

definition serve_entry ::
    "ip6_text \<Rightarrow> (string \<Rightarrow> SocketAddr option) \<Rightarrow> nat \<Rightarrow> 'tls TunnelEntry \<Rightarrow> StartDataConn \<Rightarrow>
     'tls ClientTunnelManager \<Rightarrow> (client_error + 'tls data_action) \<times> 'tls ClientTunnelManager" where
  "serve_entry ip6 parse_socket i entry start m =
     (let proto = tnc_protocol (te_cfg entry)
      in if proto = ''udp'' then handle_udp parse_socket i (sdc_tunnel_name start) entry m
         else if proto \<in> {''tcp'', ''http'', ''https''} then (handle_stream ip6 entry start, m)
         else (Inl (ProtocolUnsupported (tnc_name (te_cfg entry)) proto), m))"

definition handle_data_conn ::
    "ip6_text \<Rightarrow> (string \<Rightarrow> SocketAddr option) \<Rightarrow> nat \<Rightarrow> StartDataConn \<Rightarrow> 'tls ClientTunnelManager \<Rightarrow>
     (client_error + 'tls data_action) \<times> 'tls ClientTunnelManager" where
  "handle_data_conn ip6 parse_socket i start m =
     (case ctm_by_name m (sdc_tunnel_name start) of
        None \<Rightarrow> (Inl (UnknownTunnel (sdc_tunnel_name start)), m)
      | Some entry \<Rightarrow> serve_entry ip6 parse_socket i entry start m)"

section \<open>Facts\<close>

lemma build_entry_cfg: "build_entry l t k = Inr e \<Longrightarrow> te_cfg e = t"
  by (auto simp: build_entry_def Let_def rbind_def split: sum.splits)

lemma upsert_Inr:
  "upsert l t m = Inr m' \<Longrightarrow>
     \<exists>e. build_entry l t (ctm_tcp_keepalive m) = Inr e \<and>
       m' = m\<lparr>ctm_by_name := (ctm_by_name m)(tnc_name t \<mapsto> e)\<rparr>"
  by (auto simp: upsert_def rbind_def split: sum.splits)

end
