(* ===== verification/Client_Session.thy ===== *)
theory Client_Session
  imports Client_Tunnels Auth
begin

text \<open>
  The control session of the client (\<open>client/src/control/session.rs\<close>): logging in, registering and
  closing tunnels, applying the changes of a reload, the message loop and the heartbeat. The task that
  reads from the server runs beside the one that registers tunnels; \<open>cl_inbox\<close> holds what it does at
  each point where the other one waits, a list of events for each point. The addresses of the
  tunnels the application shows (\<open>client/src/handle.rs\<close>) are updated by callbacks of the session.
\<close>

section \<open>Remote addresses shown by the application\<close>

record TunnelRemoteState =
  tr_gen :: u64
  tr_by_name :: "string \<rightharpoonup> string"

definition TunnelRemoteState_default :: TunnelRemoteState where
  "TunnelRemoteState_default = \<lparr>tr_gen = 0, tr_by_name = Map.empty\<rparr>"

definition tunnel_remotes_if_changed :: "TunnelRemoteState \<Rightarrow> u64 \<Rightarrow> (u64 \<times> (string \<rightharpoonup> string)) option" where
  "tunnel_remotes_if_changed g since_gen =
     (if tr_gen g = since_gen then None else Some (tr_gen g, tr_by_name g))"

definition clear_tunnel_remotes :: "TunnelRemoteState \<Rightarrow> TunnelRemoteState" where
  "clear_tunnel_remotes g = \<lparr>tr_gen = tr_gen g + 1, tr_by_name = Map.empty\<rparr>"

definition set_tunnel_remote :: "string \<Rightarrow> string \<Rightarrow> TunnelRemoteState \<Rightarrow> TunnelRemoteState" where
  "set_tunnel_remote name remote_addr g =
     (if name = [] then g
      else if tr_by_name g name = Some remote_addr then g
      else \<lparr>tr_gen = tr_gen g + 1, tr_by_name = (tr_by_name g)(name \<mapsto> remote_addr)\<rparr>)"

definition remove_tunnel_remote :: "string \<Rightarrow> TunnelRemoteState \<Rightarrow> TunnelRemoteState" where
  "remove_tunnel_remote name g =
     (if name = [] then g
      else if tr_by_name g name \<noteq> None
        then \<lparr>tr_gen = tr_gen g + 1, tr_by_name = (tr_by_name g)(name := None)\<rparr>
      else g)"

section \<open>State\<close>

record RegisterWatch =
  rw_pending :: "string set"
  rw_errors :: "string \<rightharpoonup> string"

definition watch_begin :: "string \<Rightarrow> RegisterWatch \<Rightarrow> RegisterWatch" where
  "watch_begin name w =
     \<lparr>rw_pending = insert name (rw_pending w), rw_errors = (rw_errors w)(name := None)\<rparr>"

definition watch_finish :: "string \<Rightarrow> string option \<Rightarrow> RegisterWatch \<Rightarrow> RegisterWatch" where
  "watch_finish name error w =
     \<lparr>rw_pending = rw_pending w - {name},
      rw_errors = (case error of Some err \<Rightarrow> (rw_errors w)(name \<mapsto> err) | None \<Rightarrow> rw_errors w)\<rparr>"

datatype ReaderEnd = ReaderClosed | ReaderKicked string

datatype SessionEnd = Disconnected string | Kicked string string

text \<open>What the reading task does: it handles a message (at a time in seconds), it finds the stream
  ended, it shuts the session down after its loop has ended; the connection may break at any time.\<close>

datatype reader_event = Incoming int Message | ReadError | RunnerShutdown | ConnectionBroken

record 'tls ClientControl =
  cl_session_id :: string
  cl_out :: "Message list"
  cl_writer_open :: bool
  cl_tunnels :: "'tls ClientTunnelManager"
  cl_cancelled :: bool
  cl_data_tasks :: nat
  cl_remotes :: TunnelRemoteState
  cl_last_pong_unix :: int
  cl_watch :: RegisterWatch
  cl_end :: "ReaderEnd option"
  cl_inbox :: "reader_event list list"

section \<open>Messages\<close>

definition omit_client_side :: "string \<Rightarrow> string" where
  "omit_client_side side =
     (let s = to_ascii_lowercase (trim side) in if s \<in> {[], ''client''} then [] else s)"

definition normalize_remote_addr :: "string \<Rightarrow> string \<Rightarrow> string" where
  "normalize_remote_addr server_addr remote_addr =
     (let remote = trim remote_addr
      in if remote = [] then []
         else (case strip_prefix '':'' remote of
                 None \<Rightarrow> remote
               | Some port \<Rightarrow>
                   let host = trim server_addr;
                       host = (case rsplit_once (CHR '':'') host of Some (h, _) \<Rightarrow> h | None \<Rightarrow> host)
                   in if host \<noteq> [] \<and> port \<noteq> [] \<and> CHR '':'' \<notin> set host then host @ '':'' @ port
                      else if host \<noteq> [] \<and> port \<noteq> [] then host @ '':'' @ port
                      else remote))"

definition validate_session_tunnel :: "TunnelConfig \<Rightarrow> client_error + unit" where
  "validate_session_tunnel p =
     rbind (map_sum ConfigError id (service_host_port p)) (\<lambda>(local_ip, local_port).
       if requires_local_service p \<and> local_port = 0 then Inl (ServiceRequired (tnc_name p))
       else if tnc_remote_port p = 0 \<and> tnc_protocol p \<in> {''tcp'', ''udp''}
         then Inl (RemotePortMissing (tnc_name p) (tnc_protocol p))
       else if tnc_protocol p \<in> {''tcp'', ''udp'', ''http'', ''https''} then Inr ()
       else Inl (ProtocolUnsupported (tnc_name p) (tnc_protocol p)))"

definition new_tunnel_base ::
    "string \<Rightarrow> string \<Rightarrow> i32 \<Rightarrow> string \<Rightarrow> u16 \<Rightarrow> TunnelTransportConfig \<Rightarrow> (NewTunnel \<Rightarrow> NewTunnel) \<Rightarrow> NewTunnel" where
  "new_tunnel_base name proto remote_port local_ip local_port transport extra =
     extra \<lparr>nt_tunnel_name = name, nt_protocol = proto, nt_remote_port = remote_port, nt_local_ip = local_ip,
       nt_local_port = ucast local_port, nt_domains = [], nt_locations = [], nt_basic_auth_user = [],
       nt_basic_auth_password = [], nt_host_header_rewrite = [], nt_headers = Map.empty,
       nt_response_headers = Map.empty, nt_bandwidth = ttc_bandwidth transport,
       nt_bandwidth_limit_side = omit_client_side (ttc_bandwidth_limit_side transport)\<rparr>"

definition build_new_tunnel_message :: "TunnelConfig \<Rightarrow> client_error + Message" where
  "build_new_tunnel_message p =
     rbind (map_sum ConfigError id (service_host_port p)) (\<lambda>(local_ip, local_port).
       let base = (\<lambda>proto port. new_tunnel_base (tnc_name p) proto port local_ip local_port (tnc_transport p))
       in if tnc_protocol p = ''tcp'' then Inr (NewTunnel (base ''tcp'' (ucast (tnc_remote_port p)) id))
          else if tnc_protocol p = ''udp'' then Inr (NewTunnel (base ''udp'' (ucast (tnc_remote_port p)) id))
          else if tnc_protocol p = ''http'' then
            Inr (NewTunnel (base ''http'' 0 (\<lambda>np. np\<lparr>nt_domains := tnc_domains p,
              nt_locations := tnc_locations p, nt_basic_auth_user := tnc_basic_auth_user p,
              nt_basic_auth_password := tnc_basic_auth_password p,
              nt_host_header_rewrite := tnc_host_header_rewrite p\<rparr>)))
          else if tnc_protocol p = ''https'' then
            Inr (NewTunnel (base ''https'' 0 (\<lambda>np. np\<lparr>nt_domains := tnc_domains p\<rparr>)))
          else Inl (ProtocolUnsupported (tnc_name p) (tnc_protocol p)))"

definition env_hostname :: "(string \<Rightarrow> string option) \<Rightarrow> string" where
  "env_hostname env =
     (case List.map_filter env [''HOSTNAME'', ''COMPUTERNAME'', ''HOST''] of
        s # _ \<Rightarrow> if trim s \<noteq> [] then trim s else ''unknown''
      | [] \<Rightarrow> ''unknown'')"

definition hostname :: "string option \<Rightarrow> (string \<Rightarrow> string option) \<Rightarrow> string" where
  "hostname system env =
     (case system of
        Some name \<Rightarrow> if trim name \<noteq> [] then trim name else env_hostname env
      | None \<Rightarrow> env_hostname env)"

section \<open>The message loop\<close>

text \<open>One message of \<open>reader_loop_inner\<close>; the loop looks at the cancellation first. A request for a data
  connection starts a task.\<close>

definition reader_step :: "string \<Rightarrow> int \<Rightarrow> Message \<Rightarrow> 'tls ClientControl \<Rightarrow> 'tls ClientControl" where
  "reader_step server now m c =
     (if cl_end c \<noteq> None then c
      else if cl_cancelled c then c\<lparr>cl_end := Some ReaderClosed\<rparr>
      else (case m of
              KickOut k \<Rightarrow> c\<lparr>cl_end := Some (ReaderKicked (ko_reason k))\<rparr>
            | ReqDataConn \<Rightarrow> c\<lparr>cl_data_tasks := Suc (cl_data_tasks c)\<rparr>
            | NewTunnelResp resp \<Rightarrow>
                if ntr_error resp = [] then
                  c\<lparr>cl_watch := watch_finish (ntr_tunnel_name resp) None (cl_watch c),
                    cl_remotes := set_tunnel_remote (ntr_tunnel_name resp)
                      (normalize_remote_addr server (ntr_remote_addr resp)) (cl_remotes c)\<rparr>
                else c\<lparr>cl_watch := watch_finish (ntr_tunnel_name resp) (Some (ntr_error resp)) (cl_watch c)\<rparr>
            | Pong _ \<Rightarrow> c\<lparr>cl_last_pong_unix := now\<rparr>
            | _ \<Rightarrow> c))"

definition session_shutdown :: "'tls ClientControl \<Rightarrow> 'tls ClientControl" where
  "session_shutdown c = c\<lparr>cl_cancelled := True, cl_writer_open := False, cl_data_tasks := 0\<rparr>"

fun run_reader :: "string \<Rightarrow> reader_event \<Rightarrow> 'tls ClientControl \<Rightarrow> 'tls ClientControl" where
  "run_reader server (Incoming now m) c = reader_step server now m c"
| "run_reader server ReadError c = (if cl_end c = None then c\<lparr>cl_end := Some ReaderClosed\<rparr> else c)"
| "run_reader server RunnerShutdown c = (if cl_end c = None then c else session_shutdown c)"
| "run_reader server ConnectionBroken c = c\<lparr>cl_writer_open := False\<rparr>"

text \<open>A point where the task that changes tunnels waits.\<close>

definition await_point :: "string \<Rightarrow> 'tls ClientControl \<Rightarrow> 'tls ClientControl" where
  "await_point server c =
     (case cl_inbox c of
        [] \<Rightarrow> c
      | es # rest \<Rightarrow> fold (run_reader server) es (c\<lparr>cl_inbox := rest\<rparr>))"

definition session_end :: "string \<Rightarrow> ReaderEnd \<Rightarrow> SessionEnd" where
  "session_end session_id e =
     (case e of ReaderKicked reason \<Rightarrow> Kicked session_id reason | ReaderClosed \<Rightarrow> Disconnected session_id)"

definition request_disconnect :: "'tls ClientControl \<Rightarrow> 'tls ClientControl" where
  "request_disconnect c = c\<lparr>cl_cancelled := True\<rparr>"

section \<open>Registering and closing tunnels\<close>

definition client_write :: "Message \<Rightarrow> 'tls ClientControl \<Rightarrow> (client_error + unit) \<times> 'tls ClientControl" where
  "client_write m c =
     (if cl_writer_open c then (Inr (), c\<lparr>cl_out := cl_out c @ [m]\<rparr>) else (Inl WriteBroken, c))"

definition close_session_tunnel ::
    "string \<Rightarrow> string \<Rightarrow> 'tls ClientControl \<Rightarrow> (client_error + unit) \<times> 'tls ClientControl" where
  "close_session_tunnel server name c =
     (case client_write (CloseTunnel \<lparr>ct_tunnel_name = name\<rparr>) (await_point server c) of
        (Inl e, c) \<Rightarrow> (Inl e, c)
      | (Inr _, c) \<Rightarrow> (Inr (), c\<lparr>cl_tunnels := manager_remove name (cl_tunnels c),
                                 cl_remotes := remove_tunnel_remote name (cl_remotes c)\<rparr>))"

definition register_session_tunnel ::
    "(string \<Rightarrow> string \<Rightarrow> string \<Rightarrow> 'tls option) \<Rightarrow> string \<Rightarrow> TunnelConfig \<Rightarrow> 'tls ClientControl \<Rightarrow>
     (client_error + unit) \<times> 'tls ClientControl" where
  "register_session_tunnel load_or_generate server tunnel c =
     (case validate_session_tunnel tunnel of
        Inl e \<Rightarrow> (Inl e, c)
      | Inr _ \<Rightarrow>
          (case build_new_tunnel_message tunnel of
             Inl e \<Rightarrow> (Inl e, c)
           | Inr m \<Rightarrow>
               (case upsert load_or_generate tunnel (cl_tunnels c) of
                  Inl e \<Rightarrow> (Inl e, c)
                | Inr tm \<Rightarrow>
                    client_write m (await_point server
                      (c\<lparr>cl_tunnels := tm, cl_watch := watch_begin (tnc_name tunnel) (cl_watch c)\<rparr>)))))"

definition close_all_tunnels :: "string \<Rightarrow> 'tls ClientControl \<Rightarrow> 'tls ClientControl" where
  "close_all_tunnels server c =
     fold (\<lambda>name c. snd (close_session_tunnel server name c)) (tunnel_names (cl_tunnels c)) c"

fun register_all_tunnels ::
    "(string \<Rightarrow> string \<Rightarrow> string \<Rightarrow> 'tls option) \<Rightarrow> string \<Rightarrow> TunnelConfig list \<Rightarrow> 'tls ClientControl \<Rightarrow>
     (client_error + unit) \<times> 'tls ClientControl" where
  "register_all_tunnels load_or_generate server [] c = (Inr (), c)"
| "register_all_tunnels load_or_generate server (t # ts) c =
     (case register_session_tunnel load_or_generate server t c of
        (Inl e, c) \<Rightarrow> (Inl e, c)
      | (Inr _, c) \<Rightarrow> register_all_tunnels load_or_generate server ts c)"

section \<open>Applying a reload\<close>

definition stop_names :: "TunnelChanges \<Rightarrow> string list" where
  "stop_names changes =
     remdups_adj (sort (fold (\<lambda>t ns. if tnc_name t \<in> set ns then ns else ns @ [tnc_name t])
       (tch_updated changes) (tch_removed changes)))"

definition stop_one ::
    "(client_error \<Rightarrow> string) \<Rightarrow> string \<Rightarrow> TunnelChanges \<Rightarrow> string \<Rightarrow> ReloadOutcome \<times> 'tls ClientControl \<Rightarrow>
     ReloadOutcome \<times> 'tls ClientControl" where
  "stop_one to_string server changes name = (\<lambda>(r, c).
     (case close_session_tunnel server name c of
        (Inr _, c) \<Rightarrow>
          (if name \<in> set (tch_removed changes) then r\<lparr>ro_removed := ro_removed r @ [name]\<rparr> else r, c)
      | (Inl e, c) \<Rightarrow> (r\<lparr>ro_failed := ro_failed r @ [(name, to_string e)]\<rparr>, c)))"

definition start_one ::
    "(client_error \<Rightarrow> string) \<Rightarrow> (string \<Rightarrow> string \<Rightarrow> string \<Rightarrow> 'tls option) \<Rightarrow> string \<Rightarrow> TunnelChanges \<Rightarrow> TunnelConfig \<Rightarrow>
     string list \<times> ReloadOutcome \<times> 'tls ClientControl \<Rightarrow> string list \<times> ReloadOutcome \<times> 'tls ClientControl" where
  "start_one to_string load_or_generate server changes tunnel = (\<lambda>(started, r, c).
     (if tnc_name tunnel \<in> fst ` set (ro_failed r) then (started, r, c)
      else
        let is_added = (tnc_name tunnel \<in> tnc_name ` set (tch_added changes))
        in (case register_session_tunnel load_or_generate server tunnel c of
              (Inr _, c) \<Rightarrow>
                (started @ [tnc_name tunnel],
                 if is_added then r\<lparr>ro_added := ro_added r @ [tnc_name tunnel]\<rparr>
                 else r\<lparr>ro_updated := ro_updated r @ [tnc_name tunnel]\<rparr>, c)
            | (Inl e, c) \<Rightarrow> (started, r\<lparr>ro_failed := ro_failed r @ [(tnc_name tunnel, to_string e)]\<rparr>, c))))"

text \<open>The loop that waits for the answers looks at the clock once a turn; \<open>clocks\<close> are the times it sees,
  in milliseconds, and \<open>None\<close> means that it is still waiting after them.\<close>

fun collect_register_errors ::
    "string \<Rightarrow> string list \<Rightarrow> nat \<Rightarrow> nat list \<Rightarrow> 'tls ClientControl \<Rightarrow>
     (string \<times> string) list option \<times> 'tls ClientControl" where
  "collect_register_errors server names deadline [] c = (None, c)"
| "collect_register_errors server names deadline (now # clocks) c =
     (let c = await_point server c
      in if \<not> list_ex (\<lambda>n. n \<in> rw_pending (cl_watch c)) names
         then (Some (List.map_filter (\<lambda>n. map_option (Pair n) (rw_errors (cl_watch c) n)) names), c)
         else
           let c = await_point server c
           in if deadline \<le> now
              then (Some (List.map_filter (\<lambda>n.
                      if n \<in> rw_pending (cl_watch c) then Some (n, ''tunnel start timed out'')
                      else map_option (Pair n) (rw_errors (cl_watch c) n)) names), c)
              else collect_register_errors server names deadline clocks c)"

definition note_register_error :: "string \<times> string \<Rightarrow> ReloadOutcome \<Rightarrow> ReloadOutcome" where
  "note_register_error = (\<lambda>(name, err) r.
     (let r = r\<lparr>ro_added := filter (\<lambda>n. n \<noteq> name) (ro_added r),
               ro_updated := filter (\<lambda>n. n \<noteq> name) (ro_updated r)\<rparr>
      in if name \<in> fst ` set (ro_failed r) then r
         else r\<lparr>ro_failed := ro_failed r @ [(name, err)]\<rparr>))"

definition apply_tunnel_changes ::
    "(client_error \<Rightarrow> string) \<Rightarrow> (string \<Rightarrow> string \<Rightarrow> string \<Rightarrow> 'tls option) \<Rightarrow> string \<Rightarrow> nat \<Rightarrow> nat list \<Rightarrow>
     TunnelChanges \<Rightarrow> 'tls ClientControl \<Rightarrow> ReloadOutcome option \<times> 'tls ClientControl" where
  "apply_tunnel_changes to_string load_or_generate server now clocks changes c =
     (let r = ReloadOutcome_default\<lparr>ro_level := TunnelsOnly\<rparr>;
          (r, c) = fold (stop_one to_string server changes) (stop_names changes) (r, c);
          (started, r, c) = fold (start_one to_string load_or_generate server changes)
            (tch_updated changes @ tch_added changes) ([], r, c)
      in if started = [] then (Some r, c)
         else (case collect_register_errors server started (now + 5000) clocks c of
                 (None, c) \<Rightarrow> (None, c)
               | (Some errors, c) \<Rightarrow> (Some (fold note_register_error errors r), c)))"

section \<open>Opening a session\<close>

text \<open>What the connection delivers: whether it opens, whether the login is written, and the answer.\<close>

record login_io =
  li_connects :: bool
  li_written :: bool
  li_answer :: "Message option"

definition login_message ::
    "crypto \<Rightarrow> string \<Rightarrow> string \<Rightarrow> string \<Rightarrow> string \<Rightarrow> ClientConfig \<Rightarrow> string \<Rightarrow> i64 \<Rightarrow> Login" where
  "login_message C version host os arch cfg previous_session_id timestamp =
     \<lparr>login_version = version, login_hostname = host, login_os = os, login_arch = arch,
      login_user = cc_user cfg, login_agent_id = cc_agent_id cfg,
      login_auth_digest = compute_auth_digest C (ac_token (cc_auth cfg)) timestamp,
      login_timestamp = timestamp, login_session_id = previous_session_id,
      login_pool_count = tc_pool_count (cc_transport cfg)\<rparr>"

definition open_session ::
    "(string \<Rightarrow> string \<Rightarrow> string \<Rightarrow> 'tls option) \<Rightarrow> login_io \<Rightarrow> ClientConfig \<Rightarrow> TunnelRemoteState \<Rightarrow> int \<Rightarrow>
     reader_event list list \<Rightarrow> client_error + 'tls ClientControl" where
  "open_session load_or_generate io cfg remotes now inbox =
     (if \<not> li_connects io then Inl ConnectFailed
      else if \<not> li_written io then Inl WriteBroken
      else (case li_answer io of
              None \<Rightarrow> Inl ReadBroken
            | Some (LoginResp resp) \<Rightarrow>
                if lr_error resp \<noteq> [] then Inl (LoginRejected (lr_error resp))
                else rbind (from_config load_or_generate cfg) (\<lambda>tunnels.
                  (case register_all_tunnels load_or_generate (cc_server cfg) (cc_tunnels cfg)
                      \<lparr>cl_session_id = lr_session_id resp, cl_out = [], cl_writer_open = True,
                       cl_tunnels = tunnels, cl_cancelled = False, cl_data_tasks = 0,
                       cl_remotes = remotes, cl_last_pong_unix = now,
                       cl_watch = \<lparr>rw_pending = {}, rw_errors = Map.empty\<rparr>,
                       cl_end = None, cl_inbox = inbox\<rparr> of
                     (Inl e, _) \<Rightarrow> Inl e
                   | (Inr _, c) \<Rightarrow> Inr c))
            | Some other \<Rightarrow> Inl (UnexpectedMessage (type_byte other))))"

section \<open>Heartbeat\<close>

definition saturating_i64 :: "int \<Rightarrow> int" where
  "saturating_i64 x = max (- (2 ^ 63)) (min (2 ^ 63 - 1) x)"

definition effective_ping_interval :: "TransportConfig option \<Rightarrow> int" where
  "effective_ping_interval try_read =
     (let transport = (case try_read of Some t \<Rightarrow> t | None \<Rightarrow> TransportConfig_default);
          hb = sint (tc_heartbeat_interval transport);
          mux_ka = sint (tc_mux_keepalive_secs transport)
      in if 0 < hb then hb
         else if tc_tcp_mux transport \<and> 0 < mux_ka then mux_ka
         else -1)"

definition effective_pong_timeout :: "TransportConfig option \<Rightarrow> int" where
  "effective_pong_timeout try_read =
     (let transport = (case try_read of Some t \<Rightarrow> t | None \<Rightarrow> TransportConfig_default);
          hb_to = sint (tc_heartbeat_timeout transport);
          mux_ka = sint (tc_mux_keepalive_secs transport)
      in if 0 < hb_to then hb_to
         else if sint (tc_heartbeat_interval transport) \<le> 0 \<and> tc_tcp_mux transport \<and> 0 < mux_ka
           then saturating_i64 (mux_ka * 3)
         else -1)"

text \<open>One turn of the two loops, with the time at its end; the result says whether the loop goes on.
  A loop whose period is not positive waits for ever.\<close>

definition heartbeat_timeout_turn :: "int \<Rightarrow> int \<Rightarrow> 'tls ClientControl \<Rightarrow> bool \<times> 'tls ClientControl" where
  "heartbeat_timeout_turn timeout now c =
     (if timeout \<le> 0 then (True, c)
      else if cl_cancelled c then (False, c)
      else if 0 < cl_last_pong_unix c \<and> timeout < saturating_i64 (now - cl_last_pong_unix c)
        then (False, c\<lparr>cl_cancelled := True\<rparr>)
      else (True, c))"

definition heartbeat_turn :: "crypto \<Rightarrow> int \<Rightarrow> string \<Rightarrow> i64 \<Rightarrow> 'tls ClientControl \<Rightarrow> bool \<times> 'tls ClientControl" where
  "heartbeat_turn C secs token timestamp c =
     (if secs \<le> 0 then (True, c)
      else if cl_cancelled c then (False, c)
      else (case client_write (Ping \<lparr>ping_auth_digest = compute_auth_digest C token timestamp,
                ping_timestamp = timestamp\<rparr>) c of
              (Inl _, c) \<Rightarrow> (False, c)
            | (Inr _, c) \<Rightarrow> (True, c)))"

section \<open>Data connections\<close>

definition new_data_conn_message :: "crypto \<Rightarrow> string \<Rightarrow> i64 \<Rightarrow> 'tls ClientControl \<Rightarrow> Message" where
  "new_data_conn_message C token timestamp c =
     NewDataConn \<lparr>ndc_session_id = cl_session_id c,
       ndc_auth_digest = compute_auth_digest C token timestamp, ndc_timestamp = timestamp\<rparr>"

text \<open>What the task of a data connection does with the first message it reads; \<open>None\<close> is the end of a
  task whose session was cancelled.\<close>

definition handle_req_data_conn ::
    "ip6_text \<Rightarrow> (string \<Rightarrow> SocketAddr option) \<Rightarrow> nat \<Rightarrow> login_io \<Rightarrow> 'tls ClientControl \<Rightarrow>
     (client_error + 'tls data_action option) \<times> 'tls ClientControl" where
  "handle_req_data_conn ip6 parse_socket i io c =
     (if \<not> li_connects io then (Inl ConnectFailed, c)
      else if \<not> li_written io then (Inl WriteBroken, c)
      else if cl_cancelled c then (Inr None, c)
      else (case li_answer io of
              None \<Rightarrow> (Inl ReadBroken, c)
            | Some (StartDataConn start) \<Rightarrow>
                if sdc_error start \<noteq> [] then (Inl (StartDataConnError (sdc_error start)), c)
                else (case handle_data_conn ip6 parse_socket i start (cl_tunnels c) of
                        (r, tm) \<Rightarrow> (map_sum id Some r, c\<lparr>cl_tunnels := tm\<rparr>))
            | Some other \<Rightarrow> (Inl (UnexpectedMessage (type_byte other)), c)))"


section \<open>What the reading task leaves alone\<close>

text \<open>The configurations of the tunnels a session has.\<close>

definition cfg_table :: "'tls ClientControl \<Rightarrow> string \<rightharpoonup> TunnelConfig" where
  "cfg_table c n = map_option te_cfg (ctm_by_name (cl_tunnels c) n)"

lemma reader_step_tunnels: "cl_tunnels (reader_step server now m c) = cl_tunnels c"
  by (cases m) (simp_all add: reader_step_def)

lemma run_reader_tunnels: "cl_tunnels (run_reader server e c) = cl_tunnels c"
  by (cases e) (simp_all add: reader_step_tunnels session_shutdown_def)

lemma fold_run_reader_tunnels: "cl_tunnels (fold (run_reader server) es c) = cl_tunnels c"
  by (induction es arbitrary: c) (simp_all add: run_reader_tunnels)

lemma await_point_tunnels [simp]: "cl_tunnels (await_point server c) = cl_tunnels c"
  by (simp add: await_point_def fold_run_reader_tunnels split: list.split)

lemma client_write_tunnels: "client_write m c = (x, c') \<Longrightarrow> cl_tunnels c' = cl_tunnels c"
  by (auto simp: client_write_def split: if_splits)

lemma collect_register_errors_tunnels:
  "collect_register_errors server names deadline clocks c = (x, c') \<Longrightarrow> cl_tunnels c' = cl_tunnels c"
  by (induction server names deadline clocks c rule: collect_register_errors.induct)
    (auto simp: Let_def split: if_splits)

section \<open>Closing and registering\<close>

lemma close_session_tunnel_ok:
  assumes "close_session_tunnel server n c = (Inr u, c')"
  shows "cfg_table c' = (cfg_table c)(n := None)"
proof -
  have "cl_tunnels c' = manager_remove n (cl_tunnels c)"
    using assms
    by (auto simp: close_session_tunnel_def client_write_def split: prod.splits sum.splits if_splits)
  then show ?thesis by (auto simp: cfg_table_def manager_remove_def fun_eq_iff split: option.split)
qed

lemma close_session_tunnel_err:
  "close_session_tunnel server n c = (Inl e, c') \<Longrightarrow> cfg_table c' = cfg_table c"
  by (auto simp: close_session_tunnel_def client_write_def cfg_table_def fun_eq_iff
      split: prod.splits sum.splits if_splits)

lemma register_session_tunnel_ok:
  assumes "register_session_tunnel l server t c = (Inr u, c')"
  shows "cfg_table c' = (cfg_table c)(tnc_name t \<mapsto> t)"
proof -
  obtain tm where "upsert l t (cl_tunnels c) = Inr tm" "cl_tunnels c' = tm"
    using assms by (auto simp: register_session_tunnel_def split: sum.splits dest: client_write_tunnels)
  then show ?thesis
    by (auto simp: cfg_table_def fun_eq_iff build_entry_cfg dest!: upsert_Inr)
qed

lemma register_session_tunnel_err:
  assumes "register_session_tunnel l server t c = (Inl e, c')" and "n \<noteq> tnc_name t"
  shows "cfg_table c' n = cfg_table c n"
  using assms
  by (auto simp: register_session_tunnel_def cfg_table_def split: sum.splits dest!: client_write_tunnels upsert_Inr)

section \<open>The loops of a reload\<close>

lemma set_stop_names: "set (stop_names ch) = set (tch_removed ch) \<union> tnc_name ` set (tch_updated ch)"
proof -
  have "set (fold (\<lambda>t ns. if tnc_name t \<in> set ns then ns else ns @ [tnc_name t]) ts ns) =
      set ns \<union> tnc_name ` set ts" for ts :: "TunnelConfig list" and ns
    by (induction ts arbitrary: ns) auto
  then show ?thesis by (simp add: stop_names_def)
qed

lemma distinct_remdups_adj_sorted: "sorted xs \<Longrightarrow> distinct (remdups_adj xs)"
  by (induction xs rule: remdups_adj.induct) auto

lemma distinct_stop_names: "distinct (stop_names ch)"
  by (simp add: stop_names_def distinct_remdups_adj_sorted)

lemma stop_fold:
  assumes "fold (stop_one ts server ch) ns (r, c) = (r', c')"
    and "distinct ns" and "set ns \<inter> fst ` set (ro_failed r) = {}"
  shows "\<exists>F \<subseteq> set ns. fst ` set (ro_failed r') = fst ` set (ro_failed r) \<union> F \<and>
     (distinct (map fst (ro_failed r)) \<longrightarrow> distinct (map fst (ro_failed r'))) \<and>
     ro_removed r' = ro_removed r @ filter (\<lambda>n. n \<in> set (tch_removed ch) \<and> n \<notin> F) ns \<and>
     ro_added r' = ro_added r \<and> ro_updated r' = ro_updated r \<and>
     cfg_table c' = (\<lambda>n. if n \<in> set ns - F then None else cfg_table c n)"
  using assms
proof (induction ns arbitrary: r c)
  case Nil
  then show ?case by auto
next
  case (Cons n ns)
  obtain x c1 where close: "close_session_tunnel server n c = (x, c1)" by fastforce
  show ?case
  proof (cases x)
    case (Inr u)
    define r1 where "r1 = (if n \<in> set (tch_removed ch) then r\<lparr>ro_removed := ro_removed r @ [n]\<rparr> else r)"
    have r1: "ro_failed r1 = ro_failed r" "ro_added r1 = ro_added r" "ro_updated r1 = ro_updated r"
      by (simp_all add: r1_def)
    have "fold (stop_one ts server ch) ns (r1, c1) = (r', c')"
      using Cons.prems(1) by (simp add: stop_one_def [of ts server ch n] close Inr r1_def split: if_splits)
    from Cons.IH [OF this] obtain F where F: "F \<subseteq> set ns" "fst ` set (ro_failed r') = fst ` set (ro_failed r) \<union> F"
      "distinct (map fst (ro_failed r)) \<longrightarrow> distinct (map fst (ro_failed r'))"
      "ro_removed r' = ro_removed r1 @ filter (\<lambda>n. n \<in> set (tch_removed ch) \<and> n \<notin> F) ns"
      "ro_added r' = ro_added r" "ro_updated r' = ro_updated r"
      "cfg_table c' = (\<lambda>n. if n \<in> set ns - F then None else cfg_table c1 n)"
      using Cons.prems(2,3) unfolding r1 by auto
    moreover have "n \<notin> F" using F(1) Cons.prems(2) by auto
    ultimately show ?thesis
      using close_session_tunnel_ok [OF close [unfolded Inr]]
      by (intro exI [of _ F]) (auto simp: r1_def fun_eq_iff)
  next
    case (Inl e)
    define r1 where "r1 = r\<lparr>ro_failed := ro_failed r @ [(n, ts e)]\<rparr>"
    have r1: "fst ` set (ro_failed r1) = insert n (fst ` set (ro_failed r))" "ro_added r1 = ro_added r"
      "ro_updated r1 = ro_updated r" "ro_removed r1 = ro_removed r"
      by (simp_all add: r1_def)
    have "fold (stop_one ts server ch) ns (r1, c1) = (r', c')"
      using Cons.prems(1) by (simp add: stop_one_def [of ts server ch n] close Inl r1_def)
    from Cons.IH [OF this] obtain F where F: "F \<subseteq> set ns" "fst ` set (ro_failed r') = insert n (fst ` set (ro_failed r)) \<union> F"
      "distinct (map fst (ro_failed r1)) \<longrightarrow> distinct (map fst (ro_failed r'))"
      "ro_removed r' = ro_removed r @ filter (\<lambda>n. n \<in> set (tch_removed ch) \<and> n \<notin> F) ns"
      "ro_added r' = ro_added r" "ro_updated r' = ro_updated r"
      "cfg_table c' = (\<lambda>n. if n \<in> set ns - F then None else cfg_table c1 n)"
      using Cons.prems(2,3) unfolding r1 by auto
    have "filter (\<lambda>m. m \<in> set (tch_removed ch) \<and> m \<notin> F) ns =
        filter (\<lambda>m. m \<in> set (tch_removed ch) \<and> m \<notin> insert n F) (n # ns)"
      using Cons.prems(2) by (auto intro!: filter_cong)
    moreover have "distinct (map fst (ro_failed r)) \<longrightarrow> distinct (map fst (ro_failed r1))"
      using Cons.prems(3) by (auto simp: r1_def)
    ultimately show ?thesis
      using F close_session_tunnel_err [OF close [unfolded Inl]] Cons.prems(2)
      by (intro exI [of _ "insert n F"]) (auto simp: fun_eq_iff)
  qed
qed


lemma start_fold:
  assumes "fold (start_one s l server ch) ts (st, r, c) = (st', r', c')" and "distinct (map tnc_name ts)"
    and "D = fst ` set (ro_failed r)" and "A = tnc_name ` set (tch_added ch)"
  shows "\<exists>F \<subseteq> tnc_name ` set ts - D. fst ` set (ro_failed r') = D \<union> F \<and>
     (distinct (map fst (ro_failed r)) \<longrightarrow> distinct (map fst (ro_failed r'))) \<and>
     st' = st @ filter (\<lambda>n. n \<notin> D \<union> F) (map tnc_name ts) \<and>
     ro_added r' = ro_added r @ filter (\<lambda>n. n \<in> A) (filter (\<lambda>n. n \<notin> D \<union> F) (map tnc_name ts)) \<and>
     ro_updated r' = ro_updated r @ filter (\<lambda>n. n \<notin> A) (filter (\<lambda>n. n \<notin> D \<union> F) (map tnc_name ts)) \<and>
     ro_removed r' = ro_removed r \<and>
     (\<forall>t \<in> set ts. tnc_name t \<notin> D \<union> F \<longrightarrow> cfg_table c' (tnc_name t) = Some t) \<and>
     (\<forall>n. n \<notin> tnc_name ` set ts - D \<longrightarrow> cfg_table c' n = cfg_table c n)"
  using assms(1-3)
proof (induction ts arbitrary: st r c D)
  case Nil
  then show ?case by auto
next
  case (Cons t ts)
  let ?n = "tnc_name t"
  have dist: "distinct (map tnc_name ts)" and new: "?n \<notin> tnc_name ` set ts" using Cons.prems(2) by auto
  obtain x c1 where reg: "register_session_tunnel l server t c = (x, c1)" by fastforce
  consider (skip) "?n \<in> D" | (ok) u where "?n \<notin> D" "x = Inr u" | (err) e where "?n \<notin> D" "x = Inl e"
    by (cases x) auto
  then show ?case
  proof cases
    case skip
    then have "fold (start_one s l server ch) ts (st, r, c) = (st', r', c')"
      using Cons.prems(1,3) by (simp add: start_one_def [of s l server ch t])
    from Cons.IH [OF this dist Cons.prems(3)] obtain F where
      F: "F \<subseteq> tnc_name ` set ts - D" "fst ` set (ro_failed r') = D \<union> F"
      "distinct (map fst (ro_failed r)) \<longrightarrow> distinct (map fst (ro_failed r'))"
      "st' = st @ filter (\<lambda>n. n \<notin> D \<union> F) (map tnc_name ts)"
      "ro_added r' = ro_added r @ filter (\<lambda>n. n \<in> A) (filter (\<lambda>n. n \<notin> D \<union> F) (map tnc_name ts))"
      "ro_updated r' = ro_updated r @ filter (\<lambda>n. n \<notin> A) (filter (\<lambda>n. n \<notin> D \<union> F) (map tnc_name ts))"
      "ro_removed r' = ro_removed r"
      "\<forall>t \<in> set ts. tnc_name t \<notin> D \<union> F \<longrightarrow> cfg_table c' (tnc_name t) = Some t"
      "\<forall>n. n \<notin> tnc_name ` set ts - D \<longrightarrow> cfg_table c' n = cfg_table c n"
      by auto
    moreover have "tnc_name ` set (t # ts) - D = tnc_name ` set ts - D" using skip by auto
    ultimately show ?thesis using skip by (intro exI [of _ F]) auto
  next
    case ok
    define r1 where "r1 = (if ?n \<in> A then r\<lparr>ro_added := ro_added r @ [?n]\<rparr>
      else r\<lparr>ro_updated := ro_updated r @ [?n]\<rparr>)"
    have r1: "ro_failed r1 = ro_failed r" "ro_removed r1 = ro_removed r" by (simp_all add: r1_def)
    have "fold (start_one s l server ch) ts (st @ [?n], r1, c1) = (st', r', c')"
      using Cons.prems(1,3) ok reg assms(4) by (simp add: start_one_def [of s l server ch t] r1_def)
    from Cons.IH [OF this dist Cons.prems(3) [folded r1(1)]] obtain F where
      F: "F \<subseteq> tnc_name ` set ts - D" "fst ` set (ro_failed r') = D \<union> F"
      "distinct (map fst (ro_failed r)) \<longrightarrow> distinct (map fst (ro_failed r'))"
      "st' = (st @ [?n]) @ filter (\<lambda>n. n \<notin> D \<union> F) (map tnc_name ts)"
      "ro_added r' = ro_added r1 @ filter (\<lambda>n. n \<in> A) (filter (\<lambda>n. n \<notin> D \<union> F) (map tnc_name ts))"
      "ro_updated r' = ro_updated r1 @ filter (\<lambda>n. n \<notin> A) (filter (\<lambda>n. n \<notin> D \<union> F) (map tnc_name ts))"
      "ro_removed r' = ro_removed r"
      "\<forall>t \<in> set ts. tnc_name t \<notin> D \<union> F \<longrightarrow> cfg_table c' (tnc_name t) = Some t"
      "\<forall>n. n \<notin> tnc_name ` set ts - D \<longrightarrow> cfg_table c' n = cfg_table c1 n"
      unfolding r1 by auto
    have "?n \<notin> F" using F(1) new by auto
    moreover have "cfg_table c' ?n = Some t" "\<forall>n. n \<notin> tnc_name ` set (t # ts) - D \<longrightarrow> cfg_table c' n = cfg_table c n"
      using F(9) new ok(1) register_session_tunnel_ok [OF reg [unfolded ok(2)]] by auto
    ultimately show ?thesis using F ok(1)
      by (intro exI [of _ F]) (auto simp: r1_def)
  next
    case err
    define r1 where "r1 = r\<lparr>ro_failed := ro_failed r @ [(?n, s e)]\<rparr>"
    have r1: "ro_added r1 = ro_added r" "ro_updated r1 = ro_updated r" "ro_removed r1 = ro_removed r"
      by (simp_all add: r1_def)
    have D1: "insert ?n D = fst ` set (ro_failed r1)" using Cons.prems(3) by (simp add: r1_def)
    have "fold (start_one s l server ch) ts (st, r1, c1) = (st', r', c')"
      using Cons.prems(1,3) err reg by (simp add: start_one_def [of s l server ch t] r1_def)
    from Cons.IH [OF this dist D1] obtain F where
      F: "F \<subseteq> tnc_name ` set ts - insert ?n D" "fst ` set (ro_failed r') = insert ?n D \<union> F"
      "distinct (map fst (ro_failed r1)) \<longrightarrow> distinct (map fst (ro_failed r'))"
      "st' = st @ filter (\<lambda>n. n \<notin> insert ?n D \<union> F) (map tnc_name ts)"
      "ro_added r' = ro_added r @ filter (\<lambda>n. n \<in> A) (filter (\<lambda>n. n \<notin> insert ?n D \<union> F) (map tnc_name ts))"
      "ro_updated r' = ro_updated r @ filter (\<lambda>n. n \<notin> A) (filter (\<lambda>n. n \<notin> insert ?n D \<union> F) (map tnc_name ts))"
      "ro_removed r' = ro_removed r"
      "\<forall>t \<in> set ts. tnc_name t \<notin> insert ?n D \<union> F \<longrightarrow> cfg_table c' (tnc_name t) = Some t"
      "\<forall>n. n \<notin> tnc_name ` set ts - insert ?n D \<longrightarrow> cfg_table c' n = cfg_table c1 n"
      unfolding r1 by auto
    have "distinct (map fst (ro_failed r)) \<longrightarrow> distinct (map fst (ro_failed r1))"
      using err(1) Cons.prems(3) by (auto simp: r1_def)
    moreover have "cfg_table c' n = cfg_table c n" if "n \<notin> tnc_name ` set (t # ts) - D" for n
    proof -
      have "n \<noteq> ?n" using that err(1) by auto
      then have "cfg_table c1 n = cfg_table c n" by (rule register_session_tunnel_err [OF reg [unfolded err(2)]])
      then show ?thesis using F(9) that by auto
    qed
    moreover have "filter (\<lambda>n. n \<notin> insert ?n D \<union> F) (map tnc_name ts) =
        filter (\<lambda>n. n \<notin> D \<union> insert ?n F) (map tnc_name (t # ts))" by simp
    ultimately show ?thesis using F err(1) new
      by (intro exI [of _ "insert ?n F"]) auto
  qed
qed

lemma note_register_error_fields:
  "ro_added (note_register_error e r) = filter (\<lambda>n. n \<noteq> fst e) (ro_added r)"
  "ro_updated (note_register_error e r) = filter (\<lambda>n. n \<noteq> fst e) (ro_updated r)"
  "ro_removed (note_register_error e r) = ro_removed r"
  "fst ` set (ro_failed (note_register_error e r)) = insert (fst e) (fst ` set (ro_failed r))"
  "distinct (map fst (ro_failed r)) \<Longrightarrow> distinct (map fst (ro_failed (note_register_error e r)))"
  by (auto simp: note_register_error_def Let_def split_beta)

lemma note_register_errors:
  "ro_added (fold note_register_error es r) = filter (\<lambda>n. n \<notin> fst ` set es) (ro_added r)"
  "ro_updated (fold note_register_error es r) = filter (\<lambda>n. n \<notin> fst ` set es) (ro_updated r)"
  "ro_removed (fold note_register_error es r) = ro_removed r"
  "fst ` set (ro_failed (fold note_register_error es r)) = fst ` set (ro_failed r) \<union> fst ` set es"
  "distinct (map fst (ro_failed r)) \<Longrightarrow> distinct (map fst (ro_failed (fold note_register_error es r)))"
  by (induction es arbitrary: r) (simp_all add: note_register_error_fields conj_commute)


lemma collected_names:
  "collect_register_errors server names deadline clocks c = (Some es, c') \<Longrightarrow> fst ` set es \<subseteq> set names"
  by (induction server names deadline clocks c rule: collect_register_errors.induct)
    (auto simp: Let_def List.map_filter_def split: if_splits)

text \<open>A reload in one picture: \<open>F\<^sub>1\<close> are the names that could not be closed, \<open>F\<^sub>2\<close> those that could not be
  registered, \<open>E\<close> those the server refused or did not answer.\<close>

lemma apply_tunnel_changes_cases:
  assumes "apply_tunnel_changes s l server now clocks ch c = (Some r, c')"
    and "distinct (map tnc_name (tch_updated ch @ tch_added ch))"
  obtains F1 F2 E r1 where
    "F1 \<subseteq> set (stop_names ch)" and "F2 \<subseteq> tnc_name ` set (tch_updated ch @ tch_added ch) - F1"
    and "E \<subseteq> tnc_name ` set (tch_updated ch @ tch_added ch) - (F1 \<union> F2)"
    and "fst ` set (ro_failed r) = F1 \<union> F2 \<union> E" and "distinct (map fst (ro_failed r))"
    and "ro_removed r = filter (\<lambda>n. n \<in> set (tch_removed ch) \<and> n \<notin> F1) (stop_names ch)"
    and "ro_added r = filter (\<lambda>n. n \<in> tnc_name ` set (tch_added ch) \<and> n \<notin> F1 \<union> F2 \<union> E)
           (map tnc_name (tch_updated ch @ tch_added ch))"
    and "ro_updated r = filter (\<lambda>n. n \<notin> tnc_name ` set (tch_added ch) \<and> n \<notin> F1 \<union> F2 \<union> E)
           (map tnc_name (tch_updated ch @ tch_added ch))"
    and "\<And>t. t \<in> set (tch_updated ch @ tch_added ch) \<Longrightarrow> tnc_name t \<notin> F1 \<union> F2 \<Longrightarrow> cfg_table c' (tnc_name t) = Some t"
    and "\<And>n. n \<notin> tnc_name ` set (tch_updated ch @ tch_added ch) - F1 \<Longrightarrow>
           cfg_table c' n = (if n \<in> set (stop_names ch) - F1 then None else cfg_table c n)"
proof -
  let ?ts = "tch_updated ch @ tch_added ch"
  define r0 where "r0 = ReloadOutcome_default\<lparr>ro_level := TunnelsOnly\<rparr>"
  have r0: "ro_failed r0 = []" "ro_removed r0 = []" "ro_added r0 = []" "ro_updated r0 = []"
    by (simp_all add: r0_def ReloadOutcome_default_def)
  obtain r1 c1 where stop: "fold (stop_one s server ch) (stop_names ch) (r0, c) = (r1, c1)" by fastforce
  obtain st r2 c2 where start: "fold (start_one s l server ch) ?ts ([], r1, c1) = (st, r2, c2)"
    using prod_cases3 by blast
  from stop_fold [OF stop distinct_stop_names] obtain F1 where F1: "F1 \<subseteq> set (stop_names ch)"
    "fst ` set (ro_failed r1) = F1" "distinct (map fst (ro_failed r1))"
    "ro_removed r1 = filter (\<lambda>n. n \<in> set (tch_removed ch) \<and> n \<notin> F1) (stop_names ch)"
    "ro_added r1 = []" "ro_updated r1 = []"
    "cfg_table c1 = (\<lambda>n. if n \<in> set (stop_names ch) - F1 then None else cfg_table c n)"
    by (auto simp: r0)
  from start_fold [OF start assms(2) F1(2) [symmetric] refl] F1(3,5,6) obtain F2 where
    F2: "F2 \<subseteq> tnc_name ` set ?ts - F1" "fst ` set (ro_failed r2) = F1 \<union> F2" "distinct (map fst (ro_failed r2))"
    "st = filter (\<lambda>n. n \<notin> F1 \<union> F2) (map tnc_name ?ts)"
    "ro_added r2 = filter (\<lambda>n. n \<in> tnc_name ` set (tch_added ch)) (filter (\<lambda>n. n \<notin> F1 \<union> F2) (map tnc_name ?ts))"
    "ro_updated r2 = filter (\<lambda>n. n \<notin> tnc_name ` set (tch_added ch)) (filter (\<lambda>n. n \<notin> F1 \<union> F2) (map tnc_name ?ts))"
    "ro_removed r2 = ro_removed r1"
    "\<forall>t \<in> set ?ts. tnc_name t \<notin> F1 \<union> F2 \<longrightarrow> cfg_table c2 (tnc_name t) = Some t"
    "\<forall>n. n \<notin> tnc_name ` set ?ts - F1 \<longrightarrow> cfg_table c2 n = cfg_table c1 n"
    by auto
  obtain es where es: "r = fold note_register_error es r2" "fst ` set es \<subseteq> set st" "cl_tunnels c' = cl_tunnels c2"
  proof (cases "st = []")
    case True
    then show ?thesis using assms(1) stop start that [of "[]"]
      by (simp add: apply_tunnel_changes_def r0_def [symmetric] Let_def)
  next
    case False
    then obtain es where coll: "collect_register_errors server st (now + 5000) clocks c2 = (Some es, c')"
      and r: "r = fold note_register_error es r2"
      using assms(1) stop start
      by (auto simp: apply_tunnel_changes_def r0_def [symmetric] Let_def split: prod.splits option.splits)
    show ?thesis by (rule that [OF r collected_names [OF coll] collect_register_errors_tunnels [OF coll]])
  qed
  have table: "cfg_table c' = cfg_table c2" using es(3) by (simp add: cfg_table_def fun_eq_iff)
  show ?thesis
  proof (rule that [of F1 F2 "fst ` set es"])
    show "fst ` set es \<subseteq> tnc_name ` set ?ts - (F1 \<union> F2)" using es(2) F2(4) by auto
    show "cfg_table c' n = (if n \<in> set (stop_names ch) - F1 then None else cfg_table c n)"
      if "n \<notin> tnc_name ` set ?ts - F1" for n using that F2(9) F1(7) by (simp add: table)
    show "cfg_table c' (tnc_name t) = Some t" if "t \<in> set ?ts" "tnc_name t \<notin> F1 \<union> F2" for t
      using that F2(8) by (simp add: table)
    show "ro_added r = filter (\<lambda>n. n \<in> tnc_name ` set (tch_added ch) \<and> n \<notin> F1 \<union> F2 \<union> fst ` set es) (map tnc_name ?ts)"
      "ro_updated r = filter (\<lambda>n. n \<notin> tnc_name ` set (tch_added ch) \<and> n \<notin> F1 \<union> F2 \<union> fst ` set es) (map tnc_name ?ts)"
      unfolding es(1) note_register_errors F2(5,6) filter_filter by (rule filter_cong; auto)+
    show "distinct (map fst (ro_failed r))" "fst ` set (ro_failed r) = F1 \<union> F2 \<union> fst ` set es"
      "ro_removed r = filter (\<lambda>n. n \<in> set (tch_removed ch) \<and> n \<notin> F1) (stop_names ch)"
      using F1(4) F2(2,3,7) by (simp_all add: es(1) note_register_errors)
  qed (rule F1(1) F2(1))+
qed


section \<open>Properties of a reload\<close>

lemma finite_not_nan: "f64_is_finite x \<Longrightarrow> \<not> f64_is_nan x"
  by (simp add: f64_is_finite_def f64_is_nan_def)

lemma validated_not_nan: "validate_tunnel t = Inr () \<Longrightarrow> \<not> f64_is_nan (ttc_bandwidth (tnc_transport t))"
  by (auto simp: validate_tunnel_def Let_def intro!: finite_not_nan split: if_splits)

lemma f64_eq_trans: "f64_eq x y \<Longrightarrow> f64_eq y z \<Longrightarrow> f64_eq x z"
  by (auto simp: f64_eq_def)

lemma TunnelConfig_eq_trans: "TunnelConfig_eq t u \<Longrightarrow> TunnelConfig_eq u v \<Longrightarrow> TunnelConfig_eq t v"
  by (auto simp: TunnelConfig_eq_def TunnelTransportConfig_eq_def intro: f64_eq_trans)

lemma distinct_changes:
  "distinct (tch_removed (diff_tunnels old new) @
     map tnc_name (tch_updated (diff_tunnels old new) @ tch_added (diff_tunnels old new)))"
  using diff_tunnels_distinct by (fastforce simp: in_changes)

lemma table_of_in: "table_of ts n = Some t \<Longrightarrow> t \<in> set ts"
  using collect_by_name_names by (simp add: in_collect_by_name [symmetric])

lemma reload_table:
  assumes run: "apply_tunnel_changes s l server now clocks (diff_tunnels old new) c = (Some r, c')"
    and before: "\<And>n. rel_option TunnelConfig_eq (cfg_table c n) (table_of old n)"
    and valid: "\<And>t. t \<in> set new \<Longrightarrow> validate_tunnel t = Inr ()"
    and n: "n \<notin> fst ` set (ro_failed r)"
  shows "rel_option TunnelConfig_eq (cfg_table c' n) (table_of new n)"
proof -
  let ?ch = "diff_tunnels old new"
  have "distinct (map tnc_name (tch_updated ?ch @ tch_added ?ch))"
    using distinct_changes [of old new] by simp
  from run this show ?thesis
  proof (rule apply_tunnel_changes_cases)
    fix F1 F2 E
    assume F: "fst ` set (ro_failed r) = F1 \<union> F2 \<union> E"
      and started: "\<And>t. t \<in> set (tch_updated ?ch @ tch_added ?ch) \<Longrightarrow> tnc_name t \<notin> F1 \<union> F2 \<Longrightarrow>
        cfg_table c' (tnc_name t) = Some t"
      and rest: "\<And>n. n \<notin> tnc_name ` set (tch_updated ?ch @ tch_added ?ch) - F1 \<Longrightarrow>
        cfg_table c' n = (if n \<in> set (stop_names ?ch) - F1 then None else cfg_table c n)"
    show ?thesis
    proof (cases "\<exists>t \<in> set (tch_updated ?ch @ tch_added ?ch). tnc_name t = n")
      case True
      then obtain t where t: "t \<in> set (tch_updated ?ch @ tch_added ?ch)" "tnc_name t = n" by blast
      then have "table_of new n = Some t" by (auto simp: in_changes)
      then show ?thesis using started [OF t(1)] t(2) n F
        by (simp add: TunnelConfig_eq_refl validated_not_nan valid table_of_in)
    next
      case False
      then have c': "cfg_table c' n = (if n \<in> set (stop_names ?ch) - F1 then None else cfg_table c n)"
        by (intro rest) auto
      have stop: "n \<in> set (stop_names ?ch) \<longleftrightarrow> table_of old n \<noteq> None \<and> table_of new n = None"
        using False by (auto simp: set_stop_names in_removed)
      show ?thesis
      proof (cases "table_of new n")
        case None
        then show ?thesis using c' stop n F before [of n] by (cases "table_of old n") (auto simp: F)
      next
        case (Some t)
        then have "tnc_name t = n" by (rule table_of_name)
        moreover have "t \<notin> set (tch_updated ?ch)" "t \<notin> set (tch_added ?ch)" using False calculation by auto
        ultimately obtain u where "table_of old n = Some u" "TunnelConfig_eq u t"
          using Some by (cases "table_of old n") (auto simp: in_added in_updated)
        then show ?thesis using Some c' stop before [of n]
          by (auto simp: option_rel_Some2 intro: TunnelConfig_eq_trans)
      qed
    qed
  qed
qed

lemma reload_reports:
  assumes "apply_tunnel_changes s l server now clocks (diff_tunnels old new) c = (Some r, c')"
  shows "mset (ro_removed r @ ro_updated r @ ro_added r @ map fst (ro_failed r)) =
    mset (tch_removed (diff_tunnels old new) @
      map tnc_name (tch_updated (diff_tunnels old new) @ tch_added (diff_tunnels old new)))"
proof -
  let ?ch = "diff_tunnels old new" let ?ts = "tch_updated ?ch @ tch_added ?ch"
  have dist: "distinct (map tnc_name ?ts)" "tnc_name ` set ?ts \<inter> set (tch_removed ?ch) = {}"
    using distinct_changes [of old new] by auto
  from assms dist(1) show ?thesis
  proof (rule apply_tunnel_changes_cases)
    fix F1 F2 E
    assume F: "F1 \<subseteq> set (stop_names ?ch)" "F2 \<subseteq> tnc_name ` set ?ts - F1" "E \<subseteq> tnc_name ` set ?ts - (F1 \<union> F2)"
      "fst ` set (ro_failed r) = F1 \<union> F2 \<union> E" "distinct (map fst (ro_failed r))"
      "ro_removed r = filter (\<lambda>n. n \<in> set (tch_removed ?ch) \<and> n \<notin> F1) (stop_names ?ch)"
      "ro_added r = filter (\<lambda>n. n \<in> tnc_name ` set (tch_added ?ch) \<and> n \<notin> F1 \<union> F2 \<union> E) (map tnc_name ?ts)"
      "ro_updated r = filter (\<lambda>n. n \<notin> tnc_name ` set (tch_added ?ch) \<and> n \<notin> F1 \<union> F2 \<union> E) (map tnc_name ?ts)"
    have sets: "set (ro_removed r) = set (tch_removed ?ch) - F1"
      "set (ro_updated r) \<union> set (ro_added r) = tnc_name ` set ?ts - (F1 \<union> F2 \<union> E)"
      "set (ro_updated r) \<inter> set (ro_added r) = {}"
      by (auto simp: F(6-8) set_stop_names)
    have "distinct (ro_removed r)" "distinct (ro_updated r)" "distinct (ro_added r)"
      unfolding F(6-8) by (rule distinct_filter, rule distinct_stop_names dist(1))+
    moreover define N X where "N = tnc_name ` set ?ts" and "X = F1 \<union> F2 \<union> E"
    have "set (ro_updated r) \<subseteq> N - X" "set (ro_added r) \<subseteq> N - X" "set (ro_removed r) \<inter> N = {}"
      "set (ro_removed r) \<inter> X = {}"
      using sets F(2,3) dist(2) unfolding N_def [symmetric] X_def [symmetric] by (auto simp: X_def)
    moreover have "fst ` set (ro_failed r) = X" using F(4) by (simp only: X_def)
    ultimately have "distinct (ro_removed r @ ro_updated r @ ro_added r @ map fst (ro_failed r))"
      using sets(3) F(5) unfolding distinct_append set_append set_map by (intro conjI; (simp; fail)?) blast+
    moreover have "set (ro_removed r @ ro_updated r @ ro_added r @ map fst (ro_failed r)) =
        set (tch_removed ?ch @ map tnc_name ?ts)"
      using sets F(1-4) by (auto simp: set_stop_names)
    ultimately show ?thesis
      using distinct_changes [of old new] by (simp only: set_eq_iff_mset_eq_distinct)
  qed
qed

text \<open>The wait for the answers of the server ends with its deadline.\<close>

lemma collect_register_errors_returns:
  "\<exists>now \<in> set clocks. deadline \<le> now \<Longrightarrow>
     \<exists>es. fst (collect_register_errors server names deadline clocks c) = Some es"
  by (induction server names deadline clocks c rule: collect_register_errors.induct) (auto simp: Let_def)


text \<open>An example: a session without tunnels whose configuration gains one, and the answer of the server.\<close>

definition demo_tunnel :: TunnelConfig where
  "demo_tunnel =
     \<lparr>tnc_name = ''t'', tnc_protocol = ''tcp'', tnc_service = ''h:80'', tnc_remote_port = 8000, tnc_domains = [],
      tnc_locations = [], tnc_basic_auth_user = [], tnc_basic_auth_password = [], tnc_host_header_rewrite = [],
      tnc_transport = \<lparr>ttc_bandwidth = 0, ttc_bandwidth_limit_side = ''client'', ttc_proxy_protocol_version = []\<rparr>,
      tnc_plugin = None\<rparr>"

definition demo_session :: "unit ClientControl" where
  "demo_session =
     \<lparr>cl_session_id = ''s'', cl_out = [], cl_writer_open = True,
      cl_tunnels = \<lparr>ctm_by_name = Map.empty, ctm_udp_packet_size = 1500,
        ctm_tcp_keepalive = TcpKeepaliveConfig_new 30 10, ctm_stopped = []\<rparr>,
      cl_cancelled = False, cl_data_tasks = 0, cl_remotes = TunnelRemoteState_default, cl_last_pong_unix = 0,
      cl_watch = \<lparr>rw_pending = {}, rw_errors = Map.empty\<rparr>, cl_end = None,
      cl_inbox = [[], [Incoming 1 (NewTunnelResp
        \<lparr>ntr_tunnel_name = ''t'', ntr_remote_addr = '':8000'', ntr_error = []\<rparr>)]]\<rparr>"

lemma demo_service: "service_host_port demo_tunnel = Inr (''h'', 80)"
  by (simp add: service_host_port_def demo_tunnel_def parse_host_port_def port_or_default_def str_simps)

lemma demo_diff:
  "diff_tunnels [] [demo_tunnel] = \<lparr>tch_added = [demo_tunnel], tch_removed = [], tch_updated = []\<rparr>"
  by (simp add: diff_tunnels_def diff_entries_def collect_by_name_def)

lemma demo_valid: "validate_session_tunnel demo_tunnel = Inr ()" "validate_tunnel demo_tunnel = Inr ()"
  by (simp_all add: validate_session_tunnel_def validate_tunnel_def demo_service Let_def)
     (simp_all add: demo_tunnel_def requires_local_service_def has_plugin_def f64_is_finite_def f64_is_negative_def str_simps)


lemma demo_build_entry:
  "build_entry (\<lambda>_ _ _. None) demo_tunnel k =
     Inr \<lparr>te_cfg = demo_tunnel, te_limiter = None, te_plugin = None, te_proxy_protocol = None,
       te_tcp_keepalive = k, te_udp_cancel = None\<rparr>"
proof -
  have "limiter_if_side 0 ''client'' Client = None"
    by (simp add: limiter_if_side_def mbps_to_bytes_per_sec_def f64_is_finite_def f64_is_negative_def f64_rat_def)
  moreover have "parse_proxy_protocol_version [] = Inr None" by (simp add: parse_proxy_protocol_version_def str_simps)
  ultimately show ?thesis
    by (simp add: build_entry_def entry_plugin_def Let_def demo_tunnel_def)
qed

lemma demo_register:
  "\<exists>c. register_session_tunnel (\<lambda>_ _ _. None) ''h:9527'' demo_tunnel demo_session = (Inr (), c) \<and>
     cl_inbox c = tl (cl_inbox demo_session) \<and> cl_end c = None \<and> cl_cancelled c = False \<and>
     cl_watch c = \<lparr>rw_pending = {''t''}, rw_errors = Map.empty\<rparr>"
  by (simp add: register_session_tunnel_def demo_valid build_new_tunnel_message_def demo_service upsert_def
      demo_build_entry Let_def,
      simp add: demo_tunnel_def demo_session_def client_write_def await_point_def watch_begin_def)

lemma demo_reload:
  "\<exists>r c. apply_tunnel_changes (\<lambda>_. []) (\<lambda>_ _ _. None) ''h:9527'' 0 [0] (diff_tunnels [] [demo_tunnel]) demo_session =
     (Some r, c) \<and> ro_failed r = []"
proof -
  obtain c where c: "register_session_tunnel (\<lambda>_ _ _. None) ''h:9527'' demo_tunnel demo_session = (Inr (), c)"
    "cl_inbox c = tl (cl_inbox demo_session)" "cl_end c = None" "cl_cancelled c = False"
    "cl_watch c = \<lparr>rw_pending = {''t''}, rw_errors = Map.empty\<rparr>" using demo_register by blast
  have "tnc_name demo_tunnel = ''t''" by (simp add: demo_tunnel_def)
  with c show ?thesis
    by (simp add: apply_tunnel_changes_def demo_diff stop_names_def start_one_def ReloadOutcome_default_def Let_def
        await_point_def demo_session_def reader_step_def watch_finish_def map_filter_def)
qed






section \<open>Which configurations open a session\<close>

lemma register_all_validates:
  "register_all_tunnels l server ts c = (Inr u, c') \<Longrightarrow> t \<in> set ts \<Longrightarrow> validate_session_tunnel t = Inr ()"
  by (induction l server ts c rule: register_all_tunnels.induct)
    (auto simp: register_session_tunnel_def split: prod.splits sum.splits)

text \<open>A tunnel the configuration accepts is accepted by the session exactly when its protocol is spelled
  in lower case without padding and its service is present (or well-formed, beside a plugin).\<close>

lemma validated_registrable:
  assumes "validate_tunnel t = Inr ()"
  shows "validate_session_tunnel t = Inr () \<longleftrightarrow>
    tnc_protocol t \<in> {''tcp'', ''udp'', ''http'', ''https''} \<and>
    (if requires_local_service t then trim (tnc_service t) \<noteq> [] else \<exists>x. service_host_port t = Inr x)"
proof -
  have port: "snd x \<noteq> 0 \<longleftrightarrow> trim (tnc_service t) \<noteq> []" if "service_host_port t = Inr x" for x
    using that by (auto simp: service_host_port_def Let_def split: if_splits sum.splits)
  have service: "\<exists>x. service_host_port t = Inr x" if "requires_local_service t"
    using assms that by (cases "service_host_port t") (auto simp: validate_tunnel_def Let_def split: if_splits)
  have remote: "tnc_remote_port t \<noteq> 0" if "tnc_protocol t \<in> {''tcp'', ''udp''}"
    using assms that by (auto simp: validate_tunnel_def Let_def str_simps split: if_splits)
  show ?thesis
  proof (cases "service_host_port t")
    case (Inl e)
    then show ?thesis using service by (auto simp: validate_session_tunnel_def)
  next
    case (Inr x)
    then obtain h p where x: "service_host_port t = Inr (h, p)" by (cases x) auto
    then have p: "p = 0 \<longleftrightarrow> trim (tnc_service t) = []" using port [OF x] by auto
    show ?thesis
    proof (cases "tnc_protocol t \<in> {''tcp'', ''udp'', ''http'', ''https''}")
      case True
      then have "\<not> (tnc_remote_port t = 0 \<and> tnc_protocol t \<in> {''tcp'', ''udp''})" using remote by blast
      with True show ?thesis unfolding validate_session_tunnel_def x p [symmetric] by auto
    next
      case False
      then show ?thesis unfolding validate_session_tunnel_def x by simp
    qed
  qed
qed

lemma unregistrable_never_connects:
  assumes "t \<in> set (cc_tunnels cfg)" and "validate_session_tunnel t \<noteq> Inr ()"
  shows "isl (open_session l io cfg remotes now inbox)"
proof -
  have no: "register_all_tunnels l server (cc_tunnels cfg) c \<noteq> (Inr u, c')" for server c u c'
    using register_all_validates [of l server "cc_tunnels cfg" c u c' t] assms by auto
  show ?thesis
    using no by (auto simp: open_session_def rbind_def split: option.split Message.split sum.split prod.split)
qed


definition demo_capitals :: ClientConfig where
  "demo_capitals = (client_complete demo_client)\<lparr>cc_tunnels := [demo_tunnel\<lparr>tnc_protocol := ''TCP''\<rparr>]\<rparr>"

lemma client_validate_tunnels:
  assumes "client_validate c = Inr ()" and "validate_tunnels [] ts = Inr ()"
  shows "client_validate (c\<lparr>cc_tunnels := ts\<rparr>) = Inr ()"
  using assms by (auto simp: client_validate_def protocol_def Let_def rbind_def split: sum.splits prod.splits if_splits option.splits)


section \<open>Heartbeat\<close>



end
