(* ===== verification/Client_Service.thy ===== *)
theory Client_Service
  imports Client_Session
begin

text \<open>
  The client service (\<open>client/src/service.rs\<close>) and the state its handle keeps (\<open>client/src/handle.rs\<close>): the
  loop that connects, runs a session, backs off and connects again, and the reload requests that
  reach it in each of these states. The loop waits in three places; \<open>service_phase\<close> says in which,
  and \<open>service_step\<close> is what happens between two of them, given the event that ended the wait.
\<close>

section \<open>The handle\<close>

datatype ClientStatus = Stopped | Starting | Running | Reconnecting | Stopping

definition is_active :: "ClientStatus \<Rightarrow> bool" where
  "is_active s \<longleftrightarrow> s \<in> {Starting, Running, Reconnecting, Stopping}"

record ClientInner =
  ci_status :: ClientStatus
  ci_last_error :: "string option"
  ci_pending_logs :: "string list"
  ci_tunnel_remotes :: TunnelRemoteState
  ci_cancel :: bool
  ci_join :: bool
  ci_reload_tx :: bool

definition ClientInner_new :: ClientInner where
  "ClientInner_new =
     \<lparr>ci_status = Stopped, ci_last_error = None, ci_pending_logs = [],
      ci_tunnel_remotes = TunnelRemoteState_default, ci_cancel = False, ci_join = False, ci_reload_tx = False\<rparr>"

definition take_last_error :: "ClientInner \<Rightarrow> string option \<times> ClientInner" where
  "take_last_error h = (ci_last_error h, h\<lparr>ci_last_error := None\<rparr>)"

definition drain_logs :: "ClientInner \<Rightarrow> string list \<times> ClientInner" where
  "drain_logs h = (ci_pending_logs h, h\<lparr>ci_pending_logs := []\<rparr>)"

definition MAX_PENDING :: nat where "MAX_PENDING = 500"

definition enqueue_log :: "string \<Rightarrow> ClientInner \<Rightarrow> ClientInner" where
  "enqueue_log line h =
     (let g = ci_pending_logs h;
          g = (if MAX_PENDING \<le> length g then drop (length g - MAX_PENDING + 1) g else g)
      in h\<lparr>ci_pending_logs := g @ [line]\<rparr>)"

definition set_status :: "ClientStatus \<Rightarrow> ClientInner \<Rightarrow> ClientInner" where
  "set_status s h = h\<lparr>ci_status := s\<rparr>"

definition set_error :: "string option \<Rightarrow> ClientInner \<Rightarrow> ClientInner" where
  "set_error e h = h\<lparr>ci_last_error := e\<rparr>"

definition clear_remotes :: "ClientInner \<Rightarrow> ClientInner" where
  "clear_remotes h = h\<lparr>ci_tunnel_remotes := clear_tunnel_remotes (ci_tunnel_remotes h)\<rparr>"

definition clear_reload_tx :: "ClientInner \<Rightarrow> ClientInner" where
  "clear_reload_tx h = h\<lparr>ci_reload_tx := False\<rparr>"

definition set_reload_tx :: "ClientInner \<Rightarrow> ClientInner" where
  "set_reload_tx h = h\<lparr>ci_reload_tx := True\<rparr>"

datatype handle_error = AlreadyRunning | NotRunning | ReloadChannelNotReady | StartConfig cfg_error

text \<open>\<open>start_with\<close> up to the task it starts, and what that task does after its service has ended.\<close>

definition start_with ::
    "(string \<Rightarrow> string) \<Rightarrow> ClientConfig \<Rightarrow> ClientInner \<Rightarrow> (handle_error + ClientConfig) \<times> ClientInner" where
  "start_with resolve cfg h =
     (if is_active (ci_status h) then (Inl AlreadyRunning, h)
      else
        let cfg = prepare_runtime resolve cfg
        in case client_validate cfg of
             Inl e \<Rightarrow> (Inl (StartConfig e), h)
           | Inr _ \<Rightarrow>
               (Inr cfg, (clear_remotes (set_error None (set_status Starting (h\<lparr>ci_cancel := True\<rparr>))))\<lparr>ci_join := True\<rparr>))"

definition task_ended :: "string option \<Rightarrow> ClientInner \<Rightarrow> ClientInner" where
  "task_ended err h =
     (let h = (case err of Some e \<Rightarrow> set_error (Some e) h | None \<Rightarrow> h);
          h = clear_reload_tx (clear_remotes h)
      in set_status Stopped (h\<lparr>ci_cancel := False\<rparr>))"

text \<open>\<open>stop\<close>: the task it waits for ends in time, has panicked, or is aborted.\<close>

datatype join_result = Joined "string option" | JoinFailed | JoinTimeout

definition stop :: "join_result \<Rightarrow> ClientInner \<Rightarrow> ClientInner" where
  "stop joined h =
     (if ci_status h = Stopped then h
      else
        let h = (set_status Stopping (set_error None h))\<lparr>ci_cancel := False\<rparr>;
            has_join = ci_join h;
            h = h\<lparr>ci_join := False\<rparr>;
            h = (if has_join
                 then (case joined of
                         Joined err \<Rightarrow> task_ended err h
                       | JoinFailed \<Rightarrow> h
                       | JoinTimeout \<Rightarrow> set_status Stopped h)
                 else set_status Stopped h)
        in clear_reload_tx (clear_remotes h))"

definition reload_guard :: "ClientInner \<Rightarrow> handle_error + unit" where
  "reload_guard h =
     (if \<not> is_active (ci_status h) then Inl NotRunning
      else if \<not> ci_reload_tx h then Inl ReloadChannelNotReady
      else Inr ())"

definition needs_udp_session_drain :: "ClientConfig \<Rightarrow> bool" where
  "needs_udp_session_drain cfg \<longleftrightarrow> protocol cfg \<in> {Inr Quic, Inr Kcp}"

section \<open>Reload requests\<close>

text \<open>A request carries the channel of its answer, named by a number, and the resolution of the paths of
  its configuration file.\<close>

record ReloadRequest =
  rq_id :: nat
  rq_cfg :: ClientConfig
  rq_resolve :: "string \<Rightarrow> string"

datatype reload_error = InvalidConfig cfg_error | ReloadFailed string

type_synonym reload_reply = "reload_error + ReloadOutcome"

datatype ApplyReloadResult = Reply reload_reply | Reconnect ReloadOutcome

definition log_counts :: "string \<Rightarrow> ReloadOutcome \<Rightarrow> string" where
  "log_counts prefix_text r =
     prefix_text @ ''+'' @ nat_to_string (length (ro_added r)) @ '' -'' @ nat_to_string (length (ro_removed r)) @
     '' ~'' @ nat_to_string (length (ro_updated r))"

text \<open>The result is the answer, the configuration the client has afterwards, the session and what is
  logged; \<open>None\<close>: the session still waits for its server.\<close>

definition apply_reload ::
    "(client_error \<Rightarrow> string) \<Rightarrow> (string \<Rightarrow> string \<Rightarrow> string \<Rightarrow> 'tls option) \<Rightarrow> nat \<Rightarrow> nat list \<Rightarrow> ReloadRequest \<Rightarrow>
     ClientConfig \<Rightarrow> 'tls ClientControl option \<Rightarrow>
     (ApplyReloadResult \<times> ClientConfig \<times> 'tls ClientControl option \<times> string list) option" where
  "apply_reload to_string load_or_generate now clocks req cfg control =
     (let new_cfg = prepare_runtime (rq_resolve req) (rq_cfg req)
      in case client_validate new_cfg of
           Inl e \<Rightarrow> Some (Reply (Inl (InvalidConfig e)), cfg, control, [])
         | Inr _ \<Rightarrow>
             let plan = plan_reload cfg new_cfg
             in case plan of
                  PlanNoop \<Rightarrow> Some (Reply (Inr (empty_outcome plan)), cfg, control, [])
                | Apply changes connection_settings_changed \<Rightarrow>
                    if connection_settings_changed then
                      let outcome = outcome_from_plan plan changes;
                          logs = (if changes_is_empty changes then []
                                  else [log_counts ''INFO  reload pending: '' outcome])
                      in (case control of
                            Some c \<Rightarrow>
                              Some (Reconnect outcome, new_cfg,
                                Some (request_disconnect (close_all_tunnels (cc_server new_cfg) c)),
                                logs @ [''INFO  client settings changed; reconnecting''])
                          | None \<Rightarrow>
                              Some (Reply (Inr outcome), new_cfg, None, logs @ [''INFO  client settings updated'']))
                    else
                      (case control of
                         Some c \<Rightarrow>
                           (case apply_tunnel_changes to_string load_or_generate (cc_server cfg) now clocks changes c of
                              (None, _) \<Rightarrow> None
                            | (Some r, c) \<Rightarrow>
                                let r = r\<lparr>ro_level := outcome_level plan\<rparr>
                                in Some (Reply (Inr r), new_cfg, Some c, [log_counts ''INFO  reload applied: '' r]))
                       | None \<Rightarrow>
                           let r = (outcome_from_plan plan changes)\<lparr>ro_level := outcome_level plan\<rparr>
                           in Some (Reply (Inr r), new_cfg, None, [log_counts ''INFO  reload queued: '' r])))"

section \<open>State of the service\<close>

definition RECONNECT_BASE_SECS :: u64 where "RECONNECT_BASE_SECS = 1"

definition RECONNECT_MAX_SECS :: u64 where "RECONNECT_MAX_SECS = 60"

definition next_backoff :: "u64 \<Rightarrow> u64" where
  "next_backoff backoff_secs =
     (let doubled = (if 2 ^ 64 \<le> 2 * unat backoff_secs then -1 else 2 * backoff_secs)
      in max RECONNECT_BASE_SECS (min RECONNECT_MAX_SECS doubled))"

datatype 'tls service_phase =
    Connecting
  | InSession "'tls ClientControl"
  | Backoff
  | Finished "string option"

record 'tls ServiceState =
  sv_cfg :: ClientConfig
  sv_session_id :: string
  sv_first_attempt :: bool
  sv_backoff_secs :: u64
  sv_pending :: "(nat \<times> ReloadOutcome) option"
  sv_queue :: "ReloadRequest list"
  sv_replies :: "(nat \<times> reload_reply) list"
  sv_cancelled :: bool
  sv_handle :: ClientInner
  sv_phase :: "'tls service_phase"

definition send_reply :: "nat \<Rightarrow> reload_reply \<Rightarrow> 'tls ServiceState \<Rightarrow> 'tls ServiceState" where
  "send_reply i r s = s\<lparr>sv_replies := sv_replies s @ [(i, r)]\<rparr>"

definition on_log :: "string \<Rightarrow> 'tls ServiceState \<Rightarrow> 'tls ServiceState" where
  "on_log line s = s\<lparr>sv_handle := enqueue_log line (sv_handle s)\<rparr>"

definition on_status :: "ClientStatus \<Rightarrow> 'tls ServiceState \<Rightarrow> 'tls ServiceState" where
  "on_status st s = s\<lparr>sv_handle := set_status st (sv_handle s)\<rparr>"

definition on_remotes_clear :: "'tls ServiceState \<Rightarrow> 'tls ServiceState" where
  "on_remotes_clear s = s\<lparr>sv_handle := clear_remotes (sv_handle s)\<rparr>"

text \<open>The callbacks of a session keep the remote addresses of the handle.\<close>

definition sync_remotes :: "'tls ClientControl \<Rightarrow> 'tls ServiceState \<Rightarrow> 'tls ServiceState" where
  "sync_remotes c s = s\<lparr>sv_handle := (sv_handle s)\<lparr>ci_tunnel_remotes := cl_remotes c\<rparr>\<rparr>"

definition in_session :: "'tls ClientControl \<Rightarrow> 'tls ServiceState \<Rightarrow> 'tls ServiceState" where
  "in_session c s = (sync_remotes c s)\<lparr>sv_phase := InSession c\<rparr>"

definition fail_pending_reload :: "string \<Rightarrow> 'tls ServiceState \<Rightarrow> 'tls ServiceState" where
  "fail_pending_reload reason s =
     (case sv_pending s of
        Some (i, _) \<Rightarrow> send_reply i (Inl (ReloadFailed reason)) (s\<lparr>sv_pending := None\<rparr>)
      | None \<Rightarrow> s)"

text \<open>\<open>serve_reload_request\<close> without a session; nothing waits there.\<close>

definition serve_reload_request :: "(client_error \<Rightarrow> string) \<Rightarrow> ReloadRequest \<Rightarrow> 'tls ServiceState \<Rightarrow> 'tls ServiceState" where
  "serve_reload_request to_string req s =
     (case apply_reload to_string (\<lambda>_ _ _. None :: 'tls option) 0 [] req (sv_cfg s) None of
        Some (Reply r, cfg, _, logs) \<Rightarrow> send_reply (rq_id req) r (fold on_log logs (s\<lparr>sv_cfg := cfg\<rparr>))
      | Some (Reconnect r, cfg, _, logs) \<Rightarrow> send_reply (rq_id req) (Inr r) (fold on_log logs (s\<lparr>sv_cfg := cfg\<rparr>))
      | None \<Rightarrow> s)"

definition drain_reload_requests :: "(client_error \<Rightarrow> string) \<Rightarrow> 'tls ServiceState \<Rightarrow> 'tls ServiceState" where
  "drain_reload_requests to_string s =
     fold (serve_reload_request to_string) (sv_queue s) (s\<lparr>sv_queue := []\<rparr>)"

definition finish :: "string option \<Rightarrow> string \<Rightarrow> 'tls ServiceState \<Rightarrow> 'tls ServiceState" where
  "finish err reason s = (fail_pending_reload reason s)\<lparr>sv_phase := Finished err\<rparr>"

definition stopped_reason :: string where "stopped_reason = ''client stopped during reconnect''"

text \<open>The top of the loop, up to the point where it connects.\<close>

definition loop_top :: "(client_error \<Rightarrow> string) \<Rightarrow> 'tls ServiceState \<Rightarrow> 'tls ServiceState" where
  "loop_top to_string s =
     (if sv_cancelled s then finish None stopped_reason s
      else
        let s = on_remotes_clear (drain_reload_requests to_string s);
            s = (if sv_first_attempt s then on_log ''INFO  connecting to server'' (on_status Starting s)
                 else if sv_pending s = None then on_status Reconnecting s
                 else s)
        in s\<lparr>sv_phase := Connecting\<rparr>)"

definition service_start :: "(client_error \<Rightarrow> string) \<Rightarrow> ClientConfig \<Rightarrow> ClientInner \<Rightarrow> 'tls ServiceState" where
  "service_start to_string cfg h =
     loop_top to_string
       \<lparr>sv_cfg = cfg, sv_session_id = [], sv_first_attempt = True, sv_backoff_secs = RECONNECT_BASE_SECS,
        sv_pending = None, sv_queue = [], sv_replies = [], sv_cancelled = False, sv_handle = h,
        sv_phase = Connecting\<rparr>"

section \<open>Steps\<close>

text \<open>The events: the application cancels; a request reaches the channel; the loop takes a request from the
  channel (with the times it sees while a session waits for its server); the attempt to open a session
  ends; the reading task of the session acts; the session reports its end (its reader's, or an error);
  the back-off is over.\<close>

datatype service_event =
    CancelEvent
  | RequestArrives ReloadRequest
  | RequestTaken nat "nat list"
  | SessionOpens login_io int "reader_event list list"
  | SessionActs reader_event
  | SessionDone "string option"
  | BackoffOver

definition log_retry :: "'tls ServiceState \<Rightarrow> 'tls ServiceState" where
  "log_retry s = on_log (''INFO  retrying in '' @ nat_to_string (unat (sv_backoff_secs s)) @ ''s'') s"

definition back_off :: "'tls ServiceState \<Rightarrow> 'tls ServiceState" where
  "back_off s = (log_retry s)\<lparr>sv_phase := Backoff\<rparr>"

text \<open>The end of \<open>open_session\<close>.\<close>

definition session_opened ::
    "(client_error \<Rightarrow> string) \<Rightarrow> client_error + 'tls ClientControl \<Rightarrow> 'tls ServiceState \<Rightarrow> 'tls ServiceState" where
  "session_opened to_string res s =
     (case res of
        Inl e \<Rightarrow>
          if sv_cancelled s then finish None stopped_reason s
          else (case e of
                  LoginRejected reason \<Rightarrow>
                    finish (Some (''login rejected: '' @ reason)) (''login rejected: '' @ reason)
                      (on_log (''ERROR login rejected: '' @ reason) s)
                | _ \<Rightarrow>
                    back_off ((on_status Reconnecting (on_log (''ERROR failed to connect: '' @ to_string e) s))
                      \<lparr>sv_first_attempt := False\<rparr>))
      | Inr c \<Rightarrow>
          let s = on_log ''INFO  connected to server'' (on_status Running s);
              s = s\<lparr>sv_first_attempt := False, sv_backoff_secs := RECONNECT_BASE_SECS\<rparr>;
              s = (case sv_pending s of
                     Some (i, outcome) \<Rightarrow> send_reply i (Inr outcome) (s\<lparr>sv_pending := None\<rparr>)
                   | None \<Rightarrow> s)
          in in_session c s)"

text \<open>A request that is taken while a session runs.\<close>

definition session_reload ::
    "(client_error \<Rightarrow> string) \<Rightarrow> (string \<Rightarrow> string \<Rightarrow> string \<Rightarrow> 'tls option) \<Rightarrow> nat \<Rightarrow> nat list \<Rightarrow> ReloadRequest \<Rightarrow>
     'tls ClientControl \<Rightarrow> 'tls ServiceState \<Rightarrow> 'tls ServiceState option" where
  "session_reload to_string load_or_generate now clocks req c s =
     (case apply_reload to_string load_or_generate now clocks req (sv_cfg s) (Some c) of
        None \<Rightarrow> None
      | Some (Reply r, cfg, control, logs) \<Rightarrow>
          Some (in_session (case control of Some c' \<Rightarrow> c' | None \<Rightarrow> c)
            (send_reply (rq_id req) r (fold on_log logs (s\<lparr>sv_cfg := cfg\<rparr>))))
      | Some (Reconnect outcome, cfg, control, logs) \<Rightarrow>
          let s = on_remotes_clear (sync_remotes (case control of Some c' \<Rightarrow> c' | None \<Rightarrow> c)
                    (fold on_log logs (s\<lparr>sv_cfg := cfg\<rparr>)));
              s = s\<lparr>sv_pending := Some (rq_id req, outcome)\<rparr>;
              s = on_status Reconnecting (on_log ''INFO  reconnecting to apply client settings'' s)
          in Some (loop_top to_string s))"

text \<open>The end of a session that no reload ended.\<close>

definition reported_end :: "string option \<Rightarrow> 'tls ClientControl \<Rightarrow> string + SessionEnd" where
  "reported_end err c =
     (case err of
        Some e \<Rightarrow> Inl e
      | None \<Rightarrow> Inr (case cl_end c of
                      Some e \<Rightarrow> session_end (cl_session_id c) e
                    | None \<Rightarrow> Disconnected (cl_session_id c)))"

definition session_done ::
    "(client_error \<Rightarrow> string) \<Rightarrow> string + SessionEnd \<Rightarrow> 'tls ServiceState \<Rightarrow> 'tls ServiceState" where
  "session_done to_string res s =
     (let s = on_remotes_clear s;
          wait = (\<lambda>s. back_off (drain_reload_requests to_string s))
      in case res of
           Inr (Kicked _ reason) \<Rightarrow>
             finish (Some (''kicked by server: '' @ reason)) ''kicked by server''
               (on_log (''WARN  kicked by server: '' @ reason) s)
         | Inr (Disconnected rid) \<Rightarrow>
             if sv_cancelled s then finish None stopped_reason s
             else wait (on_status Reconnecting (on_log ''WARN  disconnected from server''
                    (s\<lparr>sv_session_id := rid\<rparr>)))
         | Inl e \<Rightarrow>
             if sv_cancelled s then finish None stopped_reason s
             else wait (on_status Reconnecting (on_log (''ERROR session error: '' @ e) s)))"

definition after_backoff :: "(client_error \<Rightarrow> string) \<Rightarrow> 'tls ServiceState \<Rightarrow> 'tls ServiceState" where
  "after_backoff to_string s = loop_top to_string (s\<lparr>sv_backoff_secs := next_backoff (sv_backoff_secs s)\<rparr>)"

definition cancelled_session :: "'tls ServiceState \<Rightarrow> 'tls ServiceState" where
  "cancelled_session s = finish None stopped_reason (on_remotes_clear s)"

fun service_step ::
    "(client_error \<Rightarrow> string) \<Rightarrow> (string \<Rightarrow> string \<Rightarrow> string \<Rightarrow> 'tls option) \<Rightarrow> service_event \<Rightarrow> 'tls ServiceState \<Rightarrow>
     'tls ServiceState option" where
  "service_step to_string l CancelEvent s =
     (case sv_phase s of
        Finished _ \<Rightarrow> None
      | InSession _ \<Rightarrow> Some (cancelled_session (s\<lparr>sv_cancelled := True\<rparr>))
      | _ \<Rightarrow> Some (finish None stopped_reason (s\<lparr>sv_cancelled := True\<rparr>)))"
| "service_step to_string l (RequestArrives req) s =
     (case sv_phase s of
        Finished _ \<Rightarrow> None
      | _ \<Rightarrow> Some (s\<lparr>sv_queue := sv_queue s @ [req]\<rparr>))"
| "service_step to_string l (RequestTaken now clocks) s =
     (case sv_queue s of
        [] \<Rightarrow> None
      | req # rest \<Rightarrow>
          let s = s\<lparr>sv_queue := rest\<rparr>
          in case sv_phase s of
               Finished _ \<Rightarrow> None
             | Connecting \<Rightarrow> Some (loop_top to_string (serve_reload_request to_string req s))
             | Backoff \<Rightarrow> Some (after_backoff to_string (serve_reload_request to_string req s))
             | InSession c \<Rightarrow> session_reload to_string l now clocks req c s)"
| "service_step to_string l (SessionOpens io now inbox) s =
     (case sv_phase s of
        Connecting \<Rightarrow>
          Some (session_opened to_string
            (open_session l io (sv_cfg s) (ci_tunnel_remotes (sv_handle s)) now inbox) s)
      | _ \<Rightarrow> None)"
| "service_step to_string l (SessionDone res) s =
     (case sv_phase s of
        InSession c \<Rightarrow> Some (session_done to_string (reported_end res c) s)
      | _ \<Rightarrow> None)"
| "service_step to_string l (SessionActs e) s =
     (case sv_phase s of
        InSession c \<Rightarrow> Some (in_session (run_reader (cc_server (sv_cfg s)) e c) s)
      | _ \<Rightarrow> None)"
| "service_step to_string l BackoffOver s =
     (case sv_phase s of Backoff \<Rightarrow> Some (after_backoff to_string s) | _ \<Rightarrow> None)"


section \<open>Facts about the pieces\<close>

text \<open>A stopped client can be started again.\<close>

lemma restart_after_stop:
  assumes "joined \<noteq> JoinFailed" and "ci_status h \<noteq> Stopped"
    and "client_validate (prepare_runtime resolve cfg) = Inr ()"
  shows "ci_status (stop joined h) = Stopped \<and> tr_by_name (ci_tunnel_remotes (stop joined h)) = Map.empty \<and>
    \<not> ci_reload_tx (stop joined h) \<and> (\<exists>h'. start_with resolve cfg (stop joined h) = (Inr (prepare_runtime resolve cfg), h'))"
proof -
  have "ci_status (stop joined h) = Stopped"
    using assms(1,2) by (cases joined) (auto simp: stop_def task_ended_def set_status_def clear_remotes_def clear_reload_tx_def
        set_error_def Let_def split: option.split)
  moreover have "tr_by_name (ci_tunnel_remotes (stop joined h)) = Map.empty" "\<not> ci_reload_tx (stop joined h)"
    using assms(2) by (simp_all add: stop_def clear_remotes_def clear_reload_tx_def clear_tunnel_remotes_def Let_def)
  ultimately show ?thesis using assms(3) by (simp add: start_with_def is_active_def)
qed

lemma pending_logs_bounded:
  "length (ci_pending_logs h) \<le> MAX_PENDING \<Longrightarrow> length (ci_pending_logs (enqueue_log x h)) \<le> MAX_PENDING"
  by (simp add: enqueue_log_def Let_def MAX_PENDING_def)

definition pending_id :: "'tls ServiceState \<Rightarrow> nat multiset" where
  "pending_id s = (case sv_pending s of Some (i, _) \<Rightarrow> {#i#} | None \<Rightarrow> {#})"

text \<open>The requests the service has received: waiting in the channel, answered, or waiting for a
  reconnect.\<close>

definition requests :: "'tls ServiceState \<Rightarrow> nat multiset" where
  "requests s = mset (map rq_id (sv_queue s)) + mset (map fst (sv_replies s)) + pending_id s"

named_theorems service_frame

lemma on_log_frame [service_frame]:
  "sv_queue (on_log x s) = sv_queue s" "sv_replies (on_log x s) = sv_replies s" "sv_pending (on_log x s) = sv_pending s"
  "sv_backoff_secs (on_log x s) = sv_backoff_secs s" "sv_cancelled (on_log x s) = sv_cancelled s"
  "sv_cfg (on_log x s) = sv_cfg s" "sv_phase (on_log x s) = sv_phase s" "sv_session_id (on_log x s) = sv_session_id s"
  "sv_first_attempt (on_log x s) = sv_first_attempt s"
  by (simp_all add: on_log_def)

lemma on_status_frame [service_frame]:
  "sv_queue (on_status x s) = sv_queue s" "sv_replies (on_status x s) = sv_replies s"
  "sv_pending (on_status x s) = sv_pending s" "sv_backoff_secs (on_status x s) = sv_backoff_secs s"
  "sv_cancelled (on_status x s) = sv_cancelled s" "sv_cfg (on_status x s) = sv_cfg s"
  "sv_phase (on_status x s) = sv_phase s" "sv_session_id (on_status x s) = sv_session_id s"
  "sv_first_attempt (on_status x s) = sv_first_attempt s"
  by (simp_all add: on_status_def)

lemma on_remotes_clear_frame [service_frame]:
  "sv_queue (on_remotes_clear s) = sv_queue s" "sv_replies (on_remotes_clear s) = sv_replies s"
  "sv_pending (on_remotes_clear s) = sv_pending s" "sv_backoff_secs (on_remotes_clear s) = sv_backoff_secs s"
  "sv_cancelled (on_remotes_clear s) = sv_cancelled s" "sv_cfg (on_remotes_clear s) = sv_cfg s"
  "sv_phase (on_remotes_clear s) = sv_phase s" "sv_session_id (on_remotes_clear s) = sv_session_id s"
  "sv_first_attempt (on_remotes_clear s) = sv_first_attempt s"
  by (simp_all add: on_remotes_clear_def)

lemma sync_remotes_frame [service_frame]:
  "sv_queue (sync_remotes c s) = sv_queue s" "sv_replies (sync_remotes c s) = sv_replies s"
  "sv_pending (sync_remotes c s) = sv_pending s" "sv_backoff_secs (sync_remotes c s) = sv_backoff_secs s"
  "sv_cancelled (sync_remotes c s) = sv_cancelled s" "sv_cfg (sync_remotes c s) = sv_cfg s"
  "sv_session_id (sync_remotes c s) = sv_session_id s" "sv_first_attempt (sync_remotes c s) = sv_first_attempt s"
  by (simp_all add: sync_remotes_def)

lemma in_session_frame [service_frame]:
  "sv_queue (in_session c s) = sv_queue s" "sv_replies (in_session c s) = sv_replies s"
  "sv_pending (in_session c s) = sv_pending s" "sv_backoff_secs (in_session c s) = sv_backoff_secs s"
  "sv_cancelled (in_session c s) = sv_cancelled s" "sv_cfg (in_session c s) = sv_cfg s"
  "sv_session_id (in_session c s) = sv_session_id s" "sv_phase (in_session c s) = InSession c"
  by (simp_all add: in_session_def service_frame)

lemma send_reply_frame [service_frame]:
  "sv_queue (send_reply i r s) = sv_queue s" "sv_replies (send_reply i r s) = sv_replies s @ [(i, r)]"
  "sv_pending (send_reply i r s) = sv_pending s" "sv_backoff_secs (send_reply i r s) = sv_backoff_secs s"
  "sv_cancelled (send_reply i r s) = sv_cancelled s" "sv_cfg (send_reply i r s) = sv_cfg s"
  "sv_phase (send_reply i r s) = sv_phase s" "sv_session_id (send_reply i r s) = sv_session_id s"
  "sv_first_attempt (send_reply i r s) = sv_first_attempt s"
  by (simp_all add: send_reply_def)

lemma fold_on_log_frame [service_frame]:
  "sv_queue (fold on_log xs s) = sv_queue s" "sv_replies (fold on_log xs s) = sv_replies s"
  "sv_pending (fold on_log xs s) = sv_pending s" "sv_backoff_secs (fold on_log xs s) = sv_backoff_secs s"
  "sv_cancelled (fold on_log xs s) = sv_cancelled s" "sv_cfg (fold on_log xs s) = sv_cfg s"
  "sv_phase (fold on_log xs s) = sv_phase s" "sv_session_id (fold on_log xs s) = sv_session_id s"
  "sv_first_attempt (fold on_log xs s) = sv_first_attempt s"
  by (induction xs arbitrary: s) (simp_all add: service_frame)

text \<open>Without a session a reload is answered at once.\<close>

lemma apply_reload_offline:
  "\<exists>r cfg' logs. apply_reload ts l now clocks req cfg None = Some (Reply r, cfg', None, logs)"
  by (auto simp: apply_reload_def Let_def split: sum.split ReloadPlan.split)

lemma serve_reload_request_frame [service_frame]:
  "sv_queue (serve_reload_request ts req s) = sv_queue s"
  "map fst (sv_replies (serve_reload_request ts req s)) = map fst (sv_replies s) @ [rq_id req]"
  "sv_pending (serve_reload_request ts req s) = sv_pending s"
  "sv_backoff_secs (serve_reload_request ts req s) = sv_backoff_secs s"
  "sv_cancelled (serve_reload_request ts req s) = sv_cancelled s"
  "sv_phase (serve_reload_request ts req s) = sv_phase s"
  "sv_session_id (serve_reload_request ts req s) = sv_session_id s"
  "sv_first_attempt (serve_reload_request ts req s) = sv_first_attempt s"
proof -
  obtain r cfg' logs where "apply_reload ts (\<lambda>_ _ _. None :: 'a option) 0 [] req (sv_cfg s) None =
      Some (Reply r, cfg', None, logs)" using apply_reload_offline by blast
  then have eq: "serve_reload_request ts req s = send_reply (rq_id req) r (fold on_log logs (s\<lparr>sv_cfg := cfg'\<rparr>))"
    by (simp add: serve_reload_request_def)
  show "sv_queue (serve_reload_request ts req s) = sv_queue s"
    "map fst (sv_replies (serve_reload_request ts req s)) = map fst (sv_replies s) @ [rq_id req]"
    "sv_pending (serve_reload_request ts req s) = sv_pending s"
    "sv_backoff_secs (serve_reload_request ts req s) = sv_backoff_secs s"
    "sv_cancelled (serve_reload_request ts req s) = sv_cancelled s"
    "sv_phase (serve_reload_request ts req s) = sv_phase s"
    "sv_session_id (serve_reload_request ts req s) = sv_session_id s"
    "sv_first_attempt (serve_reload_request ts req s) = sv_first_attempt s"
    by (simp_all add: eq service_frame)
qed

lemma drain_reload_requests_frame [service_frame]:
  "sv_queue (drain_reload_requests ts s) = []"
  "map fst (sv_replies (drain_reload_requests ts s)) = map fst (sv_replies s) @ map rq_id (sv_queue s)"
  "sv_pending (drain_reload_requests ts s) = sv_pending s"
  "sv_backoff_secs (drain_reload_requests ts s) = sv_backoff_secs s"
  "sv_cancelled (drain_reload_requests ts s) = sv_cancelled s"
  "sv_phase (drain_reload_requests ts s) = sv_phase s"
  "sv_session_id (drain_reload_requests ts s) = sv_session_id s"
  "sv_first_attempt (drain_reload_requests ts s) = sv_first_attempt s"
proof -
  have *: "sv_queue (fold (serve_reload_request ts) qs s) = sv_queue s \<and>
      map fst (sv_replies (fold (serve_reload_request ts) qs s)) = map fst (sv_replies s) @ map rq_id qs \<and>
      sv_pending (fold (serve_reload_request ts) qs s) = sv_pending s \<and>
      sv_backoff_secs (fold (serve_reload_request ts) qs s) = sv_backoff_secs s \<and>
      sv_cancelled (fold (serve_reload_request ts) qs s) = sv_cancelled s \<and>
      sv_phase (fold (serve_reload_request ts) qs s) = sv_phase s \<and>
      sv_session_id (fold (serve_reload_request ts) qs s) = sv_session_id s \<and>
      sv_first_attempt (fold (serve_reload_request ts) qs s) = sv_first_attempt s" for qs and s :: "'a ServiceState"
    by (induction qs arbitrary: s) (simp_all add: service_frame)
  show "sv_queue (drain_reload_requests ts s) = []"
    "map fst (sv_replies (drain_reload_requests ts s)) = map fst (sv_replies s) @ map rq_id (sv_queue s)"
    "sv_pending (drain_reload_requests ts s) = sv_pending s"
    "sv_backoff_secs (drain_reload_requests ts s) = sv_backoff_secs s"
    "sv_cancelled (drain_reload_requests ts s) = sv_cancelled s"
    "sv_phase (drain_reload_requests ts s) = sv_phase s"
    "sv_session_id (drain_reload_requests ts s) = sv_session_id s"
    "sv_first_attempt (drain_reload_requests ts s) = sv_first_attempt s"
    using * [of "sv_queue s" "s\<lparr>sv_queue := []\<rparr>"] by (simp_all add: drain_reload_requests_def)
qed


section \<open>The invariant of the service\<close>

lemma next_backoff_bounds: "1 \<le> unat (next_backoff b) \<and> unat (next_backoff b) \<le> 60"
proof -
  have "unat (max x y) = max (unat x) (unat y)" "unat (min x y) = min (unat x) (unat y)" for x y :: u64
    by (auto simp: max_def min_def word_le_nat_alt)
  then show ?thesis by (simp add: next_backoff_def RECONNECT_BASE_SECS_def RECONNECT_MAX_SECS_def Let_def)
qed

lemma requests_fields:
  "sv_queue s' = sv_queue s \<Longrightarrow> sv_replies s' = sv_replies s \<Longrightarrow> sv_pending s' = sv_pending s \<Longrightarrow>
    requests s' = requests s"
  by (simp add: requests_def pending_id_def)

lemma fail_pending_reload_frame [service_frame]:
  "sv_queue (fail_pending_reload x s) = sv_queue s" "sv_pending (fail_pending_reload x s) = None"
  "sv_backoff_secs (fail_pending_reload x s) = sv_backoff_secs s"
  by (simp_all add: fail_pending_reload_def service_frame split: option.split)

lemma fail_pending_reload_requests: "requests (fail_pending_reload x s) = requests s"
  by (cases "sv_pending s") (auto simp: fail_pending_reload_def requests_def pending_id_def service_frame)

definition service_ok :: "'tls ServiceState \<Rightarrow> bool" where
  "service_ok s \<longleftrightarrow> 1 \<le> unat (sv_backoff_secs s) \<and> unat (sv_backoff_secs s) \<le> 60 \<and>
     (case sv_phase s of
        InSession _ \<Rightarrow> sv_pending s = None
      | Finished _ \<Rightarrow> sv_pending s = None
      | _ \<Rightarrow> True)"

lemma finish_ok:
  assumes "1 \<le> unat (sv_backoff_secs s)" and "unat (sv_backoff_secs s) \<le> 60"
  shows "service_ok (finish e x s)" and "requests (finish e x s) = requests s"
proof -
  show "service_ok (finish e x s)" using assms by (simp add: finish_def service_ok_def service_frame)
  have "requests (finish e x s) = requests (fail_pending_reload x s)"
    by (rule requests_fields) (simp_all add: finish_def)
  then show "requests (finish e x s) = requests s" by (simp add: fail_pending_reload_requests)
qed

lemma drain_requests: "requests (drain_reload_requests ts s) = requests s"
proof -
  have "mset (map fst (sv_replies (drain_reload_requests ts s))) = mset (map fst (sv_replies s)) + mset (map rq_id (sv_queue s))"
    unfolding drain_reload_requests_frame(2) by simp
  then show ?thesis by (simp add: requests_def pending_id_def service_frame)
qed

lemma loop_top_ok:
  assumes "1 \<le> unat (sv_backoff_secs s)" and "unat (sv_backoff_secs s) \<le> 60"
  shows "service_ok (loop_top ts s)" and "requests (loop_top ts s) = requests s"
proof -
  show "service_ok (loop_top ts s)"
    using assms finish_ok(1) [OF assms]
    by (simp add: loop_top_def Let_def service_ok_def service_frame del: finish_ok split: option.split)
  have "requests (loop_top ts s) = requests (drain_reload_requests ts s)" if "\<not> sv_cancelled s"
    using that by (auto simp: loop_top_def Let_def service_frame intro!: requests_fields)
  then show "requests (loop_top ts s) = requests s"
    by (cases "sv_cancelled s") (simp_all add: loop_top_def finish_ok(2) [OF assms] drain_requests)
qed

lemma back_off_ok:
  assumes "1 \<le> unat (sv_backoff_secs s)" and "unat (sv_backoff_secs s) \<le> 60"
  shows "service_ok (back_off s)" and "requests (back_off s) = requests s"
  using assms by (simp_all add: back_off_def log_retry_def service_ok_def requests_def pending_id_def service_frame)

lemma service_okD: "service_ok s \<Longrightarrow> 1 \<le> unat (sv_backoff_secs s) \<and> unat (sv_backoff_secs s) \<le> 60"
  by (simp add: service_ok_def)

lemma session_opened_ok:
  assumes "service_ok s"
  shows "service_ok (session_opened ts res s) \<and> requests (session_opened ts res s) = requests s"
proof (cases res)
  case (Inl e)
  note b = service_okD [OF assms]
  let ?s = "on_status Reconnecting (on_log (''ERROR failed to connect: '' @ ts e) s)\<lparr>sv_first_attempt := False\<rparr>"
  have s: "1 \<le> unat (sv_backoff_secs ?s)" "unat (sv_backoff_secs ?s) \<le> 60" "requests ?s = requests s"
    using b by (simp_all add: service_frame requests_def pending_id_def)
  have l: "1 \<le> unat (sv_backoff_secs (on_log x s))" "unat (sv_backoff_secs (on_log x s)) \<le> 60"
    "requests (on_log x s) = requests s" for x
    using b by (simp_all add: service_frame requests_def pending_id_def)
  show ?thesis
  proof (cases "sv_cancelled s")
    case True
    then show ?thesis using finish_ok [of s] b by (simp add: session_opened_def Inl)
  next
    case False
    show ?thesis
    proof (cases "\<exists>reason. e = LoginRejected reason")
      case True
      then show ?thesis using False finish_ok [OF l(1,2)] l(3) by (auto simp: session_opened_def Inl)
    next
      case other: False
      then have "session_opened ts res s = back_off ?s"
        using False by (cases e) (simp_all add: session_opened_def Inl)
      then show ?thesis using back_off_ok [OF s(1,2)] s(3) by simp
    qed
  qed
next
  case (Inr c)
  then show ?thesis
    by (cases "sv_pending s")
      (auto simp: session_opened_def service_ok_def requests_def pending_id_def service_frame Let_def RECONNECT_BASE_SECS_def)
qed

lemma session_done_ok:
  assumes "service_ok s"
  shows "service_ok (session_done ts res s) \<and> requests (session_done ts res s) = requests s"
proof -
  note b = service_okD [OF assms]
  have fin: "service_ok (finish e x s') \<and> requests (finish e x s') = requests s"
    if "sv_backoff_secs s' = sv_backoff_secs s" "requests s' = requests s" for s' :: "'a ServiceState" and e x
    using finish_ok [of s' e x] that b by simp
  have wait: "service_ok (back_off (drain_reload_requests ts s')) \<and>
      requests (back_off (drain_reload_requests ts s')) = requests s"
    if "sv_backoff_secs s' = sv_backoff_secs s" "requests s' = requests s" for s' :: "'a ServiceState"
    using back_off_ok [of "drain_reload_requests ts s'"] that b by (simp add: service_frame drain_requests)
  have frame: "requests s' = requests s"
    if "sv_queue s' = sv_queue s" "sv_replies s' = sv_replies s" "sv_pending s' = sv_pending s" for s' :: "'a ServiceState"
    using that by (rule requests_fields)
  show ?thesis
    by (cases res; cases "projr res")
      (auto simp: session_done_def Let_def service_frame intro!: fin wait frame split: SessionEnd.split)
qed


lemma session_reload_ok:
  assumes "service_ok s" and "sv_pending s = None" and "session_reload ts l now clocks req c s = Some s'"
  shows "service_ok s' \<and> requests s' = add_mset (rq_id req) (requests s)"
proof -
  note b = service_okD [OF assms(1)]
  obtain res cfg control logs where ap: "apply_reload ts l now clocks req (sv_cfg s) (Some c) = Some (res, cfg, control, logs)"
    using assms(3) by (auto simp: session_reload_def split: option.splits)
  show ?thesis
  proof (cases res)
    case (Reply r)
    then show ?thesis using assms b
      by (auto simp: session_reload_def ap service_ok_def requests_def pending_id_def service_frame split: option.splits)
  next
    case (Reconnect outcome)
    define s1 where "s1 = on_status Reconnecting (on_log ''INFO  reconnecting to apply client settings''
      ((on_remotes_clear (sync_remotes (case control of Some c' \<Rightarrow> c' | None \<Rightarrow> c)
         (fold on_log logs (s\<lparr>sv_cfg := cfg\<rparr>))))\<lparr>sv_pending := Some (rq_id req, outcome)\<rparr>))"
    have "s' = loop_top ts s1" using assms(3) by (simp add: session_reload_def ap Reconnect s1_def Let_def)
    moreover have "sv_backoff_secs s1 = sv_backoff_secs s" "requests s1 = add_mset (rq_id req) (requests s)"
      using assms(2) by (simp_all add: s1_def service_frame requests_def pending_id_def)
    ultimately show ?thesis using loop_top_ok [of s1] b by simp
  qed
qed

lemma serve_requests: "requests (serve_reload_request ts req s) = add_mset (rq_id req) (requests s)"
proof -
  have "mset (map fst (sv_replies (serve_reload_request ts req s))) = add_mset (rq_id req) (mset (map fst (sv_replies s)))"
    unfolding serve_reload_request_frame(2) by simp
  then show ?thesis by (simp add: requests_def pending_id_def service_frame)
qed

lemma after_backoff_ok:
  "service_ok (after_backoff ts s)" "requests (after_backoff ts s) = requests s"
  using loop_top_ok [of "s\<lparr>sv_backoff_secs := next_backoff (sv_backoff_secs s)\<rparr>" ts] next_backoff_bounds
  by (simp_all add: after_backoff_def requests_def pending_id_def)

text \<open>What an event adds to the requests.\<close>

fun event_requests :: "service_event \<Rightarrow> nat multiset" where
  "event_requests (RequestArrives req) = {#rq_id req#}"
| "event_requests _ = {#}"

lemma service_step_ok:
  assumes "service_ok s" and "service_step ts l e s = Some s'"
  shows "service_ok s' \<and> requests s' = event_requests e + requests s"
proof -
  note b = service_okD [OF assms(1)]
  show ?thesis
  proof (cases e)
    case CancelEvent
    show ?thesis using assms(2) b finish_ok [of "s\<lparr>sv_cancelled := True\<rparr>"] finish_ok [of "on_remotes_clear (s\<lparr>sv_cancelled := True\<rparr>)"]
      by (auto simp: CancelEvent cancelled_session_def requests_def pending_id_def service_frame split: service_phase.splits)
  next
    case (RequestArrives req)
    then show ?thesis using assms
      by (auto simp: service_ok_def requests_def pending_id_def split: service_phase.splits)
  next
    case (RequestTaken now clocks)
    then obtain req rest where q: "sv_queue s = req # rest" using assms(2) by (auto split: list.splits)
    define s0 where "s0 = s\<lparr>sv_queue := rest\<rparr>"
    have s0: "service_ok s0" "requests s = add_mset (rq_id req) (requests s0)" "sv_phase s0 = sv_phase s"
      "sv_backoff_secs s0 = sv_backoff_secs s" "sv_pending s0 = sv_pending s"
      using assms(1) q by (auto simp: s0_def service_ok_def requests_def pending_id_def split: service_phase.splits)
    note srv = serve_requests [of ts req s0]
    show ?thesis
    proof (cases "sv_phase s")
      case Connecting
      then have "s' = loop_top ts (serve_reload_request ts req s0)"
        using assms(2) q s0(3) by (simp add: RequestTaken s0_def [symmetric] Let_def)
      then show ?thesis using loop_top_ok [of "serve_reload_request ts req s0" ts] b s0 srv
        by (simp add: RequestTaken service_frame)
    next
      case (InSession c)
      then have "session_reload ts l now clocks req c s0 = Some s'" "sv_pending s0 = None"
        using assms q s0(3,5) by (simp_all add: RequestTaken s0_def [symmetric] Let_def service_ok_def)
      then show ?thesis using session_reload_ok [OF s0(1)] s0(2) by (simp add: RequestTaken)
    next
      case Backoff
      then have "s' = after_backoff ts (serve_reload_request ts req s0)"
        using assms(2) q s0(3) by (simp add: RequestTaken s0_def [symmetric] Let_def)
      then show ?thesis using after_backoff_ok [of ts "serve_reload_request ts req s0"] s0 srv by (simp add: RequestTaken)
    next
      case (Finished x)
      then show ?thesis using assms(2) q by (simp add: RequestTaken Let_def)
    qed
  next
    case (SessionOpens io now inbox)
    then show ?thesis using assms session_opened_ok by (auto split: service_phase.splits)
  next
    case (SessionActs ev)
    then show ?thesis using assms
      by (auto simp: service_ok_def requests_def pending_id_def service_frame split: service_phase.splits)
  next
    case (SessionDone err)
    then show ?thesis using assms session_done_ok by (auto split: service_phase.splits)
  next
    case BackoffOver
    then show ?thesis using assms after_backoff_ok by (auto split: service_phase.splits)
  qed
qed

text \<open>Runs of the service. The channel of an answer is new for every request.\<close>

inductive service_run ::
    "(client_error \<Rightarrow> string) \<Rightarrow> (string \<Rightarrow> string \<Rightarrow> string \<Rightarrow> 'tls option) \<Rightarrow> ClientConfig \<Rightarrow> ClientInner \<Rightarrow> nat set \<Rightarrow>
     'tls ServiceState \<Rightarrow> bool"
  for ts l cfg h where
  service_starts: "service_run ts l cfg h {} (service_start ts cfg h)"
| service_steps:
    "service_run ts l cfg h A s \<Longrightarrow> service_step ts l e s = Some s' \<Longrightarrow>
     (\<And>req. e = RequestArrives req \<Longrightarrow> rq_id req \<notin> A) \<Longrightarrow>
     service_run ts l cfg h (set_mset (event_requests e) \<union> A) s'"

lemma service_run_ok:
  assumes "service_run ts l cfg h A s"
  shows "service_ok s \<and> finite A \<and> requests s = mset_set A"
  using assms
proof (induction rule: service_run.induct)
  case service_starts
  show ?case
    using loop_top_ok [of "\<lparr>sv_cfg = cfg, sv_session_id = [], sv_first_attempt = True, sv_backoff_secs = RECONNECT_BASE_SECS,
      sv_pending = None, sv_queue = [], sv_replies = [], sv_cancelled = False, sv_handle = h, sv_phase = Connecting\<rparr>" ts]
    by (simp add: service_start_def RECONNECT_BASE_SECS_def requests_def pending_id_def)
next
  case (service_steps A s e s')
  then have "service_ok s' \<and> requests s' = event_requests e + requests s" using service_step_ok by blast
  with service_steps show ?case by (cases e) (auto simp: mset_set.insert)
qed


section \<open>Properties\<close>

lemma unat_next_backoff: "unat b \<le> 60 \<Longrightarrow> unat (next_backoff b) = max 1 (min 60 (2 * unat b))"
proof -
  assume "unat b \<le> 60"
  moreover have "unat (max x y) = max (unat x) (unat y)" "unat (min x y) = min (unat x) (unat y)" for x y :: u64
    by (auto simp: max_def min_def word_le_nat_alt)
  moreover have "unat (2 * b) = 2 * unat b" using calculation(1) unat_mult_lem [of 2 b] by simp
  ultimately show ?thesis by (simp add: next_backoff_def RECONNECT_BASE_SECS_def RECONNECT_MAX_SECS_def Let_def)
qed

fun run_events ::
    "(client_error \<Rightarrow> string) \<Rightarrow> (string \<Rightarrow> string \<Rightarrow> string \<Rightarrow> 'tls option) \<Rightarrow> service_event list \<Rightarrow> 'tls ServiceState \<Rightarrow>
     'tls ServiceState option" where
  "run_events ts l [] s = Some s"
| "run_events ts l (e # es) s = (case service_step ts l e s of None \<Rightarrow> None | Some s' \<Rightarrow> run_events ts l es s')"

lemma run_events_append:
  "run_events ts l (xs @ ys) s = (case run_events ts l xs s of None \<Rightarrow> None | Some s' \<Rightarrow> run_events ts l ys s')"
  by (induction xs arbitrary: s) (simp_all split: option.split)

lemma failed_attempt:
  assumes "sv_phase s = Connecting" and "\<not> sv_cancelled s" and "\<not> li_connects io"
  shows "\<exists>s'. run_events ts l [SessionOpens io t inbox, BackoffOver] s = Some s' \<and> sv_phase s' = Connecting \<and>
    \<not> sv_cancelled s' \<and> sv_backoff_secs s' = next_backoff (sv_backoff_secs s) \<and> sv_session_id s' = sv_session_id s"
  using assms
  by (simp add: open_session_def session_opened_def back_off_def log_retry_def after_backoff_def loop_top_def Let_def
      service_frame)







lemma ClientConfig_eq_refl:
  assumes "client_validate c = Inr ()"
  shows "ClientConfig_eq c c"
proof -
  have "validate_tunnels [] (cc_tunnels c) = Inr ()"
    using assms by (auto simp: client_validate_def Let_def split: if_splits)
  then have "\<forall>t \<in> set (cc_tunnels c). TunnelConfig_eq t t"
    by (auto simp: validate_tunnels_ok validated_not_nan TunnelConfig_eq_refl)
  then show ?thesis by (simp add: ClientConfig_eq_def list.rel_refl_strong)
qed

text \<open>C35. A reload that failed is not retried: the client takes over the new configuration even when some of its
  tunnels could not be started, so that requesting the same configuration again is answered as having
  nothing to do, and the failed tunnels stay down.\<close>

theorem failed_reload_not_retried:
  assumes ap: "apply_reload ts l now clocks req cfg (Some c) = Some (Reply (Inr r), cfg', Some c', logs)"
    and failed: "ro_failed r \<noteq> []"
  shows "apply_reload ts l now' clocks' req cfg' (Some d) =
      Some (Reply (Inr (empty_outcome PlanNoop)), cfg', Some d, []) \<and> succeeded (empty_outcome PlanNoop)"
proof -
  let ?new = "prepare_runtime (rq_resolve req) (rq_cfg req)"
  have "ro_failed (empty_outcome p) = []" for p by (simp add: empty_outcome_def ReloadOutcome_default_def)
  then have "cfg' = ?new \<and> client_validate ?new = Inr ()"
    using ap failed
    by (auto simp: apply_reload_def Let_def split: sum.splits ReloadPlan.splits if_splits prod.splits option.splits)
  then show ?thesis
    using ClientConfig_eq_refl [of ?new]
    by (simp add: apply_reload_def plan_reload_def Let_def empty_outcome_def succeeded_def ReloadOutcome_default_def)
qed

lemma client_complete_tunnels: "client_complete (c\<lparr>cc_tunnels := ts\<rparr>) = (client_complete c)\<lparr>cc_tunnels := ts\<rparr>"
  by (simp add: client_complete_closed completed_transport_def completed_server_name_def protocol_def server_host_def Let_def
      cong: option.case_cong)

definition demo_request_reload :: ReloadRequest where
  "demo_request_reload =
     \<lparr>rq_id = 1, rq_cfg = (client_complete demo_client)\<lparr>cc_tunnels := [demo_tunnel]\<rparr>, rq_resolve = id\<rparr>"

lemma demo_prepared:
  "prepare_runtime (rq_resolve demo_request_reload) (rq_cfg demo_request_reload) =
     (client_complete demo_client)\<lparr>cc_tunnels := [demo_tunnel]\<rparr>"
proof -
  have "client_resolve_paths id c = c" for c
    by (auto simp: client_resolve_paths_def Let_def option.map_ident intro!: map_idI)
  then show ?thesis
    by (simp add: prepare_runtime_def demo_request_reload_def client_complete_tunnels client_complete_idem)
qed

lemma demo_failed:
  "\<exists>r c. apply_tunnel_changes (\<lambda>_. []) (\<lambda>_ _ _. None) ''h'' 0 [0] (diff_tunnels [] [demo_tunnel])
     (demo_session\<lparr>cl_writer_open := False\<rparr>) = (Some r, c) \<and> ro_failed r = [(''t'', [])]"
proof -
  have "\<exists>c. register_session_tunnel (\<lambda>_ _ _. None) ''h'' demo_tunnel (demo_session\<lparr>cl_writer_open := False\<rparr>) =
      (Inl WriteBroken, c)"
    by (simp add: register_session_tunnel_def demo_valid build_new_tunnel_message_def demo_service upsert_def
        demo_build_entry Let_def,
        simp add: demo_tunnel_def demo_session_def client_write_def await_point_def)
  moreover have "tnc_name demo_tunnel = ''t''" by (simp add: demo_tunnel_def)
  ultimately show ?thesis
    by (auto simp: apply_tunnel_changes_def demo_diff stop_names_def start_one_def ReloadOutcome_default_def Let_def)
qed

theorem failed_reload_not_retried_witness:
  "\<exists>r cfg c logs. apply_reload (\<lambda>_. []) (\<lambda>_ _ _. None) 0 [0] demo_request_reload (client_complete demo_client)
      (Some (demo_session\<lparr>cl_writer_open := False\<rparr>)) = Some (Reply (Inr r), cfg, Some c, logs) \<and> \<not> succeeded r \<and>
    apply_reload (\<lambda>_. []) (\<lambda>_ _ _. None) 0 [0] demo_request_reload cfg (Some demo_session) =
      Some (Reply (Inr (empty_outcome PlanNoop)), cfg, Some demo_session, [])"
proof -
  let ?new = "(client_complete demo_client)\<lparr>cc_tunnels := [demo_tunnel]\<rparr>"
  have "client_validate (client_complete demo_client) = Inr ()" using load_with_Inr [OF demo_load] by simp
  moreover have "validate_tunnels [] [demo_tunnel] = Inr ()"
    using demo_valid by (simp add: demo_tunnel_def str_simps)
  ultimately have v: "client_validate ?new = Inr ()" by (rule client_validate_tunnels)
  have t: "cc_tunnels (client_complete demo_client) = []" "cc_server (client_complete demo_client) = ''h''"
    by (simp_all add: demo_client_def)
  have plan: "plan_reload (client_complete demo_client) ?new = Apply (diff_tunnels [] [demo_tunnel]) False"
    using t by (simp add: plan_reload_def ClientConfig_eq_def connection_settings_eq_def demo_diff changes_is_empty_def)
  obtain r c where run: "apply_tunnel_changes (\<lambda>_. []) (\<lambda>_ _ _. None) ''h'' 0 [0] (diff_tunnels [] [demo_tunnel])
     (demo_session\<lparr>cl_writer_open := False\<rparr>) = (Some r, c)" and r: "ro_failed r = [(''t'', [])]"
    using demo_failed by blast
  let ?r = "r\<lparr>ro_level := TunnelsOnly\<rparr>"
  have ap: "apply_reload (\<lambda>_. []) (\<lambda>_ _ _. None) 0 [0] demo_request_reload (client_complete demo_client)
      (Some (demo_session\<lparr>cl_writer_open := False\<rparr>)) =
      Some (Reply (Inr ?r), ?new, Some c, [log_counts ''INFO  reload applied: '' ?r])"
    unfolding apply_reload_def demo_prepared Let_def v plan t(2) using run by simp
  have f: "ro_failed ?r \<noteq> []" using r by simp
  from failed_reload_not_retried [OF ap f] ap f show ?thesis by (auto simp: succeeded_def)
qed

end
