(* ===== verification/Session_Service.thy ===== *)
theory Session_Service
  imports Control_Server Agent_Registry Auth
begin

text \<open>
  The admission of logins, the table of sessions and the data connections of the server
  (\<open>server/src/service/mod.rs\<close>, \<open>session_registry.rs\<close>, \<open>session_table.rs\<close>, \<open>control/session/data_pool.rs\<close>).
  A session is an address in \<open>srv_heap\<close> (the \<open>Arc\<close>); the gate of a session id, the mutex that serialises its
  changes, is a number, taken while it is in \<open>srv_held\<close>. A login, a kick, a data connection and a user's request
  for one are tasks that wait for gates, messages and each other: a task has a program counter, and a
  step of it is what the code does until it waits again. A login's task has the address of its session as
  its name.
\<close>

section \<open>State\<close>

record SessionEntry =
  se_control :: nat
  se_gate :: nat

type_synonym SessionMap = "string \<rightharpoonup> SessionEntry"

text \<open>What follows \<open>remove_if_current\<close> in the three places that call it.\<close>

datatype after_remove =
    ReplyConflict string
  | DropSession string
  | ReleaseAgent nat "string + unit"

datatype task_pc =
    Peeking
  | GateWait nat
  | Replacing nat "nat option"
  | Onlining nat
  | Greeting nat
  | Starting
  | Serving pc
  | Received Message
  | Ending "string + unit"
  | Closing nat "string + unit"
  | RemovePeek after_remove
  | RemoveWait nat after_remove
  | KickWait string nat nat
  | Kicking string nat nat
  | KickRemove string nat nat nat
  | DataWait string nat nat
  | Pushing nat
  | Popping nat
  | AwaitData nat int
  | Refill nat
  | TaskDone "string + unit"

record Server =
  srv_controls :: SessionMap
  srv_agents :: AgentRegistry
  srv_replay :: ReplayCache
  srv_shared :: Shared
  srv_next_generation :: u64
  srv_heap :: "nat \<rightharpoonup> Control"
  srv_held :: "nat set"
  srv_tasks :: "nat \<rightharpoonup> task_pc"
  srv_next :: nat
  srv_data :: "nat \<Rightarrow> nat list"
  srv_given :: "(nat \<times> nat) list"
  srv_refused :: "Message list"

text \<open>What the server runs with: the configuration, the version of the build, the cryptography, the sockets
  and the texts of errors. A moment has the monotonic and the wall clock.\<close>

record server_env =
  env_cfg :: ServerConfig
  env_version :: string
  env_crypto :: crypto
  env_bind :: "port_kind \<Rightarrow> string \<Rightarrow> string option"
  env_to_string :: "control_error \<Rightarrow> string"

record moment =
  mo_instant :: instant
  mo_clock :: clock

definition Service_new :: "ServerConfig \<Rightarrow> clock \<Rightarrow> Server" where
  "Service_new cfg now =
     \<lparr>srv_controls = Map.empty, srv_agents = AgentRegistry_new, srv_replay = ReplayCache_new,
      srv_shared = Shared_new (if http_gw_enabled cfg then Some (sc_http_gw_port cfg) else None)
        (if https_gw_enabled cfg then Some (sc_https_gw_port cfg) else None) now,
      srv_next_generation = 1, srv_heap = Map.empty, srv_held = {}, srv_tasks = Map.empty, srv_next = 0,
      srv_data = (\<lambda>_. []), srv_given = [], srv_refused = []\<rparr>"

text \<open>Tasks, gates and sessions in the state.\<close>

definition goto :: "nat \<Rightarrow> task_pc \<Rightarrow> Server \<Rightarrow> Server" where
  "goto t pc s = s\<lparr>srv_tasks := (srv_tasks s)(t \<mapsto> pc)\<rparr>"

definition spawn :: "task_pc \<Rightarrow> Server \<Rightarrow> Server" where
  "spawn pc s = (goto (srv_next s) pc s)\<lparr>srv_next := Suc (srv_next s)\<rparr>"

definition lock :: "nat \<Rightarrow> Server \<Rightarrow> Server" where
  "lock g s = s\<lparr>srv_held := insert g (srv_held s)\<rparr>"

definition unlock :: "nat \<Rightarrow> Server \<Rightarrow> Server" where
  "unlock g s = s\<lparr>srv_held := srv_held s - {g}\<rparr>"

definition ctl :: "Server \<Rightarrow> nat \<Rightarrow> Control" where
  "ctl s a = the (srv_heap s a)"

definition set_ctl :: "nat \<Rightarrow> Control \<Rightarrow> Server \<Rightarrow> Server" where
  "set_ctl a c s = s\<lparr>srv_heap := (srv_heap s)(a \<mapsto> c)\<rparr>"

definition shutdown_ctl :: "nat \<Rightarrow> moment \<Rightarrow> Server \<Rightarrow> Server" where
  "shutdown_ctl a now s =
     (case shutdown (mo_clock now) (ctl s a) (srv_shared s) of
        (c, sh) \<Rightarrow> (set_ctl a c s)\<lparr>srv_shared := sh\<rparr>)"

definition current :: "Server \<Rightarrow> string \<Rightarrow> nat \<Rightarrow> bool" where
  "current s sid a \<longleftrightarrow> (case srv_controls s sid of Some e \<Rightarrow> se_control e = a | None \<Rightarrow> False)"

section \<open>Admission\<close>

fun wire_error_text :: "wire_error \<Rightarrow> string" where
  "wire_error_text TooLong = ''identifier too long''"
| "wire_error_text ControlCharacters = ''identifier contains control characters''"

definition reject_login :: "server_env \<Rightarrow> string \<Rightarrow> Server \<Rightarrow> Server" where
  "reject_login env error s =
     spawn (TaskDone (Inl error))
       (s\<lparr>srv_refused := srv_refused s @ [LoginResp \<lparr>lr_version = env_version env, lr_session_id = [], lr_error = error\<rparr>]\<rparr>)"

definition admitted_session_id :: "string \<Rightarrow> Login \<Rightarrow> wire_error + string" where
  "admitted_session_id short_session_id login =
     (if trim (login_session_id login) = [] then Inr short_session_id
      else (case sanitize_wire_id (login_session_id login) MAX_SESSION_ID_LEN of
              Inr i \<Rightarrow> Inr (if i \<noteq> [] then i else short_session_id)
            | Inl e \<Rightarrow> Inl e))"

definition admitted_pool_count :: "ServerConfig \<Rightarrow> Login \<Rightarrow> nat" where
  "admitted_pool_count cfg login =
     min (nat (max (sint (login_pool_count login)) 0)) (nat (max (sint (st_max_conn_pool (sc_transport cfg))) 0))"

definition new_control ::
    "server_env \<Rightarrow> Login \<Rightarrow> string \<Rightarrow> string \<Rightarrow> string \<Rightarrow> string \<Rightarrow> moment \<Rightarrow> Server \<Rightarrow> Control" where
  "new_control env login user agent_id session_id client_ip now s =
     Control_new session_id (srv_next_generation s) (env_cfg env) (admitted_pool_count (env_cfg env) login)
       user agent_id (login_hostname login) (login_os login) (login_arch login) (login_version login) client_ip
       (mo_clock now)"

text \<open>The begin of \<open>register_control\<close>, up to its first wait.\<close>

definition register_control_begin ::
    "server_env \<Rightarrow> Login \<Rightarrow> string \<Rightarrow> string \<Rightarrow> moment \<Rightarrow> Server \<Rightarrow> Server" where
  "register_control_begin env login client_ip short_session_id now s =
     (case verify_login (env_crypto env) (ac_token (sc_auth (env_cfg env))) (login_auth_digest login)
             (login_timestamp login) (unix_now_secs (ck_time (mo_clock now) * 1000000000)) (srv_replay s)
             (mo_instant now) of
        (Inl _, replay) \<Rightarrow> reject_login env ''authorization failed'' (s\<lparr>srv_replay := replay\<rparr>)
      | (Inr _, replay) \<Rightarrow>
          let s = s\<lparr>srv_replay := replay\<rparr>
          in (case sanitize_wire_id (login_user login) MAX_USER_LEN of
                Inl e \<Rightarrow> reject_login env (wire_error_text e) s
              | Inr user \<Rightarrow>
                  (case sanitize_wire_id (login_agent_id login) MAX_AGENT_ID_LEN of
                     Inl e \<Rightarrow> reject_login env (wire_error_text e) s
                   | Inr agent_id \<Rightarrow>
                       (case admitted_session_id short_session_id login of
                          Inl e \<Rightarrow> reject_login env (wire_error_text e) s
                        | Inr session_id \<Rightarrow>
                            spawn Peeking
                              ((set_ctl (srv_next s) (new_control env login user agent_id session_id client_ip now s) s)
                                 \<lparr>srv_next_generation := srv_next_generation s + 1\<rparr>)))))"

section \<open>The session table\<close>

text \<open>\<open>swap_in_locked\<close>: the loop peeks at the gate, waits for it, and looks again.\<close>

definition swap_in_peek :: "nat \<Rightarrow> Server \<Rightarrow> Server" where
  "swap_in_peek t s =
     (case srv_controls s (co_session_id (ctl s t)) of
        Some e \<Rightarrow> goto t (GateWait (se_gate e)) s
      | None \<Rightarrow> (goto t (GateWait (srv_next s)) s)\<lparr>srv_next := Suc (srv_next s)\<rparr>)"

definition swap_in :: "nat \<Rightarrow> nat \<Rightarrow> Server \<Rightarrow> Server" where
  "swap_in t g s =
     (let sid = co_session_id (ctl s t); previous = srv_controls s sid
      in if g \<in> srv_held s then s
         else if previous \<noteq> None \<and> se_gate (the previous) \<noteq> g then goto t Peeking s
         else goto t (Replacing g (map_option se_control previous))
                (lock g (s\<lparr>srv_controls := (srv_controls s)(sid \<mapsto> \<lparr>se_control = t, se_gate = g\<rparr>)\<rparr>)))"

text \<open>\<open>remove_if_current\<close>, with what its caller does next.\<close>

definition after_removed :: "server_env \<Rightarrow> nat \<Rightarrow> bool \<Rightarrow> after_remove \<Rightarrow> moment \<Rightarrow> Server \<Rightarrow> Server" where
  "after_removed env t removed k now s =
     (case k of
        ReplyConflict err \<Rightarrow>
          goto t (TaskDone (Inl err))
            (shutdown_ctl t now (set_ctl t (snd (send_login_err (env_version env) err (ctl s t))) s))
      | DropSession err \<Rightarrow> goto t (TaskDone (Inl err)) (shutdown_ctl t now s)
      | ReleaseAgent n result \<Rightarrow>
          let c = ctl s t;
              s = (if removed
                   then s\<lparr>srv_agents := agent_release (srv_agents s) (co_session_id c) (co_generation c) n (mo_instant now)\<rparr>
                   else s)
          in goto t (TaskDone result)
               (s\<lparr>srv_shared := (srv_shared s)\<lparr>sh_metrics := close_client (sh_metrics (srv_shared s))\<rparr>\<rparr>))"

definition remove_peek :: "server_env \<Rightarrow> nat \<Rightarrow> after_remove \<Rightarrow> moment \<Rightarrow> Server \<Rightarrow> Server" where
  "remove_peek env t k now s =
     (if current s (co_session_id (ctl s t)) t
      then goto t (RemoveWait (se_gate (the (srv_controls s (co_session_id (ctl s t))))) k) s
      else after_removed env t False k now s)"

definition remove_if_current :: "server_env \<Rightarrow> nat \<Rightarrow> nat \<Rightarrow> after_remove \<Rightarrow> moment \<Rightarrow> Server \<Rightarrow> Server" where
  "remove_if_current env t g k now s =
     (let sid = co_session_id (ctl s t)
      in if g \<in> srv_held s then s
         else if current s sid t
         then after_removed env t True k now (s\<lparr>srv_controls := (srv_controls s)(sid := None)\<rparr>)
         else after_removed env t False k now s)"

section \<open>A login after it has the gate\<close>

definition conflict_text :: "Control \<Rightarrow> string" where
  "conflict_text c = ''agent_id ['' @ co_agent_id c @ ''] for user ['' @ co_user c @ ''] is already online''"

definition online_spec :: "Control \<Rightarrow> AgentOnlineSpec" where
  "online_spec c =
     \<lparr>ao_user = co_user c, ao_agent_id = co_agent_id c, ao_session_id = co_session_id c, ao_generation = co_generation c,
      ao_hostname = co_hostname c, ao_os = co_os c, ao_arch = co_arch c, ao_client_ip = co_client_ip c,
      ao_version = co_version c\<rparr>"

definition replace_previous :: "nat \<Rightarrow> nat \<Rightarrow> nat option \<Rightarrow> moment \<Rightarrow> Server \<Rightarrow> Server" where
  "replace_previous t g previous now s =
     goto t (Onlining g) (case previous of Some old \<Rightarrow> shutdown_ctl old now s | None \<Rightarrow> s)"

definition go_online :: "nat \<Rightarrow> nat \<Rightarrow> moment \<Rightarrow> Server \<Rightarrow> Server" where
  "go_online t g now s =
     (case try_online (srv_agents s) (online_spec (ctl s t)) (mo_instant now) of
        (Inr _, agents) \<Rightarrow> goto t (Greeting g) (s\<lparr>srv_agents := agents\<rparr>)
      | (Inl Conflict, agents) \<Rightarrow>
          goto t (RemovePeek (ReplyConflict (conflict_text (ctl s t)))) (unlock g (s\<lparr>srv_agents := agents\<rparr>)))"

definition greet :: "server_env \<Rightarrow> nat \<Rightarrow> nat \<Rightarrow> moment \<Rightarrow> Server \<Rightarrow> Server" where
  "greet env t g now s =
     (let c = ctl s t
      in case send_login_ok (env_version env) c of
           (Inl e, c') \<Rightarrow>
             goto t (RemovePeek (DropSession (env_to_string env e)))
               (unlock g ((set_ctl t c' s)\<lparr>srv_agents :=
                  agent_release (srv_agents s) (co_session_id c) (co_generation c) 0 (mo_instant now)\<rparr>))
         | (Inr _, c') \<Rightarrow>
             goto t Starting
               (unlock g ((set_ctl t c' s)\<lparr>srv_shared :=
                  (srv_shared s)\<lparr>sh_metrics := new_client (sh_metrics (srv_shared s)) (co_session_id c)\<rparr>\<rparr>)))"

text \<open>\<open>Control::run\<close>: the first requests, then a message at a time. A registration goes in steps; when its answer
  cannot be written the handler fails and the loop ends.\<close>

definition start_run :: "server_env \<Rightarrow> nat \<Rightarrow> Server \<Rightarrow> Server" where
  "start_run env t s =
     (case request_pool (co_pool_count (ctl s t)) (ctl s t) of
        (Inl e, c) \<Rightarrow> goto t (Ending (Inl (env_to_string env e))) (set_ctl t c s)
      | (Inr _, c) \<Rightarrow> goto t (Serving Idle) (set_ctl t c s))"

fun is_idle :: "pc \<Rightarrow> bool" where
  "is_idle Idle = True"
| "is_idle pc = False"

lemma is_idle_iff [simp]: "is_idle pc \<longleftrightarrow> pc = Idle"
  by (cases pc) auto

definition registered_step :: "server_env \<Rightarrow> nat \<Rightarrow> pc \<times> Control \<times> Shared \<Rightarrow> Server \<Rightarrow> Server" where
  "registered_step env t pcs s =
     (case pcs of (pc, c, sh) \<Rightarrow>
        goto t (if is_idle pc \<and> \<not> co_writer_open c then Ending (Inl (env_to_string env WriteFailed)) else Serving pc)
          ((set_ctl t c s)\<lparr>srv_shared := sh\<rparr>))"

definition reading :: "nat \<Rightarrow> Server \<Rightarrow> bool" where
  "reading t s \<longleftrightarrow> (case srv_tasks s t of Some (Serving pc) \<Rightarrow> is_idle pc | _ \<Rightarrow> False)"

lemma reading_iff [simp]: "reading t s \<longleftrightarrow> srv_tasks s t = Some (Serving Idle)"
  by (auto simp: reading_def split: option.splits task_pc.splits)

definition receive :: "nat \<Rightarrow> Message \<Rightarrow> Server \<Rightarrow> Server" where
  "receive t m s =
     (if \<not> reading t s then s
      else if co_closed (ctl s t) then goto t (Ending (Inr ())) s
      else goto t (Received m) s)"

definition run_ends :: "nat \<Rightarrow> Server \<Rightarrow> Server" where
  "run_ends t s = (if reading t s then goto t (Ending (Inr ())) s else s)"

definition handle_received :: "server_env \<Rightarrow> nat \<Rightarrow> Message \<Rightarrow> moment \<Rightarrow> Server \<Rightarrow> Server" where
  "handle_received env t m now s =
     (case m of
        NewTunnel np \<Rightarrow>
          registered_step env t (reg_begin (env_to_string env) np (mo_clock now) (ctl s t) (srv_shared s)) s
      | CloseTunnel cp \<Rightarrow>
          (case handle_close_tunnel cp (mo_clock now) (ctl s t) (srv_shared s) of
             (c, sh) \<Rightarrow> goto t (Serving Idle) ((set_ctl t c s)\<lparr>srv_shared := sh\<rparr>))
      | Ping _ \<Rightarrow>
          (case handle_ping (mo_clock now) (ctl s t) of
             (Inl e, c) \<Rightarrow> goto t (Ending (Inl (env_to_string env e))) (set_ctl t c s)
           | (Inr _, c) \<Rightarrow> goto t (Serving Idle) (set_ctl t c s))
      | _ \<Rightarrow> goto t (Serving Idle) s)"

section \<open>Kicks and data connections\<close>

definition kick_client_begin :: "string \<Rightarrow> Server \<Rightarrow> Server" where
  "kick_client_begin sid s =
     spawn (case srv_controls s sid of
              Some e \<Rightarrow> KickWait sid (se_gate e) (se_control e)
            | None \<Rightarrow> TaskDone (Inl (''client not online: '' @ sid))) s"

definition kick_locked :: "nat \<Rightarrow> string \<Rightarrow> nat \<Rightarrow> nat \<Rightarrow> Server \<Rightarrow> Server" where
  "kick_locked t sid g a s =
     (if g \<in> srv_held s then s
      else if current s sid a then goto t (Kicking sid g a) (lock g s)
      else goto t (TaskDone (Inl (''client not online: '' @ sid))) s)"

definition kick_session :: "nat \<Rightarrow> string \<Rightarrow> nat \<Rightarrow> nat \<Rightarrow> moment \<Rightarrow> Server \<Rightarrow> Server" where
  "kick_session t sid g a now s =
     (let n = tunnel_count (ctl s a); (c, sh) = kick ''kicked from dashboard'' (mo_clock now) (ctl s a) (srv_shared s)
      in goto t (KickRemove sid g a n) ((set_ctl a c s)\<lparr>srv_shared := sh\<rparr>))"

definition kick_remove :: "nat \<Rightarrow> string \<Rightarrow> nat \<Rightarrow> nat \<Rightarrow> nat \<Rightarrow> moment \<Rightarrow> Server \<Rightarrow> Server" where
  "kick_remove t sid g a n now s =
     (let s = (if current s sid a then s\<lparr>srv_controls := (srv_controls s)(sid := None)\<rparr> else s);
          s = unlock g s
      in goto t (TaskDone (Inr ()))
           (s\<lparr>srv_agents := agent_release (srv_agents s) sid (co_generation (ctl s a)) n (mo_instant now)\<rparr>))"

definition no_accepting :: "string \<Rightarrow> task_pc" where
  "no_accepting sid = TaskDone (Inl (''no accepting control for data connection session_id='' @ sid))"

text \<open>\<open>register_data_conn\<close> and the \<open>lookup_accepting\<close> it waits in. A data connection is its task.\<close>

definition register_data_conn_begin :: "server_env \<Rightarrow> NewDataConn \<Rightarrow> moment \<Rightarrow> Server \<Rightarrow> Server" where
  "register_data_conn_begin env nw now s =
     (let sid = ndc_session_id nw
      in spawn
        (if trim sid = [] then TaskDone (Inl ''empty session_id for data connection'')
         else (case fst (verify_auth_digest (env_crypto env) (ac_token (sc_auth (env_cfg env))) (ndc_auth_digest nw)
                      (ndc_timestamp nw) (unix_now_secs (ck_time (mo_clock now) * 1000000000)) None (mo_instant now)) of
                 Inl _ \<Rightarrow> TaskDone (Inl (''data connection authentication failed for session_id='' @ sid))
               | Inr _ \<Rightarrow>
                   (case srv_controls s sid of
                      Some e \<Rightarrow> DataWait sid (se_gate e) (se_control e)
                    | None \<Rightarrow> no_accepting sid))) s)"

definition lookup_accepting :: "nat \<Rightarrow> string \<Rightarrow> nat \<Rightarrow> nat \<Rightarrow> Server \<Rightarrow> Server" where
  "lookup_accepting t sid g a s =
     (if g \<in> srv_held s then s
      else if current s sid a \<and> is_accepting_data (ctl s a) then goto t (Pushing a) s
      else goto t (no_accepting sid) s)"

text \<open>The channel of a session holds 64 connections; a sender waits while it is full.\<close>

definition push_data_conn :: "nat \<Rightarrow> nat \<Rightarrow> Server \<Rightarrow> Server" where
  "push_data_conn t a s =
     (if 64 \<le> length (srv_data s a) then s
      else goto t (TaskDone (Inr ())) (s\<lparr>srv_data := (srv_data s)(a := srv_data s a @ [t])\<rparr>))"

definition spawn_refill :: "nat \<Rightarrow> Server \<Rightarrow> Server" where
  "spawn_refill a s = (if co_closed (ctl s a) \<or> co_cleaning (ctl s a) then s else spawn (Refill a) s)"

definition give_data_conn :: "nat \<Rightarrow> nat \<Rightarrow> nat \<Rightarrow> nat list \<Rightarrow> Server \<Rightarrow> Server" where
  "give_data_conn t a conn rest s =
     spawn_refill a (goto t (TaskDone (Inr ()))
       (s\<lparr>srv_data := (srv_data s)(a := rest), srv_given := srv_given s @ [(t, conn)]\<rparr>))"

text \<open>\<open>get_data_conn\<close>: the first look and the request, then a round of its loop.\<close>

definition get_data_conn :: "server_env \<Rightarrow> nat \<Rightarrow> nat \<Rightarrow> moment \<Rightarrow> Server \<Rightarrow> Server" where
  "get_data_conn env t a now s =
     (case srv_data s a of
        conn # rest \<Rightarrow> give_data_conn t a conn rest s
      | [] \<Rightarrow>
          (case request_data_conn (ctl s a) of
             (Inl e, c) \<Rightarrow> goto t (TaskDone (Inl (env_to_string env e))) (set_ctl a c s)
           | (Inr _, c) \<Rightarrow> goto t (AwaitData a (int (mo_instant now) + int (from_secs 10))) (set_ctl a c s)))"

definition await_data_conn :: "nat \<Rightarrow> nat \<Rightarrow> int \<Rightarrow> moment \<Rightarrow> Server \<Rightarrow> Server" where
  "await_data_conn t a deadline now s =
     (if co_closed (ctl s a) then goto t (TaskDone (Inl ''control closed while waiting for data connection'')) s
      else (case srv_data s a of
              conn # rest \<Rightarrow> give_data_conn t a conn rest s
            | [] \<Rightarrow>
                if deadline \<le> int (mo_instant now)
                then goto t (TaskDone (Inl ''timeout waiting for data connection'')) s
                else s))"

definition refill :: "nat \<Rightarrow> nat \<Rightarrow> Server \<Rightarrow> Server" where
  "refill t a s =
     goto t (TaskDone (Inr ()))
       (if co_closed (ctl s a) then s else set_ctl a (snd (request_data_conn (ctl s a))) s)"

section \<open>The steps of the server\<close>

fun task_step :: "server_env \<Rightarrow> nat \<Rightarrow> task_pc \<Rightarrow> moment \<Rightarrow> Server \<Rightarrow> Server" where
  "task_step env t Peeking now s = swap_in_peek t s"
| "task_step env t (GateWait g) now s = swap_in t g s"
| "task_step env t (Replacing g previous) now s = replace_previous t g previous now s"
| "task_step env t (Onlining g) now s = go_online t g now s"
| "task_step env t (Greeting g) now s = greet env t g now s"
| "task_step env t Starting now s = start_run env t s"
| "task_step env t (Serving pc) now s =
     (if is_idle pc then s
      else registered_step env t
             (reg_continue (env_to_string env) (env_bind env) (mo_clock now) (pc, ctl s t, srv_shared s)) s)"
| "task_step env t (Received m) now s = handle_received env t m now s"
| "task_step env t (Ending result) now s = goto t (Closing (tunnel_count (ctl s t)) result) s"
| "task_step env t (Closing n result) now s = goto t (RemovePeek (ReleaseAgent n result)) (shutdown_ctl t now s)"
| "task_step env t (RemovePeek k) now s = remove_peek env t k now s"
| "task_step env t (RemoveWait g k) now s = remove_if_current env t g k now s"
| "task_step env t (KickWait sid g a) now s = kick_locked t sid g a s"
| "task_step env t (Kicking sid g a) now s = kick_session t sid g a now s"
| "task_step env t (KickRemove sid g a n) now s = kick_remove t sid g a n now s"
| "task_step env t (DataWait sid g a) now s = lookup_accepting t sid g a s"
| "task_step env t (Pushing a) now s = push_data_conn t a s"
| "task_step env t (Popping a) now s = get_data_conn env t a now s"
| "task_step env t (AwaitData a deadline) now s = await_data_conn t a deadline now s"
| "task_step env t (Refill a) now s = refill t a s"
| "task_step env t (TaskDone result) now s = s"

text \<open>What can happen: a login, a kick, a data connection or a user arrives, a task goes on, a session
  reads a message or the end of its stream, its heartbeat is checked, its peer stops reading.\<close>

datatype server_event =
    LoginArrives Login string string
  | KickArrives string
  | DataArrives NewDataConn
  | UserArrives nat
  | Wakes nat
  | Reads nat Message
  | ReadEnds nat
  | HeartbeatCheck nat
  | WriterBreaks nat

fun server_step :: "server_env \<Rightarrow> server_event \<times> moment \<Rightarrow> Server \<Rightarrow> Server" where
  "server_step env (LoginArrives login ip short, now) s = register_control_begin env login ip short now s"
| "server_step env (KickArrives sid, now) s = kick_client_begin sid s"
| "server_step env (DataArrives nw, now) s = register_data_conn_begin env nw now s"
| "server_step env (UserArrives a, now) s = (if srv_heap s a = None then s else spawn (Popping a) s)"
| "server_step env (Wakes t, now) s =
     (case srv_tasks s t of Some pc \<Rightarrow> task_step env t pc now s | None \<Rightarrow> s)"
| "server_step env (Reads t m, now) s = receive t m s"
| "server_step env (ReadEnds t, now) s = run_ends t s"
| "server_step env (HeartbeatCheck a, now) s =
     (case srv_heap s a of
        Some c \<Rightarrow> if heartbeat_expired (mo_clock now) c then set_ctl a (signal_close c) s else s
      | None \<Rightarrow> s)"
| "server_step env (WriterBreaks a, now) s =
     (case srv_heap s a of Some c \<Rightarrow> set_ctl a (c\<lparr>co_writer_open := False\<rparr>) s | None \<Rightarrow> s)"

definition serve :: "server_env \<Rightarrow> clock \<Rightarrow> (server_event \<times> moment) list \<Rightarrow> Server" where
  "serve env now events = fold (server_step env) events (Service_new (env_cfg env) now)"

end
