(* ===== verification/Session_Table.thy ===== *)
theory Session_Table
  imports Session_Service
begin

text \<open>
  The invariant of the session table: which session an entry points to, who holds a gate, which
  sessions accept data. Every step of the server keeps it, whatever the order in which the tasks go on.
\<close>

section \<open>The invariant\<close>

text \<open>What a step may change of a session: not its identity, it is never reopened, and only the answer to
  the login activates it.\<close>

definition evolves :: "Control \<Rightarrow> Control \<Rightarrow> bool" where
  "evolves c c' \<longleftrightarrow> co_session_id c' = co_session_id c \<and> co_activated c' = co_activated c \<and> (co_closed c \<longrightarrow> co_closed c')"

lemma evolves_refl [simp]: "evolves c c"
  by (simp add: evolves_def)

lemma frame_evolves: "frame c sh c' sh' \<Longrightarrow> evolves c c'"
  by (simp add: frame_def evolves_def owner_def)

lemma ctl_write_evolves [simp]: "evolves c (snd (ctl_write m c))" "evolves c c' \<Longrightarrow> evolves c (snd (ctl_write m c'))"
  by (simp_all add: evolves_def ctl_write_def)

lemma request_evolves: "request_data_conn c = (r, c') \<Longrightarrow> evolves c c'"
  by (auto simp: request_data_conn_def ctl_write_def evolves_def split: if_splits)

lemma request_pool_evolves: "request_pool n c = (r, c') \<Longrightarrow> evolves c c'"
proof (induction n c arbitrary: r c' rule: request_pool.induct)
  case (2 n c)
  then show ?case
    by (auto split: if_splits prod.splits sum.splits dest!: request_evolves) (auto simp: evolves_def)
qed simp

lemma close_tunnel_evolves: "handle_close_tunnel cp now c sh = (c', sh') \<Longrightarrow> evolves c c'"
  by (auto simp: handle_close_tunnel_def split: prod.splits option.splits dest!: detach_frame frame_evolves)

lemma ping_evolves: "handle_ping now c = (r, c') \<Longrightarrow> evolves c c'"
  by (auto simp: handle_ping_def ctl_write_def evolves_def split: if_splits)

lemma shutdown_evolves: "shutdown now c sh = (c', sh') \<Longrightarrow> evolves c c' \<and> co_closed c'"
  by (auto simp: shutdown_def signal_close_def evolves_def Let_def split: if_splits prod.splits)

lemma kick_evolves: "kick reason now c sh = (c', sh') \<Longrightarrow> evolves c c' \<and> co_closed c'"
  by (auto simp: kick_def Let_def signal_close_def ctl_write_def evolves_def split: if_splits dest!: shutdown_evolves)

text \<open>A task is in the table's hands once it has passed the gate; some tasks hold a gate.\<close>

fun entered_pc :: "task_pc \<Rightarrow> bool" where
  "entered_pc Peeking = False"
| "entered_pc (GateWait g) = False"
| "entered_pc pc = True"

fun gate_of :: "task_pc \<Rightarrow> nat option" where
  "gate_of (Replacing g p) = Some g"
| "gate_of (Onlining g) = Some g"
| "gate_of (Greeting g) = Some g"
| "gate_of (Kicking sid g a) = Some g"
| "gate_of (KickRemove sid g a n) = Some g"
| "gate_of pc = None"

definition entered :: "Server \<Rightarrow> nat \<Rightarrow> bool" where
  "entered s a \<longleftrightarrow> (case srv_tasks s a of Some pc \<Rightarrow> entered_pc pc | None \<Rightarrow> False)"

definition accepting :: "Server \<Rightarrow> nat \<Rightarrow> bool" where
  "accepting s a \<longleftrightarrow> (case srv_heap s a of Some c \<Rightarrow> is_accepting_data c | None \<Rightarrow> False)"

definition has_id :: "Server \<Rightarrow> nat \<Rightarrow> string \<Rightarrow> bool" where
  "has_id s a sid \<longleftrightarrow> (\<exists>c. srv_heap s a = Some c \<and> co_session_id c = sid)"

definition inactive :: "Server \<Rightarrow> nat \<Rightarrow> bool" where
  "inactive s a \<longleftrightarrow> (\<exists>c. srv_heap s a = Some c \<and> \<not> co_activated c)"

definition in_table :: "Server \<Rightarrow> nat \<Rightarrow> nat \<Rightarrow> bool" where
  "in_table s a g \<longleftrightarrow> g \<in> srv_held s \<and>
     (\<exists>c. srv_heap s a = Some c \<and> srv_controls s (co_session_id c) = Some \<lparr>se_control = a, se_gate = g\<rparr>)"

text \<open>The gate a task waits for is that of the entry it looked at.\<close>

definition saw_gate :: "Server \<Rightarrow> string \<Rightarrow> nat \<Rightarrow> nat \<Rightarrow> bool" where
  "saw_gate s sid g a \<longleftrightarrow>
     has_id s a sid \<and> entered s a \<and> (\<forall>e. srv_controls s sid = Some e \<and> se_control e = a \<longrightarrow> se_gate e = g)"

fun task_ok :: "Server \<Rightarrow> nat \<Rightarrow> task_pc \<Rightarrow> bool" where
  "task_ok s t Peeking = inactive s t"
| "task_ok s t (GateWait g) = inactive s t"
| "task_ok s t (Replacing g p) =
     (inactive s t \<and> in_table s t g \<and> (\<forall>q. p = Some q \<longrightarrow> has_id s q (co_session_id (ctl s t))))"
| "task_ok s t (Onlining g) = (inactive s t \<and> in_table s t g)"
| "task_ok s t (Greeting g) = (inactive s t \<and> in_table s t g)"
| "task_ok s t (RemovePeek k) = (srv_heap s t \<noteq> None \<and> \<not> accepting s t)"
| "task_ok s t (RemoveWait g k) =
     (saw_gate s (co_session_id (ctl s t)) g t \<and> \<not> accepting s t)"
| "task_ok s t (KickWait sid g a) = saw_gate s sid g a"
| "task_ok s t (Kicking sid g a) = (has_id s a sid \<and> entered s a \<and> in_table s a g)"
| "task_ok s t (KickRemove sid g a n) = (has_id s a sid \<and> entered s a \<and> in_table s a g \<and> \<not> accepting s a)"
| "task_ok s t (DataWait sid g a) = saw_gate s sid g a"
| "task_ok s t (Pushing a) = (srv_heap s a \<noteq> None)"
| "task_ok s t (Popping a) = (srv_heap s a \<noteq> None)"
| "task_ok s t (AwaitData a d) = (srv_heap s a \<noteq> None)"
| "task_ok s t (Refill a) = (srv_heap s a \<noteq> None)"
| "task_ok s t (TaskDone r) = True"
| "task_ok s t pc = (srv_heap s t \<noteq> None)"

definition replaced :: "Server \<Rightarrow> nat \<Rightarrow> bool" where
  "replaced s a \<longleftrightarrow> (\<exists>t g. srv_tasks s t = Some (Replacing g (Some a)))"

definition srv_ok :: "Server \<Rightarrow> bool" where
  "srv_ok s \<longleftrightarrow>
     (\<forall>a. srv_heap s a \<noteq> None \<or> srv_tasks s a \<noteq> None \<longrightarrow> a < srv_next s) \<and>
     (\<forall>sid e. srv_controls s sid = Some e \<longrightarrow> has_id s (se_control e) sid \<and> entered s (se_control e)) \<and>
     (\<forall>t pc. srv_tasks s t = Some pc \<longrightarrow> task_ok s t pc) \<and>
     (\<forall>t u g pc pc'. srv_tasks s t = Some pc \<and> gate_of pc = Some g \<and> srv_tasks s u = Some pc' \<and> gate_of pc' = Some g \<longrightarrow> t = u) \<and>
     (\<forall>a. accepting s a \<longrightarrow> current s (co_session_id (ctl s a)) a \<or> replaced s a)"

lemma srv_okI:
  assumes "\<And>a. srv_heap s a \<noteq> None \<or> srv_tasks s a \<noteq> None \<Longrightarrow> a < srv_next s"
    and "\<And>sid e. srv_controls s sid = Some e \<Longrightarrow> has_id s (se_control e) sid \<and> entered s (se_control e)"
    and "\<And>t pc. srv_tasks s t = Some pc \<Longrightarrow> task_ok s t pc"
    and "\<And>t u g pc pc'. srv_tasks s t = Some pc \<Longrightarrow> gate_of pc = Some g \<Longrightarrow> srv_tasks s u = Some pc' \<Longrightarrow>
           gate_of pc' = Some g \<Longrightarrow> t = u"
    and "\<And>a. accepting s a \<Longrightarrow> current s (co_session_id (ctl s a)) a \<or> replaced s a"
  shows "srv_ok s"
  using assms unfolding srv_ok_def by blast

lemma srv_ok_task: "srv_ok s \<Longrightarrow> srv_tasks s t = Some pc \<Longrightarrow> task_ok s t pc"
  unfolding srv_ok_def by blast

lemma srv_ok_entry: "srv_ok s \<Longrightarrow> srv_controls s sid = Some e \<Longrightarrow> has_id s (se_control e) sid \<and> entered s (se_control e)"
  unfolding srv_ok_def by blast

lemma srv_ok_gate:
  "srv_ok s \<Longrightarrow> srv_tasks s t = Some pc \<Longrightarrow> gate_of pc = Some g \<Longrightarrow> srv_tasks s u = Some pc' \<Longrightarrow> gate_of pc' = Some g \<Longrightarrow> t = u"
  unfolding srv_ok_def by blast

lemma srv_ok_accepting: "srv_ok s \<Longrightarrow> accepting s a \<Longrightarrow> current s (co_session_id (ctl s a)) a \<or> replaced s a"
  unfolding srv_ok_def by blast

lemma srv_ok_next: "srv_ok s \<Longrightarrow> srv_heap s a \<noteq> None \<or> srv_tasks s a \<noteq> None \<Longrightarrow> a < srv_next s"
  unfolding srv_ok_def by blast

lemma srv_ok_fresh: "srv_ok s \<Longrightarrow> srv_next s \<le> a \<Longrightarrow> srv_heap s a = None \<and> srv_tasks s a = None"
  unfolding srv_ok_def by (meson not_le option.exhaust)

lemma task_ok_held: "task_ok s t pc \<Longrightarrow> gate_of pc = Some g \<Longrightarrow> g \<in> srv_held s"
  by (cases pc) (auto simp: in_table_def)

text \<open>At most one session of an id accepts data.\<close>

lemma srv_ok_one_accepting:
  assumes ok: "srv_ok s" and a: "accepting s a" "has_id s a sid" and b: "accepting s b" "has_id s b sid"
  shows "a = b"
proof -
  have cid: "co_session_id (ctl s a) = sid" "co_session_id (ctl s b) = sid"
    using a(2) b(2) by (auto simp: has_id_def ctl_def)
  have rep: "\<exists>t g. srv_tasks s t = Some (Replacing g (Some x)) \<and> srv_controls s sid = Some \<lparr>se_control = t, se_gate = g\<rparr> \<and>
      \<not> accepting s t" if x: "replaced s x" "has_id s x sid" for x
  proof -
    obtain t g where t: "srv_tasks s t = Some (Replacing g (Some x))" using x(1) by (auto simp: replaced_def)
    then have "task_ok s t (Replacing g (Some x))" using ok by (blast dest: srv_ok_task)
    with t x(2) show ?thesis
      by (auto simp: in_table_def has_id_def inactive_def accepting_def is_accepting_data_def ctl_def)
  qed
  consider "current s sid a" "current s sid b" | "replaced s a" "current s sid b" | "current s sid a" "replaced s b"
    | "replaced s a" "replaced s b"
    using srv_ok_accepting [OF ok a(1)] srv_ok_accepting [OF ok b(1)] cid by metis
  then show ?thesis
  proof cases
    case 4
    then show ?thesis using rep [OF _ a(2)] rep [OF _ b(2)] by fastforce
  qed (use rep [OF _ a(2)] rep [OF _ b(2)] a b in \<open>fastforce simp: current_def split: option.splits\<close>)+
qed

lemma srv_ok_held: "srv_ok s \<Longrightarrow> srv_tasks s t = Some pc \<Longrightarrow> gate_of pc = Some g \<Longrightarrow> g \<in> srv_held s"
  using srv_ok_task task_ok_held by blast

lemma srv_ok_cong:
  assumes "srv_controls s' = srv_controls s" "srv_heap s' = srv_heap s" "srv_held s' = srv_held s"
    "srv_tasks s' = srv_tasks s" "srv_next s \<le> srv_next s'" and ok: "srv_ok s"
  shows "srv_ok s'"
proof -
  have same: "has_id s' = has_id s" "ctl s' = ctl s" "inactive s' = inactive s" "accepting s' = accepting s"
    "entered s' = entered s" "replaced s' = replaced s" "current s' = current s" "in_table s' = in_table s"
    using assms by (auto simp: has_id_def ctl_def inactive_def accepting_def entered_def replaced_def current_def
        in_table_def fun_eq_iff)
  have task: "task_ok s' t pc = task_ok s t pc" for t pc
    using assms by (cases pc) (simp_all add: same saw_gate_def)
  show ?thesis
  proof (rule srv_okI)
    show "a < srv_next s'" if "srv_heap s' a \<noteq> None \<or> srv_tasks s' a \<noteq> None" for a
      using srv_ok_next [OF ok, of a] that assms(2,4,5) by simp
    show "t = u" if "srv_tasks s' t = Some pc" "gate_of pc = Some g" "srv_tasks s' u = Some pc'" "gate_of pc' = Some g"
      for t u g pc pc'
      using srv_ok_gate [OF ok _ that(2) _ that(4)] that(1,3) assms(4) by simp
    show "task_ok s' t pc" if "srv_tasks s' t = Some pc" for t pc
      using srv_ok_task [OF ok] that by (simp add: task assms(4))
  qed (use srv_ok_entry [OF ok] srv_ok_accepting [OF ok] in \<open>simp_all add: same assms(1)\<close>)
qed

lemma srv_ok_upd [simp]:
  "srv_ok s \<Longrightarrow> srv_ok (s\<lparr>srv_agents := r\<rparr>)" "srv_ok s \<Longrightarrow> srv_ok (s\<lparr>srv_replay := p\<rparr>)"
  "srv_ok s \<Longrightarrow> srv_ok (s\<lparr>srv_shared := sh\<rparr>)" "srv_ok s \<Longrightarrow> srv_ok (s\<lparr>srv_next_generation := n\<rparr>)"
  "srv_ok s \<Longrightarrow> srv_ok (s\<lparr>srv_data := d\<rparr>)" "srv_ok s \<Longrightarrow> srv_ok (s\<lparr>srv_given := l\<rparr>)"
  "srv_ok s \<Longrightarrow> srv_ok (s\<lparr>srv_refused := ms\<rparr>)" "srv_ok s \<Longrightarrow> srv_ok (s\<lparr>srv_next := Suc (srv_next s)\<rparr>)"
  by (rule srv_ok_cong [rotated -1], assumption, simp_all)+

text \<open>The elementary changes that keep the invariant: a session goes on, a task goes on, a task starts, a gate is
  given back, an entry is taken out.\<close>

lemma set_ctl_ok:
  assumes ok: "srv_ok s" and c: "srv_heap s a = Some c" "evolves c c'"
  shows "srv_ok (set_ctl a c' s)"
proof -
  let ?s = "set_ctl a c' s"
  have heap: "srv_heap ?s = (srv_heap s)(a \<mapsto> c')" and rest: "srv_controls ?s = srv_controls s"
    "srv_held ?s = srv_held s" "srv_tasks ?s = srv_tasks s" "srv_next ?s = srv_next s"
    by (simp_all add: set_ctl_def)
  have id: "has_id ?s = has_id s" using c by (auto simp: has_id_def heap evolves_def fun_eq_iff)
  have en: "entered ?s = entered s" by (auto simp: entered_def rest fun_eq_iff)
  have cid: "co_session_id (ctl ?s b) = co_session_id (ctl s b)" for b
    using c by (simp add: ctl_def heap evolves_def)
  have ina: "inactive ?s = inactive s" using c by (auto simp: inactive_def heap evolves_def fun_eq_iff)
  have tab: "in_table ?s = in_table s" using c by (auto simp: in_table_def heap rest evolves_def fun_eq_iff)
  have acc: "accepting ?s b \<Longrightarrow> accepting s b" for b
    using c by (auto simp: accepting_def is_accepting_data_def is_closed_def heap evolves_def split: if_splits)
  have task: "task_ok s t pc \<Longrightarrow> task_ok ?s t pc" for t pc
    using acc c by (cases pc) (auto simp: id en cid ina tab saw_gate_def rest heap split: if_splits)
  show ?thesis
    using ok task acc c unfolding srv_ok_def
    by (auto simp: id en cid rest heap current_def replaced_def split: if_splits)
qed


lemma goto_ok:
  assumes ok: "srv_ok s" and t: "t < srv_next s" and en: "entered s t \<Longrightarrow> entered_pc pc'"
    and gate: "gate_of pc' \<noteq> None \<Longrightarrow> \<exists>pc. srv_tasks s t = Some pc \<and> gate_of pc' = gate_of pc"
    and rep: "\<And>g p. srv_tasks s t = Some (Replacing g (Some p)) \<Longrightarrow> \<not> accepting s p"
    and new: "task_ok (goto t pc' s) t pc'"
  shows "srv_ok (goto t pc' s)"
proof -
  let ?s = "goto t pc' s"
  have rest: "srv_controls ?s = srv_controls s" "srv_held ?s = srv_held s" "srv_heap ?s = srv_heap s" "srv_next ?s = srv_next s"
    "srv_tasks ?s = (srv_tasks s)(t \<mapsto> pc')"
    by (simp_all add: goto_def)
  have same: "has_id ?s = has_id s" "ctl ?s = ctl s" "inactive ?s = inactive s" "in_table ?s = in_table s" "accepting ?s = accepting s"
    by (auto simp: has_id_def ctl_def inactive_def in_table_def accepting_def rest fun_eq_iff)
  have ent: "entered s a \<Longrightarrow> entered ?s a" for a using en by (auto simp: entered_def rest)
  have task: "task_ok s u p \<Longrightarrow> task_ok ?s u p" for u p
    using ent by (cases p) (auto simp: same saw_gate_def rest)
  have repl: "replaced ?s a" if a: "replaced s a" "accepting s a" for a
  proof -
    obtain u g where u: "srv_tasks s u = Some (Replacing g (Some a))" using a(1) by (auto simp: replaced_def)
    then have "u \<noteq> t" using rep a(2) by blast
    with u show ?thesis by (auto simp: replaced_def rest)
  qed
  have gates: "u = v" if "srv_tasks ?s u = Some p" "gate_of p = Some g" "srv_tasks ?s v = Some q" "gate_of q = Some g" for u v p q g
  proof -
    have "\<exists>p0. srv_tasks s x = Some p0 \<and> gate_of p0 = Some g" if "srv_tasks ?s x = Some p" "gate_of p = Some g" for x p
      using that gate by (auto simp: rest split: if_splits)
    with that show ?thesis using srv_ok_gate [OF ok] by blast
  qed
  have fresh: "a < srv_next s" if "srv_heap s a \<noteq> None \<or> srv_tasks ?s a \<noteq> None" for a
    using that t srv_ok_fresh [OF ok, of a] by (auto simp: rest split: if_splits) (meson not_le)+
  show ?thesis
  proof (rule srv_okI)
    show "task_ok ?s u p" if "srv_tasks ?s u = Some p" for u p
      using that new task srv_ok_task [OF ok] by (auto simp: rest split: if_splits)
    show "current ?s (co_session_id (ctl ?s a)) a \<or> replaced ?s a" if "accepting ?s a" for a
      using that srv_ok_accepting [OF ok] repl by (auto simp: same current_def rest)
    show "u = v" if "srv_tasks ?s u = Some p" "gate_of p = Some g" "srv_tasks ?s v = Some q" "gate_of q = Some g" for u v g p q
      by (rule gates [OF that])
  qed (use fresh srv_ok_entry [OF ok] ent in \<open>auto simp: rest same\<close>)
qed

lemma spawn_ok:
  assumes ok: "srv_ok s" and gate: "gate_of pc = None" and new: "task_ok (spawn pc s) (srv_next s) pc"
  shows "srv_ok (spawn pc s)"
proof -
  have eq: "spawn pc s = goto (srv_next s) pc (s\<lparr>srv_next := Suc (srv_next s)\<rparr>)"
    by (simp add: spawn_def goto_def)
  have none: "srv_tasks s (srv_next s) = None" using srv_ok_fresh [OF ok] by simp
  show ?thesis
    using gate new none srv_ok_upd(8) [OF ok] unfolding eq by (intro goto_ok) (auto simp: entered_def)
qed

lemma unlock_ok:
  assumes ok: "srv_ok s" and free: "\<And>t pc. srv_tasks s t = Some pc \<Longrightarrow> gate_of pc \<noteq> Some g"
  shows "srv_ok (unlock g s)"
proof -
  let ?s = "unlock g s"
  have rest: "srv_controls ?s = srv_controls s" "srv_held ?s = srv_held s - {g}" "srv_heap ?s = srv_heap s" "srv_next ?s = srv_next s"
    "srv_tasks ?s = srv_tasks s"
    by (simp_all add: unlock_def)
  have same: "has_id ?s = has_id s" "ctl ?s = ctl s" "inactive ?s = inactive s" "accepting ?s = accepting s" "entered ?s = entered s"
    "replaced ?s = replaced s"
    by (auto simp: has_id_def ctl_def inactive_def accepting_def entered_def replaced_def rest fun_eq_iff)
  have task: "task_ok ?s u p" if "task_ok s u p" "gate_of p \<noteq> Some g" for u p
    using that by (cases p) (auto simp: same saw_gate_def in_table_def rest)
  show ?thesis
    using ok free task unfolding srv_ok_def by (simp add: rest same current_def)
qed

lemma remove_entry_ok:
  assumes ok: "srv_ok s" and e: "srv_controls s sid = Some e" and idle: "\<not> accepting s (se_control e)"
    and free: "\<And>t pc. srv_tasks s t = Some pc \<Longrightarrow> gate_of pc \<noteq> Some (se_gate e)"
  shows "srv_ok (s\<lparr>srv_controls := (srv_controls s)(sid := None)\<rparr>)"
proof -
  let ?s = "s\<lparr>srv_controls := (srv_controls s)(sid := None)\<rparr>"
  have same: "has_id ?s = has_id s" "ctl ?s = ctl s" "inactive ?s = inactive s" "accepting ?s = accepting s" "entered ?s = entered s"
    "replaced ?s = replaced s"
    by (auto simp: has_id_def ctl_def inactive_def accepting_def entered_def replaced_def fun_eq_iff)
  have tab: "in_table ?s a g" if tab: "in_table s a g" "g \<noteq> se_gate e" for a g
  proof -
    obtain c where c: "g \<in> srv_held s" "srv_heap s a = Some c"
      "srv_controls s (co_session_id c) = Some \<lparr>se_control = a, se_gate = g\<rparr>"
      using tab(1) by (auto simp: in_table_def)
    moreover have "co_session_id c \<noteq> sid" using e c(3) tab(2) by auto
    ultimately show ?thesis by (auto simp: in_table_def)
  qed
  have task: "task_ok ?s u p" if "task_ok s u p" "gate_of p \<noteq> Some (se_gate e)" for u p
    using that tab by (cases p) (auto simp: same saw_gate_def)
  have acc: "current ?s (co_session_id (ctl s a)) a \<or> replaced s a" if "accepting s a" for a
    using srv_ok_accepting [OF ok that] that idle e by (auto simp: current_def)
  show ?thesis
    using ok free task acc unfolding srv_ok_def by (simp add: same)
qed


lemma free_gate: "srv_ok s \<Longrightarrow> g \<notin> srv_held s \<Longrightarrow> srv_tasks s t = Some pc \<Longrightarrow> gate_of pc \<noteq> Some g"
  using srv_ok_held by blast

text \<open>A login takes the place of an entry whose gate is free, or a free place.\<close>

lemma swap_in_ok:
  assumes ok: "srv_ok s" and t: "srv_tasks s t = Some (GateWait g)" and g: "g \<notin> srv_held s"
    and c: "srv_heap s t = Some c" and prev: "srv_controls s (co_session_id c) = prev"
    "prev = None \<or> (\<exists>e. prev = Some e \<and> se_gate e = g)"
  shows "srv_ok (goto t (Replacing g (map_option se_control prev))
    (lock g (s\<lparr>srv_controls := (srv_controls s)(co_session_id c \<mapsto> \<lparr>se_control = t, se_gate = g\<rparr>)\<rparr>)))" (is "srv_ok ?s")
proof (rule srv_okI)
  have rest: "srv_controls ?s = (srv_controls s)(co_session_id c \<mapsto> \<lparr>se_control = t, se_gate = g\<rparr>)"
    "srv_held ?s = insert g (srv_held s)" "srv_heap ?s = srv_heap s" "srv_next ?s = srv_next s"
    "srv_tasks ?s = (srv_tasks s)(t \<mapsto> Replacing g (map_option se_control prev))"
    by (simp_all add: goto_def lock_def)
  have same: "has_id ?s = has_id s" "ctl ?s = ctl s" "inactive ?s = inactive s" "accepting ?s = accepting s"
    by (auto simp: has_id_def ctl_def inactive_def accepting_def rest fun_eq_iff)
  have ina: "inactive s t" using srv_ok_task [OF ok t] by simp
  have ent: "entered s a \<Longrightarrow> entered ?s a" for a by (auto simp: entered_def rest)
  have ne: "\<not> entered s t" using t by (simp add: entered_def)
  have tab: "in_table ?s a h" if h: "in_table s a h" "h \<noteq> g" for a h
  proof -
    obtain d where d: "h \<in> srv_held s" "srv_heap s a = Some d"
      "srv_controls s (co_session_id d) = Some \<lparr>se_control = a, se_gate = h\<rparr>"
      using h(1) by (auto simp: in_table_def)
    moreover have "co_session_id d \<noteq> co_session_id c" using prev d(3) h(2) by auto
    ultimately show ?thesis by (auto simp: in_table_def rest)
  qed
  have saw: "saw_gate ?s sid h a" if "saw_gate s sid h a" for sid h a
    using that ne ent by (auto simp: saw_gate_def same rest)
  have task: "task_ok ?s u p" if "task_ok s u p" "gate_of p \<noteq> Some g" for u p
    using that tab saw ent by (cases p) (auto simp: same rest)
  have new: "task_ok ?s t (Replacing g (map_option se_control prev))"
    using ina c srv_ok_entry [OF ok] prev by (auto simp: same in_table_def rest ctl_def)
  show "a < srv_next ?s" if "srv_heap ?s a \<noteq> None \<or> srv_tasks ?s a \<noteq> None" for a
    using that t srv_ok_next [OF ok, of a] by (auto simp: rest split: if_splits)
  show "has_id ?s (se_control e) sid \<and> entered ?s (se_control e)" if "srv_controls ?s sid = Some e" for sid e
    using that srv_ok_entry [OF ok, of sid e] ent c by (auto simp: rest same has_id_def entered_def split: if_splits)
  show "task_ok ?s u p" if "srv_tasks ?s u = Some p" for u p
    using that new task srv_ok_task [OF ok] free_gate [OF ok g] by (auto simp: rest split: if_splits)
  show "u = v" if "srv_tasks ?s u = Some p" "gate_of p = Some h" "srv_tasks ?s v = Some q" "gate_of q = Some h" for u v h p q
    using that srv_ok_gate [OF ok, of u p h v q] free_gate [OF ok g] by (auto simp: rest split: if_splits)
  show "current ?s (co_session_id (ctl ?s a)) a \<or> replaced ?s a" if acc: "accepting ?s a" for a
  proof -
    have "replaced ?s a" if "srv_tasks s u = Some (Replacing h (Some a))" for u h
      using that t unfolding replaced_def by (intro exI [of _ u] exI [of _ h]) (auto simp: rest)
    then have "replaced s a \<Longrightarrow> replaced ?s a" by (auto simp: replaced_def [of s])
    moreover have "current ?s (co_session_id (ctl s a)) a \<or> replaced ?s a" if "current s (co_session_id (ctl s a)) a"
      using that prev by (auto simp: current_def replaced_def rest split: option.splits)
    ultimately show ?thesis using srv_ok_accepting [OF ok, of a] acc by (auto simp: same)
  qed
qed

text \<open>The answer to the login activates the session that holds its entry.\<close>

lemma activate_ok:
  assumes ok: "srv_ok s" and t: "srv_tasks s t = Some Starting" and c: "srv_heap s t = Some c"
    and cur: "current s (co_session_id c) t" and nokick: "\<And>u sid g n. srv_tasks s u \<noteq> Some (KickRemove sid g t n)" and c': "evolves (c\<lparr>co_activated := True\<rparr>) c'"
  shows "srv_ok (set_ctl t c' s)" (is "srv_ok ?s")
proof (rule srv_okI)
  have rest: "srv_controls ?s = srv_controls s" "srv_held ?s = srv_held s" "srv_tasks ?s = srv_tasks s" "srv_next ?s = srv_next s"
    "srv_heap ?s = (srv_heap s)(t \<mapsto> c')"
    by (simp_all add: set_ctl_def)
  have id: "has_id ?s = has_id s" using c c' by (auto simp: has_id_def rest evolves_def fun_eq_iff)
  have en: "entered ?s = entered s" by (auto simp: entered_def rest fun_eq_iff)
  have cid: "co_session_id (ctl ?s b) = co_session_id (ctl s b)" for b
    using c c' by (simp add: ctl_def rest evolves_def)
  have tab: "in_table ?s = in_table s" using c c' by (auto simp: in_table_def rest evolves_def fun_eq_iff)
  have other: "inactive ?s a = inactive s a" "accepting ?s a = accepting s a" if "a \<noteq> t" for a
    using that by (auto simp: inactive_def accepting_def rest)
  show "task_ok ?s u p" if u: "srv_tasks ?s u = Some p" for u p
  proof -
    have p: "task_ok s u p" using srv_ok_task [OF ok, of u p] u by (simp add: rest)
    have kr: "a \<noteq> t" if "p = KickRemove sid g a n" for sid g a n using nokick that u by (auto simp: rest)
    show ?thesis
      using p u t other kr by (cases "u = t"; cases p) (auto simp: id en cid tab saw_gate_def rest)
  qed
  show "a < srv_next ?s" if "srv_heap ?s a \<noteq> None \<or> srv_tasks ?s a \<noteq> None" for a
    using that c srv_ok_next [OF ok, of a] by (auto simp: rest split: if_splits)
  show "u = v" if "srv_tasks ?s u = Some p" "gate_of p = Some h" "srv_tasks ?s v = Some q" "gate_of q = Some h" for u v h p q
    using that srv_ok_gate [OF ok, of u p h v q] by (simp add: rest)
  show "has_id ?s (se_control e) sid \<and> entered ?s (se_control e)" if "srv_controls ?s sid = Some e" for sid e
    using that srv_ok_entry [OF ok, of sid e] by (simp add: id en rest)
  show "current ?s (co_session_id (ctl ?s a)) a \<or> replaced ?s a" if "accepting ?s a" for a
    using that srv_ok_accepting [OF ok, of a] cur c c' other(2) [of a]
    by (cases "a = t") (auto simp: cid current_def replaced_def ctl_def rest evolves_def)
qed

lemma cleared:
  assumes ok: "srv_ok s" and t: "srv_tasks s t = Some pc" "gate_of pc = Some g" and none: "gate_of pc' = None"
    and u: "srv_tasks (goto t pc' s) u = Some p"
  shows "gate_of p \<noteq> Some g"
  using srv_ok_gate [OF ok t, of u p] none u by (auto simp: goto_def split: if_splits)

lemma commute:
  "goto t pc (unlock g s) = unlock g (goto t pc s)" "goto t pc (set_ctl a c s) = set_ctl a c (goto t pc s)"
  "goto t pc (s\<lparr>srv_agents := r\<rparr>) = (goto t pc s)\<lparr>srv_agents := r\<rparr>"
  "goto t pc (s\<lparr>srv_shared := sh\<rparr>) = (goto t pc s)\<lparr>srv_shared := sh\<rparr>"
  "goto t pc (s\<lparr>srv_controls := m\<rparr>) = (goto t pc s)\<lparr>srv_controls := m\<rparr>"
  "set_ctl a c (unlock g s) = unlock g (set_ctl a c s)"
  "unlock g (s\<lparr>srv_agents := r\<rparr>) = (unlock g s)\<lparr>srv_agents := r\<rparr>"
  "unlock g (s\<lparr>srv_shared := sh\<rparr>) = (unlock g s)\<lparr>srv_shared := sh\<rparr>"
  by (simp_all add: goto_def unlock_def set_ctl_def)


section \<open>Every step keeps the invariant\<close>

lemma shutdown_ctl_ok:
  assumes ok: "srv_ok s" and a: "srv_heap s a \<noteq> None"
  shows "srv_ok (shutdown_ctl a now s)" "\<not> accepting (shutdown_ctl a now s) a"
    "srv_controls (shutdown_ctl a now s) = srv_controls s" "srv_held (shutdown_ctl a now s) = srv_held s"
    "srv_tasks (shutdown_ctl a now s) = srv_tasks s" "srv_next (shutdown_ctl a now s) = srv_next s"
    "\<And>b. srv_heap (shutdown_ctl a now s) b = None \<longleftrightarrow> srv_heap s b = None"
    "\<And>b. co_session_id (ctl (shutdown_ctl a now s) b) = co_session_id (ctl s b)"
    "\<And>b. b \<noteq> a \<Longrightarrow> srv_heap (shutdown_ctl a now s) b = srv_heap s b"
proof -
  obtain c where c: "srv_heap s a = Some c" using a by blast
  obtain c' sh where sd: "shutdown (mo_clock now) c (srv_shared s) = (c', sh)" by fastforce
  have eq: "shutdown_ctl a now s = (set_ctl a c' s)\<lparr>srv_shared := sh\<rparr>" using c sd by (simp add: shutdown_ctl_def ctl_def)
  have ev: "evolves c c'" "co_closed c'" using shutdown_evolves [OF sd] by auto
  show "srv_ok (shutdown_ctl a now s)" using set_ctl_ok [OF ok c ev(1)] by (simp add: eq)
  show "\<not> accepting (shutdown_ctl a now s) a"
    using ev by (simp add: eq accepting_def is_accepting_data_def is_closed_def set_ctl_def)
qed (use a in \<open>auto simp: shutdown_ctl_def set_ctl_def ctl_def evolves_def dest!: shutdown_evolves split: prod.splits\<close>)


text \<open>A task goes on to a place where it holds no gate.\<close>

fun replacing :: "task_pc \<Rightarrow> bool" where
  "replacing (Replacing g p) = True"
| "replacing pc = False"

lemma go_on:
  assumes "srv_ok s" and "srv_tasks s t = Some pc" and "\<not> replacing pc"
    and "entered_pc pc'" and "gate_of pc' = None" and "task_ok (goto t pc' s) t pc'"
  shows "srv_ok (goto t pc' s)"
  using assms srv_ok_next [OF assms(1), of t] by (intro goto_ok) auto

lemma go_on_ctl:
  assumes "srv_ok s" and "srv_tasks s t = Some pc" and "\<not> replacing pc"
    and "entered_pc pc'" and "gate_of pc' = None" and "srv_heap s a = Some c" and "evolves c c'"
    and "task_ok (goto t pc' (set_ctl a c' s)) t pc'"
  shows "srv_ok (goto t pc' (set_ctl a c' s))"
  using assms set_ctl_ok [OF assms(1,6,7)] by (intro go_on [of _ t pc]) (auto simp: set_ctl_def)

lemma after_removed_ok:
  assumes ok: "srv_ok s" and t: "srv_tasks s t = Some pc" "\<not> replacing pc" and heap: "srv_heap s t \<noteq> None"
  shows "srv_ok (after_removed env t removed k now s)"
proof (cases k)
  case (ReplyConflict err)
  obtain c where c: "srv_heap s t = Some c" using heap by blast
  let ?s = "set_ctl t (snd (send_login_err (env_version env) err c)) s"
  have s: "srv_ok ?s" by (rule set_ctl_ok [OF ok c]) (simp add: send_login_err_def)
  then have "srv_ok (shutdown_ctl t now ?s)" by (rule shutdown_ctl_ok) (simp add: set_ctl_def)
  with t c s have "srv_ok (goto t (TaskDone (Inl err)) (shutdown_ctl t now ?s))"
    by (intro go_on [of _ t pc]) (auto simp: shutdown_ctl_ok set_ctl_def)
  then show ?thesis by (simp add: after_removed_def ReplyConflict ctl_def c)
next
  case (DropSession err)
  with shutdown_ctl_ok [OF ok heap] t show ?thesis by (auto simp: after_removed_def intro!: go_on [of _ t pc])
next
  case (ReleaseAgent n r)
  then show ?thesis using ok t by (auto simp: after_removed_def Let_def intro!: go_on [of _ t pc])
qed

lemma remove_peek_ok:
  assumes ok: "srv_ok s" and t: "srv_tasks s t = Some (RemovePeek k)"
  shows "srv_ok (remove_peek env t k now s)"
proof -
  have heap: "srv_heap s t \<noteq> None" "\<not> accepting s t" using srv_ok_task [OF ok t] by auto
  show ?thesis
  proof (cases "current s (co_session_id (ctl s t)) t")
    case True
    then obtain e where e: "srv_controls s (co_session_id (ctl s t)) = Some e" "se_control e = t"
      by (auto simp: current_def split: option.splits)
    have "srv_ok (goto t (RemoveWait (se_gate e) k) s)"
      using ok t heap e by (intro go_on) (auto simp: goto_def saw_gate_def has_id_def entered_def accepting_def ctl_def)
    with True e show ?thesis by (simp add: remove_peek_def)
  qed (use after_removed_ok [OF ok t] heap in \<open>simp add: remove_peek_def\<close>)
qed

lemma remove_if_current_ok:
  assumes ok: "srv_ok s" and t: "srv_tasks s t = Some (RemoveWait g k)"
  shows "srv_ok (remove_if_current env t g k now s)"
proof -
  have saw: "saw_gate s (co_session_id (ctl s t)) g t" "\<not> accepting s t" using srv_ok_task [OF ok t] by auto
  then have heap: "srv_heap s t \<noteq> None" by (auto simp: saw_gate_def has_id_def)
  have "srv_ok (after_removed env t True k now (s\<lparr>srv_controls := (srv_controls s)(co_session_id (ctl s t) := None)\<rparr>))"
    if g: "g \<notin> srv_held s" "current s (co_session_id (ctl s t)) t"
  proof -
    obtain e where e: "srv_controls s (co_session_id (ctl s t)) = Some e" "se_control e = t" "se_gate e = g"
      using g(2) saw(1) by (auto simp: current_def saw_gate_def split: option.splits)
    have "srv_ok (s\<lparr>srv_controls := (srv_controls s)(co_session_id (ctl s t) := None)\<rparr>)"
      using remove_entry_ok [OF ok e(1)] saw(2) e free_gate [OF ok g(1)] by simp
    then show ?thesis using t heap by (intro after_removed_ok [of _ t "RemoveWait g k"]) auto
  qed
  then show ?thesis using ok after_removed_ok [OF ok t] heap by (auto simp: remove_if_current_def Let_def)
qed

lemma swap_in_peek_ok:
  assumes ok: "srv_ok s" and t: "srv_tasks s t = Some Peeking"
  shows "srv_ok (swap_in_peek t s)"
proof -
  have "srv_ok (goto t (GateWait g) s)" for g
    using srv_ok_task [OF ok t] t srv_ok_next [OF ok, of t] by (intro goto_ok [OF ok]) (auto simp: entered_def inactive_def goto_def)
  moreover have "(goto t (GateWait g) s)\<lparr>srv_next := Suc (srv_next s)\<rparr> =
      (goto t (GateWait g) s)\<lparr>srv_next := Suc (srv_next (goto t (GateWait g) s))\<rparr>" for g
    by (simp add: goto_def)
  ultimately show ?thesis
    unfolding swap_in_peek_def by (auto split: option.splits simp del: srv_ok_upd(8) intro: srv_ok_upd(8))
qed

lemma swap_in_step_ok:
  assumes ok: "srv_ok s" and t: "srv_tasks s t = Some (GateWait g)"
  shows "srv_ok (swap_in t g s)"
proof -
  obtain c where c: "srv_heap s t = Some c" using srv_ok_task [OF ok t] by (auto simp: inactive_def)
  have "srv_ok (goto t Peeking s)"
    using srv_ok_task [OF ok t] t srv_ok_next [OF ok, of t] by (intro goto_ok [OF ok]) (auto simp: entered_def inactive_def goto_def)
  with swap_in_ok [OF ok t _ c refl] ok c show ?thesis
    by (cases "srv_controls s (co_session_id c)") (auto simp: swap_in_def Let_def ctl_def)
qed


lemma replace_previous_ok:
  assumes ok: "srv_ok s" and t: "srv_tasks s t = Some (Replacing g p)"
  shows "srv_ok (replace_previous t g p now s)"
proof -
  let ?s = "case p of Some old \<Rightarrow> shutdown_ctl old now s | None \<Rightarrow> s"
  have p: "inactive s t" "in_table s t g" "\<And>q. p = Some q \<Longrightarrow> srv_heap s q \<noteq> None"
    using srv_ok_task [OF ok t] by (auto simp: has_id_def)
  have s: "srv_ok ?s" "srv_tasks ?s = srv_tasks s" "srv_next ?s = srv_next s" "p = Some q \<Longrightarrow> \<not> accepting ?s q" for q
    using shutdown_ctl_ok [OF ok p(3)] ok by (auto split: option.splits)
  have "inactive ?s t" "in_table ?s t g" using srv_ok_task [OF s(1), of t "Replacing g p"] s(2) t by auto
  then have "task_ok (goto t (Onlining g) ?s) t (Onlining g)" by (auto simp: inactive_def in_table_def goto_def)
  with s t srv_ok_next [OF ok, of t] show ?thesis
    unfolding replace_previous_def by (intro goto_ok) auto
qed

text \<open>A holder leaves its gate.\<close>

lemma leave_gate_ok:
  assumes ok: "srv_ok (goto t pc' s)" and s: "srv_ok s" "srv_tasks s t = Some pc" "gate_of pc = Some g" "gate_of pc' = None"
  shows "srv_ok (unlock g (goto t pc' s))"
  using ok cleared [OF s] by (rule unlock_ok)

lemma go_online_ok:
  assumes ok: "srv_ok s" and t: "srv_tasks s t = Some (Onlining g)"
  shows "srv_ok (go_online t g now s)"
proof -
  have p: "inactive s t" "in_table s t g" using srv_ok_task [OF ok t] by auto
  have "srv_ok (goto t (Greeting g) s)"
    using p t srv_ok_next [OF ok, of t] by (intro goto_ok [OF ok]) (auto simp: inactive_def in_table_def goto_def)
  moreover have "srv_ok (goto t (RemovePeek k) s)" for k
    using p t by (intro go_on [OF ok]) (auto simp: inactive_def accepting_def is_accepting_data_def goto_def)
  then have "srv_ok (unlock g (goto t (RemovePeek k) s))" for k using leave_gate_ok ok t by auto
  ultimately show ?thesis
    unfolding go_online_def by (auto simp: commute split: prod.splits sum.splits AgentRegisterError.splits)
qed

lemma greet_ok:
  assumes ok: "srv_ok s" and t: "srv_tasks s t = Some (Greeting g)"
  shows "srv_ok (greet env t g now s)"
proof -
  obtain c where c: "srv_heap s t = Some c" "\<not> co_activated c" "g \<in> srv_held s"
    "srv_controls s (co_session_id c) = Some \<lparr>se_control = t, se_gate = g\<rparr>"
    using srv_ok_task [OF ok t] by (auto simp: inactive_def in_table_def)
  obtain r c' where w: "send_login_ok (env_version env) c = (r, c')" by fastforce
  have nokick: "srv_tasks s u \<noteq> Some (KickRemove sid h t n)" for u sid h n
  proof
    assume u: "srv_tasks s u = Some (KickRemove sid h t n)"
    then have "h = g" using srv_ok_task [OF ok u] c(1,4) by (auto simp: in_table_def)
    then show False using srv_ok_gate [OF ok t _ u] u t by auto
  qed
  show ?thesis
  proof (cases r)
    case (Inl e)
    then have c': "evolves c c'" "\<not> co_activated c'"
      using w c(2) by (auto simp: send_login_ok_def ctl_write_def evolves_def split: prod.splits sum.splits if_splits)
    have "srv_ok (goto t (RemovePeek k) (set_ctl t c' s))" for k
      using c'(2) by (intro go_on_ctl [OF ok t]) (auto simp: c c'(1) set_ctl_def goto_def accepting_def is_accepting_data_def)
    then have "srv_ok (unlock g (goto t (RemovePeek k) (set_ctl t c' s)))" for k
      using leave_gate_ok [OF _ set_ctl_ok [OF ok c(1) c'(1)]] t by (simp add: set_ctl_def)
    then show ?thesis by (simp add: greet_def ctl_def c w Inl commute Let_def)
  next
    case (Inr u)
    then have c': "evolves (c\<lparr>co_activated := True\<rparr>) c'"
      using w by (auto simp: send_login_ok_def ctl_write_def evolves_def split: prod.splits sum.splits if_splits)
    have st: "srv_ok (goto t Starting s)" by (rule go_on [OF ok t]) (auto simp: c goto_def)
    have "srv_ok (set_ctl t c' (goto t Starting s))"
      using c nokick by (intro activate_ok [OF st _ _ _ _ c']) (auto simp: goto_def current_def)
    then have "srv_ok (unlock g (set_ctl t c' (goto t Starting s)))"
      using cleared [OF ok t, of g Starting] by (intro unlock_ok) (auto simp: set_ctl_def)
    then show ?thesis by (simp add: greet_def ctl_def c w Inr commute Let_def)
  qed
qed

lemma registered_step_ok:
  assumes ok: "srv_ok s" and t: "srv_tasks s t = Some pc" "\<not> replacing pc" and c: "srv_heap s t = Some c"
    and f: "frame c (srv_shared s) c' sh"
  shows "srv_ok (registered_step env t (p, c', sh) s)"
  unfolding registered_step_def using go_on_ctl [OF ok t _ _ c frame_evolves [OF f]]
  by (simp add: commute) (simp add: goto_def set_ctl_def)

lemma handle_received_ok:
  assumes ok: "srv_ok s" and t: "srv_tasks s t = Some (Received m)"
  shows "srv_ok (handle_received env t m now s)"
proof -
  obtain c where c: "srv_heap s t = Some c" using srv_ok_task [OF ok t] by auto
  have on: "srv_ok (goto t pc' (set_ctl t c' s))" if "evolves c c'" "pc' = Serving Idle \<or> (\<exists>r. pc' = Ending r)" for c' pc'
    using that by (intro go_on_ctl [OF ok t _ _ _ c]) (auto simp: goto_def set_ctl_def)
  have idle: "srv_ok (goto t (Serving Idle) s)" by (rule go_on [OF ok t]) (auto simp: c goto_def)
  show ?thesis
  proof (cases m)
    case (NewTunnel np)
    obtain p c' sh where b: "reg_begin (env_to_string env) np (mo_clock now) c (srv_shared s) = (p, c', sh)"
      by (cases "reg_begin (env_to_string env) np (mo_clock now) c (srv_shared s)") auto
    show ?thesis
      using registered_step_ok [OF ok t _ c begin_frame [OF b]] by (simp add: handle_received_def NewTunnel ctl_def c b)
  next
    case (CloseTunnel cp)
    then show ?thesis
      using on close_tunnel_evolves by (auto simp: handle_received_def ctl_def c commute split: prod.splits)
  next
    case (Ping x)
    then show ?thesis
      using on ping_evolves by (auto simp: handle_received_def ctl_def c split: prod.splits sum.splits)
  qed (simp_all add: handle_received_def idle)
qed

lemma start_run_ok:
  assumes ok: "srv_ok s" and t: "srv_tasks s t = Some Starting"
  shows "srv_ok (start_run env t s)"
proof -
  obtain c where c: "srv_heap s t = Some c" using srv_ok_task [OF ok t] by auto
  have on: "srv_ok (goto t pc' (set_ctl t c' s))" if "evolves c c'" "pc' = Serving Idle \<or> (\<exists>r. pc' = Ending r)" for c' pc'
    using that by (intro go_on_ctl [OF ok t _ _ _ c]) (auto simp: goto_def set_ctl_def)
  then show ?thesis
    using request_pool_evolves by (auto simp: start_run_def ctl_def c split: prod.splits sum.splits)
qed


lemma spawn_seen:
  assumes ok: "srv_ok s" and e: "srv_controls s sid = Some e"
  shows "saw_gate (spawn pc s) sid (se_gate e) (se_control e)"
proof -
  have e': "has_id s (se_control e) sid" "entered s (se_control e)" "srv_tasks s (srv_next s) = None"
    using srv_ok_entry [OF ok e] srv_ok_fresh [OF ok] by auto
  then have "entered (spawn pc s) (se_control e)"
    by (cases "se_control e = srv_next s") (simp_all add: entered_def spawn_def goto_def)
  with e'(1) e show ?thesis by (simp add: saw_gate_def has_id_def spawn_def goto_def)
qed

lemma kick_client_begin_ok: "srv_ok s \<Longrightarrow> srv_ok (kick_client_begin sid s)"
  unfolding kick_client_begin_def by (intro spawn_ok) (auto split: option.splits intro: spawn_seen)

lemma register_data_conn_begin_ok: "srv_ok s \<Longrightarrow> srv_ok (register_data_conn_begin env nw now s)"
  unfolding register_data_conn_begin_def Let_def
  by (intro spawn_ok) (auto split: option.splits sum.splits intro: spawn_seen simp: no_accepting_def)

lemma kick_locked_ok:
  assumes ok: "srv_ok s" and t: "srv_tasks s t = Some (KickWait sid g a)"
  shows "srv_ok (kick_locked t sid g a s)"
proof -
  have saw: "saw_gate s sid g a" using srv_ok_task [OF ok t] by simp
  have "srv_ok (goto t (Kicking sid g a) (lock g s))" (is "srv_ok ?s")
    if g: "g \<notin> srv_held s" "current s sid a"
  proof (rule srv_okI)
    obtain c where c: "srv_heap s a = Some c" "co_session_id c = sid"
        "srv_controls s sid = Some \<lparr>se_control = a, se_gate = g\<rparr>"
      using saw g(2) by (auto simp: saw_gate_def has_id_def current_def split: option.splits intro!: SessionEntry.equality)
    have rest: "srv_controls ?s = srv_controls s" "srv_held ?s = insert g (srv_held s)" "srv_heap ?s = srv_heap s"
      "srv_next ?s = srv_next s" "srv_tasks ?s = (srv_tasks s)(t \<mapsto> Kicking sid g a)"
      by (simp_all add: goto_def lock_def)
    have same: "has_id ?s = has_id s" "ctl ?s = ctl s" "inactive ?s = inactive s" "accepting ?s = accepting s"
      by (auto simp: has_id_def ctl_def inactive_def accepting_def rest fun_eq_iff)
    have ent: "entered s b \<Longrightarrow> entered ?s b" for b by (auto simp: entered_def rest)
    have tab: "in_table s b h \<Longrightarrow> in_table ?s b h" for b h by (auto simp: in_table_def rest)
    have task: "task_ok s u p \<Longrightarrow> task_ok ?s u p" for u p
      using ent tab by (cases p) (auto simp: same saw_gate_def rest)
    have new: "task_ok ?s t (Kicking sid g a)"
      using saw c ent by (auto simp: saw_gate_def same in_table_def rest)
    show "b < srv_next ?s" if "srv_heap ?s b \<noteq> None \<or> srv_tasks ?s b \<noteq> None" for b
      using that t srv_ok_next [OF ok, of b] by (auto simp: rest split: if_splits)
    show "has_id ?s (se_control e) i \<and> entered ?s (se_control e)" if "srv_controls ?s i = Some e" for i e
      using that srv_ok_entry [OF ok, of i e] ent by (simp add: rest same)
    show "task_ok ?s u p" if "srv_tasks ?s u = Some p" for u p
      using that new task srv_ok_task [OF ok] by (auto simp: rest split: if_splits)
    show "u = v" if "srv_tasks ?s u = Some p" "gate_of p = Some h" "srv_tasks ?s v = Some q" "gate_of q = Some h" for u v h p q
      using that srv_ok_gate [OF ok, of u p h v q] free_gate [OF ok g(1)] by (auto simp: rest split: if_splits)
    show "current ?s (co_session_id (ctl ?s b)) b \<or> replaced ?s b" if b: "accepting ?s b" for b
    proof -
      have "replaced ?s b" if "srv_tasks s u = Some (Replacing h (Some b))" for u h
        using that t unfolding replaced_def by (intro exI [of _ u] exI [of _ h]) (auto simp: rest)
      then show ?thesis using srv_ok_accepting [OF ok, of b] b by (auto simp: same rest current_def replaced_def [of s])
    qed
  qed
  moreover have "srv_ok (goto t (TaskDone r) s)" for r by (rule go_on [OF ok t]) auto
  ultimately show ?thesis using ok by (auto simp: kick_locked_def)
qed

lemma kick_session_ok:
  assumes ok: "srv_ok s" and t: "srv_tasks s t = Some (Kicking sid g a)"
  shows "srv_ok (kick_session t sid g a now s)"
proof -
  obtain c where c: "srv_heap s a = Some c" using srv_ok_task [OF ok t] by (auto simp: has_id_def)
  obtain c' sh where k: "kick ''kicked from dashboard'' (mo_clock now) c (srv_shared s) = (c', sh)" by fastforce
  have ev: "evolves c c'" "co_closed c'" using kick_evolves [OF k] by auto
  have ok': "srv_ok (set_ctl a c' s)" by (rule set_ctl_ok [OF ok c ev(1)])
  have t': "srv_tasks (set_ctl a c' s) t = Some (Kicking sid g a)" using t by (simp add: set_ctl_def)
  have p: "has_id (set_ctl a c' s) a sid" "entered (set_ctl a c' s) a" "in_table (set_ctl a c' s) a g"
    using srv_ok_task [OF ok' t'] by auto
  have "srv_ok (goto t (KickRemove sid g a n) (set_ctl a c' s))" for n
    using p t' srv_ok_next [OF ok', of t] ev(2)
    by (intro goto_ok [OF ok'])
      (auto simp: has_id_def entered_def in_table_def accepting_def is_accepting_data_def is_closed_def goto_def set_ctl_def)
  then show ?thesis by (simp add: kick_session_def ctl_def c k commute)
qed

lemma kick_remove_ok:
  assumes ok: "srv_ok s" and t: "srv_tasks s t = Some (KickRemove sid g a n)"
  shows "srv_ok (kick_remove t sid g a n now s)"
proof -
  obtain c where c: "srv_heap s a = Some c" "co_session_id c = sid" "\<not> accepting s a"
      "srv_controls s sid = Some \<lparr>se_control = a, se_gate = g\<rparr>"
    using srv_ok_task [OF ok t] by (auto simp: in_table_def has_id_def)
  let ?s = "goto t (TaskDone (Inr ())) s"
  have s: "srv_ok ?s" by (rule go_on [OF ok t]) auto
  have free: "gate_of p \<noteq> Some g" if "srv_tasks ?s u = Some p" for u p
    using cleared [OF ok t _ _ that] by simp
  have "srv_ok (?s\<lparr>srv_controls := (srv_controls ?s)(sid := None)\<rparr>)"
    using c free by (intro remove_entry_ok [OF s]) (auto simp: goto_def accepting_def)
  then have "srv_ok (unlock g (?s\<lparr>srv_controls := (srv_controls ?s)(sid := None)\<rparr>))"
    by (rule unlock_ok) (use free in auto)
  moreover have "srv_controls ?s = srv_controls s" by (simp add: goto_def)
  moreover have "current s sid a" using c by (simp add: current_def)
  ultimately show ?thesis by (simp add: kick_remove_def Let_def commute)
qed


lemma spawn_refill_ok: "srv_ok s \<Longrightarrow> srv_heap s a \<noteq> None \<Longrightarrow> srv_ok (spawn_refill a s)"
  unfolding spawn_refill_def by (auto intro!: spawn_ok) (simp_all add: spawn_def goto_def)

lemma give_data_conn_ok:
  assumes "srv_ok s" "srv_tasks s t = Some pc" "\<not> replacing pc" "srv_heap s a \<noteq> None"
  shows "srv_ok (give_data_conn t a conn rest s)"
proof -
  let ?s = "s\<lparr>srv_data := (srv_data s)(a := rest), srv_given := srv_given s @ [(t, conn)]\<rparr>"
  have "srv_ok (goto t (TaskDone (Inr ())) ?s)" using assms by (intro go_on [of _ t pc]) auto
  then show ?thesis
    unfolding give_data_conn_def using assms(4) by (intro spawn_refill_ok) (simp_all add: goto_def)
qed

lemma data_steps_ok:
  assumes ok: "srv_ok s"
  shows "srv_tasks s t = Some (DataWait sid g a) \<Longrightarrow> srv_ok (lookup_accepting t sid g a s)"
    and "srv_tasks s t = Some (Pushing a) \<Longrightarrow> srv_ok (push_data_conn t a s)"
    and "srv_tasks s t = Some (Popping a) \<Longrightarrow> srv_ok (get_data_conn env t a now s)"
    and "srv_tasks s t = Some (AwaitData a d) \<Longrightarrow> srv_ok (await_data_conn t a d now s)"
    and "srv_tasks s t = Some (Refill a) \<Longrightarrow> srv_ok (refill t a s)"
proof -
  have fin: "srv_ok (goto t (TaskDone r) s)" if "srv_tasks s t = Some pc" "\<not> replacing pc" for r pc
    using that by (intro go_on [OF ok]) auto
  have on: "srv_ok (goto t pc' (set_ctl a c' s))"
    if "srv_tasks s t = Some pc" "\<not> replacing pc" "srv_heap s a = Some c" "evolves c c'"
      "(\<exists>d. pc' = AwaitData a d) \<or> (\<exists>r. pc' = TaskDone r)" for pc pc' c c'
    using that by (intro go_on_ctl [OF ok that(1,2) _ _ that(3,4)]) (auto simp: goto_def set_ctl_def)
  show "srv_ok (lookup_accepting t sid g a s)" if t: "srv_tasks s t = Some (DataWait sid g a)"
  proof -
    have "srv_heap s a \<noteq> None" using srv_ok_task [OF ok t] by (auto simp: saw_gate_def has_id_def)
    then have "srv_ok (goto t (Pushing a) s)" by (intro go_on [OF ok t]) (auto simp: goto_def)
    then show ?thesis using ok fin [OF t] by (simp add: lookup_accepting_def no_accepting_def)
  qed
  show "srv_ok (push_data_conn t a s)" if t: "srv_tasks s t = Some (Pushing a)"
  proof -
    have "srv_ok (goto t (TaskDone (Inr ())) (s\<lparr>srv_data := q\<rparr>))" for q
      using ok t by (intro go_on [of _ t "Pushing a"]) auto
    then show ?thesis using ok by (simp add: push_data_conn_def)
  qed
  show "srv_ok (get_data_conn env t a now s)" if t: "srv_tasks s t = Some (Popping a)"
  proof -
    obtain c where c: "srv_heap s a = Some c" using srv_ok_task [OF ok t] by auto
    then show ?thesis
      using give_data_conn_ok [OF ok t] on [OF t _ c] request_evolves
      by (auto simp: get_data_conn_def ctl_def split: list.splits prod.splits sum.splits)
  qed
  show "srv_ok (await_data_conn t a d now s)" if t: "srv_tasks s t = Some (AwaitData a d)"
  proof -
    have "srv_heap s a \<noteq> None" using srv_ok_task [OF ok t] by auto
    then show ?thesis
      using give_data_conn_ok [OF ok t] fin [OF t] ok by (auto simp: await_data_conn_def split: list.splits)
  qed
  show "srv_ok (refill t a s)" if t: "srv_tasks s t = Some (Refill a)"
  proof -
    obtain c where c: "srv_heap s a = Some c" using srv_ok_task [OF ok t] by auto
    have "evolves c (snd (request_data_conn c))" using request_evolves [of c] by (metis prod.collapse)
    then show ?thesis using on [OF t _ c] fin [OF t] by (auto simp: refill_def ctl_def c)
  qed
qed

lemma task_step_ok:
  assumes ok: "srv_ok s" and t: "srv_tasks s t = Some pc"
  shows "srv_ok (task_step env t pc now s)"
proof (cases pc)
  case (Serving p)
  with t have t': "srv_tasks s t = Some (Serving p)" by simp
  obtain c where c: "srv_heap s t = Some c" using srv_ok_task [OF ok t'] by auto
  obtain p' c' sh where r: "reg_continue (env_to_string env) (env_bind env) (mo_clock now) (p, c, srv_shared s) = (p', c', sh)"
    by (cases "reg_continue (env_to_string env) (env_bind env) (mo_clock now) (p, c, srv_shared s)") auto
  show ?thesis
    using registered_step_ok [OF ok t' _ c continue_frame [OF r]] ok by (simp add: Serving ctl_def c r)
next
  case (Ending r)
  then have "srv_heap s t \<noteq> None" using srv_ok_task [OF ok t] by auto
  then have "srv_ok (goto t (Closing n r) s)" for n
    by (intro go_on [OF ok t]) (auto simp: Ending goto_def)
  then show ?thesis by (simp add: Ending)
next
  case (Closing n r)
  then have heap: "srv_heap s t \<noteq> None" using srv_ok_task [OF ok t] by auto
  note sd = shutdown_ctl_ok [OF ok heap]
  have "srv_ok (goto t (RemovePeek (ReleaseAgent n r)) (shutdown_ctl t now s))"
    using t Closing sd(2,7) heap by (intro go_on [OF sd(1), where pc = pc]) (auto simp: sd(5) goto_def accepting_def)
  then show ?thesis by (simp add: Closing)
qed (use assms in \<open>simp_all add: swap_in_peek_ok swap_in_step_ok replace_previous_ok go_online_ok greet_ok start_run_ok
  handle_received_ok remove_peek_ok remove_if_current_ok kick_locked_ok kick_session_ok kick_remove_ok data_steps_ok\<close>)

lemma reject_login_ok: "srv_ok s \<Longrightarrow> srv_ok (reject_login env e s)"
  unfolding reject_login_def by (intro spawn_ok) auto

lemma new_session_ok:
  assumes ok: "srv_ok s" and c: "\<not> co_activated c"
  shows "srv_ok (spawn Peeking (set_ctl (srv_next s) c s))" (is "srv_ok ?s")
proof (rule srv_okI)
  let ?n = "srv_next s"
  have none: "srv_heap s ?n = None" "srv_tasks s ?n = None" using srv_ok_fresh [OF ok] by auto
  have rest: "srv_controls ?s = srv_controls s" "srv_held ?s = srv_held s" "srv_heap ?s = (srv_heap s)(?n \<mapsto> c)"
    "srv_next ?s = Suc ?n" "srv_tasks ?s = (srv_tasks s)(?n \<mapsto> Peeking)"
    by (simp_all add: spawn_def goto_def set_ctl_def)
  have mono: "has_id s a i \<Longrightarrow> has_id ?s a i" "inactive s a \<Longrightarrow> inactive ?s a" "in_table s a g \<Longrightarrow> in_table ?s a g"
    "entered s a \<Longrightarrow> entered ?s a" "srv_heap s a \<noteq> None \<Longrightarrow> srv_heap ?s a \<noteq> None" "accepting ?s a = accepting s a" for a i g
    using none c by (auto simp: has_id_def inactive_def in_table_def entered_def accepting_def is_accepting_data_def rest)
  have cid: "ctl ?s a = ctl s a" if "srv_heap s a \<noteq> None" for a using that none by (auto simp: ctl_def rest)
  have cid': "has_id s a i \<Longrightarrow> ctl ?s a = ctl s a" "inactive s a \<Longrightarrow> ctl ?s a = ctl s a" for a i
    using cid by (auto simp: has_id_def inactive_def)
  have task: "task_ok ?s u p" if "task_ok s u p" for u p
    using that mono cid' by (cases p) (auto simp: saw_gate_def rest)
  show "task_ok ?s u p" if "srv_tasks ?s u = Some p" for u p
    using that task srv_ok_task [OF ok] c by (auto simp: rest inactive_def split: if_splits)
  show "a < srv_next ?s" if "srv_heap ?s a \<noteq> None \<or> srv_tasks ?s a \<noteq> None" for a
    using that srv_ok_next [OF ok, of a] by (auto simp: rest split: if_splits)
  show "has_id ?s (se_control e) i \<and> entered ?s (se_control e)" if "srv_controls ?s i = Some e" for i e
    using that srv_ok_entry [OF ok, of i e] mono by (simp add: rest)
  show "u = v" if "srv_tasks ?s u = Some p" "gate_of p = Some h" "srv_tasks ?s v = Some q" "gate_of q = Some h" for u v h p q
    using that srv_ok_gate [OF ok, of u p h v q] by (auto simp: rest split: if_splits)
  show "current ?s (co_session_id (ctl ?s a)) a \<or> replaced ?s a" if "accepting ?s a" for a
  proof -
    have a: "accepting s a" "srv_heap s a \<noteq> None" using that mono(6) by (auto simp: accepting_def split: option.splits)
    have "replaced ?s a" if "srv_tasks s u = Some (Replacing h (Some a))" for u h
      using that none unfolding replaced_def by (intro exI [of _ u] exI [of _ h]) (auto simp: rest)
    then show ?thesis using srv_ok_accepting [OF ok a(1)] cid [OF a(2)] by (auto simp: rest current_def replaced_def [of s])
  qed
qed

lemma register_control_begin_ok: "srv_ok s \<Longrightarrow> srv_ok (register_control_begin env login ip short now s)"
proof -
  assume ok: "srv_ok s"
  have new: "srv_ok (spawn Peeking ((set_ctl (srv_next s') (new_control env login u a i ip now s') s')\<lparr>srv_next_generation := g\<rparr>))"
    if "srv_ok s'" for s' u a i g
  proof -
    have "spawn Peeking ((set_ctl (srv_next s') (new_control env login u a i ip now s') s')\<lparr>srv_next_generation := g\<rparr>) =
        (spawn Peeking (set_ctl (srv_next s') (new_control env login u a i ip now s') s'))\<lparr>srv_next_generation := g\<rparr>"
      by (simp add: spawn_def goto_def set_ctl_def)
    moreover have "\<not> co_activated (new_control env login u a i ip now s')" by (simp add: new_control_def Control_new_def)
    ultimately show ?thesis using new_session_ok [OF that] by simp
  qed
  have new': "srv_ok (spawn Peeking ((set_ctl (srv_next s) (new_control env login u a i ip now (s\<lparr>srv_replay := x\<rparr>))
      (s\<lparr>srv_replay := x\<rparr>))\<lparr>srv_next_generation := g\<rparr>))" for u a i g x
    using new [of "s\<lparr>srv_replay := x\<rparr>"] ok by simp
  show ?thesis
    using ok unfolding register_control_begin_def Let_def
    by (auto split: prod.splits sum.splits intro!: reject_login_ok new')
qed

lemma server_step_ok: "srv_ok s \<Longrightarrow> srv_ok (server_step env ev s)"
proof (cases ev)
  fix e now assume ok: "srv_ok s" and ev: "ev = (e, now)"
  have fin: "srv_ok (goto t pc' s)" if "srv_tasks s t = Some (Serving Idle)" "pc' = Ending (Inr ()) \<or> pc' = Received m" for t pc' m
    using that srv_ok_task [OF ok that(1)] by (intro go_on [OF ok that(1)]) (auto simp: goto_def)
  show "srv_ok (server_step env ev s)"
  proof (cases e)
    case (UserArrives a)
    then show ?thesis using ok by (auto simp: ev spawn_def goto_def intro!: spawn_ok [unfolded spawn_def goto_def])
  next
    case (HeartbeatCheck a)
    then show ?thesis using ok by (auto simp: ev signal_close_def evolves_def split: option.splits intro!: set_ctl_ok)
  next
    case (WriterBreaks a)
    then show ?thesis using ok by (auto simp: ev evolves_def split: option.splits intro!: set_ctl_ok)
  qed (use ok fin in \<open>auto simp: ev receive_def run_ends_def register_control_begin_ok kick_client_begin_ok register_data_conn_begin_ok
      task_step_ok split: option.splits\<close>)
qed

lemma serve_ok: "srv_ok (serve env now events)"
proof -
  have "srv_ok (Service_new (env_cfg env) now)"
    by (rule srv_okI) (auto simp: Service_new_def accepting_def)
  then have "srv_ok (fold (server_step env) events (Service_new (env_cfg env) now))"
    by (induction events rule: rev_induct) (auto simp: server_step_ok)
  then show ?thesis by (simp add: serve_def)
qed

end
