(* ===== verification/Session_Runs.thy ===== *)
theory Session_Runs
  imports Session_Table
begin

text \<open>
  What holds in every run of the server: the use of data connections, the gates, and the properties of logins.
\<close>

section \<open>Data connections\<close>

text \<open>A data connection that was pushed is in one queue or with one user, and its task is over.\<close>

definition pushed :: "Server \<Rightarrow> nat \<Rightarrow> bool" where
  "pushed s d \<longleftrightarrow> (\<exists>a. d \<in> set (srv_data s a)) \<or> d \<in> snd ` set (srv_given s)"

definition over :: "Server \<Rightarrow> nat \<Rightarrow> bool" where
  "over s t \<longleftrightarrow> (\<exists>r. srv_tasks s t = Some (TaskDone r))"

definition data_ok :: "Server \<Rightarrow> bool" where
  "data_ok s \<longleftrightarrow>
     distinct (map snd (srv_given s)) \<and>
     (\<forall>a. distinct (srv_data s a) \<and> length (srv_data s a) \<le> 64 \<and> set (srv_data s a) \<inter> snd ` set (srv_given s) = {}) \<and>
     (\<forall>a b. a \<noteq> b \<longrightarrow> set (srv_data s a) \<inter> set (srv_data s b) = {}) \<and>
     (\<forall>d. pushed s d \<longrightarrow> over s d)"

text \<open>Most steps leave the connections alone and no task that is over goes on.\<close>

definition quiet :: "Server \<Rightarrow> Server \<Rightarrow> bool" where
  "quiet s s' \<longleftrightarrow> srv_data s' = srv_data s \<and> srv_given s' = srv_given s \<and> (\<forall>t. over s t \<longrightarrow> over s' t)"

lemma quiet_data_ok: "quiet s s' \<Longrightarrow> data_ok s \<Longrightarrow> data_ok s'"
  by (auto simp: quiet_def data_ok_def pushed_def)

lemma quiet_trans: "quiet s s1 \<Longrightarrow> quiet s1 s2 \<Longrightarrow> quiet s s2"
  by (simp add: quiet_def)

lemma quiet_refl [simp]: "quiet s s"
  by (simp add: quiet_def)

lemma quiet_upd [simp]:
  "quiet s (s\<lparr>srv_agents := r\<rparr>)" "quiet s (s\<lparr>srv_replay := p\<rparr>)" "quiet s (s\<lparr>srv_shared := sh\<rparr>)"
  "quiet s (s\<lparr>srv_next_generation := n\<rparr>)" "quiet s (s\<lparr>srv_refused := ms\<rparr>)" "quiet s (s\<lparr>srv_controls := m\<rparr>)"
  "quiet s (s\<lparr>srv_next := k\<rparr>)" "quiet s (set_ctl a c s)" "quiet s (lock g s)" "quiet s (unlock g s)"
  "quiet s (shutdown_ctl a now s)"
  by (simp_all add: quiet_def over_def set_ctl_def lock_def unlock_def shutdown_ctl_def split: prod.split)

lemma tasks_fields [simp]:
  "srv_tasks (set_ctl a c s) = srv_tasks s" "srv_tasks (lock g s) = srv_tasks s" "srv_tasks (unlock g s) = srv_tasks s"
  "srv_tasks (shutdown_ctl a now s) = srv_tasks s"
  by (simp_all add: set_ctl_def lock_def unlock_def shutdown_ctl_def split: prod.split)

lemma over_fields [simp]:
  "over (set_ctl a c s) = over s" "over (lock g s) = over s" "over (unlock g s) = over s" "over (shutdown_ctl a now s) = over s"
  "over (s\<lparr>srv_agents := r\<rparr>) = over s" "over (s\<lparr>srv_replay := p\<rparr>) = over s" "over (s\<lparr>srv_shared := sh\<rparr>) = over s"
  "over (s\<lparr>srv_controls := m\<rparr>) = over s" "over (s\<lparr>srv_next := k\<rparr>) = over s"
  by (simp_all add: over_def fun_eq_iff)

lemma data_fields [simp]:
  "srv_data (set_ctl a c s) = srv_data s" "srv_data (lock g s) = srv_data s" "srv_data (unlock g s) = srv_data s"
  "srv_data (shutdown_ctl a now s) = srv_data s" "srv_data (goto t pc s) = srv_data s"
  "srv_given (set_ctl a c s) = srv_given s" "srv_given (lock g s) = srv_given s" "srv_given (unlock g s) = srv_given s"
  "srv_given (shutdown_ctl a now s) = srv_given s" "srv_given (goto t pc s) = srv_given s"
  by (simp_all add: set_ctl_def lock_def unlock_def shutdown_ctl_def goto_def split: prod.split)

lemma over_goto: "over (goto t pc s) u \<longleftrightarrow> (if u = t then (\<exists>r. pc = TaskDone r) else over s u)"
  by (auto simp: over_def goto_def)

lemma over_keep: "\<not> over s t \<Longrightarrow> over s u \<Longrightarrow> over (goto t pc s) u"
  by (auto simp: over_goto)

lemma quiet_spawn:
  assumes "srv_ok s"
  shows "quiet s (spawn pc s)"
  using srv_ok_fresh [OF assms, of "srv_next s"] by (auto simp: quiet_def over_def spawn_def goto_def)

lemmas quiet_defs = swap_in_peek_def swap_in_def replace_previous_def go_online_def greet_def start_run_def registered_step_def
  handle_received_def kick_locked_def kick_session_def kick_remove_def lookup_accepting_def refill_def remove_peek_def
  remove_if_current_def after_removed_def no_accepting_def

lemma quiet_task_step:
  assumes t: "srv_tasks s t = Some pc" and pc: "case pc of Pushing a \<Rightarrow> False | Popping a \<Rightarrow> False | AwaitData a d \<Rightarrow> False | _ \<Rightarrow> True"
  shows "quiet s (task_step env t pc now s)"
proof (cases "\<exists>r. pc = TaskDone r")
  case False
  then have n: "\<not> over s t" using t by (simp add: over_def)
  show ?thesis
  proof (cases pc)
    case (Received m)
    then show ?thesis
      using n by (cases m) (auto simp: quiet_def quiet_defs over_keep Let_def split: prod.split sum.split)
  next
    case (RemovePeek k)
    then show ?thesis
      using n by (cases k) (auto simp: quiet_def quiet_defs over_keep Let_def)
  next
    case (RemoveWait g k)
    then show ?thesis
      using n by (cases k) (auto simp: quiet_def quiet_defs over_keep Let_def)
  qed (use n pc False in \<open>auto simp: quiet_def quiet_defs over_keep Let_def
      split: prod.split sum.split option.split AgentRegisterError.split\<close>)
qed (use t in auto)

lemma push_data_ok:
  assumes ok: "data_ok s" and t: "srv_tasks s t = Some (Pushing a)"
  shows "data_ok (push_data_conn t a s)"
proof (cases "64 \<le> length (srv_data s a)")
  case False
  let ?s = "push_data_conn t a s"
  have s: "srv_data ?s = (srv_data s)(a := srv_data s a @ [t])" "srv_given ?s = srv_given s"
    "over ?s = (\<lambda>u. u = t \<or> over s u)"
    using False by (auto simp: push_data_conn_def over_def goto_def fun_eq_iff)
  have "\<not> over s t" using t by (simp add: over_def)
  then have n: "\<not> pushed s t" using ok by (auto simp: data_ok_def)
  have p: "pushed ?s d \<longleftrightarrow> d = t \<or> pushed s d" for d by (auto simp: pushed_def s)
  show ?thesis
    using ok n False unfolding data_ok_def p s by (auto simp: pushed_def)
qed (use ok in \<open>simp add: push_data_conn_def\<close>)

lemma give_data_ok:
  assumes s: "data_ok s" "srv_ok s" and t: "srv_tasks s t = Some pc" "\<not> over s t" "\<not> replacing pc" "srv_heap s a \<noteq> None"
    and q: "srv_data s a = conn # rest"
  shows "data_ok (give_data_conn t a conn rest s)"
proof -
  let ?u = "s\<lparr>srv_data := (srv_data s)(a := rest), srv_given := srv_given s @ [(t, conn)]\<rparr>"
  let ?s = "goto t (TaskDone (Inr ())) ?u"
  have f: "srv_data ?s = (srv_data s)(a := rest)" "srv_given ?s = srv_given s @ [(t, conn)]" "over ?s = (\<lambda>u. u = t \<or> over s u)"
    by (auto simp: over_def goto_def fun_eq_iff)
  have mv: "(\<exists>b. d \<in> set (((srv_data s)(a := rest)) b)) \<or> d = conn \<longleftrightarrow> (\<exists>b. d \<in> set (srv_data s b))" for d
  proof
    assume "(\<exists>b. d \<in> set (((srv_data s)(a := rest)) b)) \<or> d = conn"
    then obtain b where "d \<in> set (((srv_data s)(a := rest)) b) \<or> d = conn" by blast
    then have "d \<in> set (srv_data s b) \<or> d \<in> set (srv_data s a)" using q by (auto split: if_splits)
    then show "\<exists>b. d \<in> set (srv_data s b)" by blast
  next
    assume "\<exists>b. d \<in> set (srv_data s b)"
    then obtain b where b: "d \<in> set (srv_data s b)" by blast
    then have "d \<in> set (((srv_data s)(a := rest)) b) \<or> d = conn" using q by (cases "b = a") auto
    then show "(\<exists>b. d \<in> set (((srv_data s)(a := rest)) b)) \<or> d = conn" by blast
  qed
  have "snd ` set (srv_given s @ [(t, conn)]) = insert conn (snd ` set (srv_given s))" by auto
  then have p: "pushed ?s d \<longleftrightarrow> pushed s d" for d unfolding pushed_def f using mv [of d] by blast
  have c: "conn \<in> set (srv_data s a)" "set rest \<subseteq> set (srv_data s a)" "conn \<notin> set rest" "distinct rest" "length rest \<le> 64"
    "conn \<notin> snd ` set (srv_given s)"
    using s(1) q unfolding data_ok_def by (metis list.set_intros(1) distinct.simps(2) set_subset_Cons length_Cons Suc_leD disjoint_iff)+
  have other: "conn \<notin> set (srv_data s b)" if "b \<noteq> a" for b
    using s(1) c(1) that unfolding data_ok_def by blast
  have "set (srv_data s a) \<inter> snd ` set (srv_given s) = {}" using s(1) unfolding data_ok_def by blast
  then have given: "(x, b) \<notin> set (srv_given s)" if "b \<in> set rest" for x b using c(2) that by force
  have "data_ok ?s"
    using s(1) c other given unfolding data_ok_def p f by (auto simp: disjoint_iff)
  moreover have "srv_ok ?s" using s(2) t by (intro go_on [of _ t pc]) auto
  then have "quiet ?s (spawn_refill a ?s)" by (simp add: spawn_refill_def quiet_spawn)
  ultimately show ?thesis unfolding give_data_conn_def by (rule quiet_data_ok [rotated])
qed

lemma data_task_step:
  assumes ok: "data_ok s" "srv_ok s" and t: "srv_tasks s t = Some pc"
  shows "data_ok (task_step env t pc now s)"
proof -
  have n: "\<not> over s t" "srv_heap s a \<noteq> None" if "pc = Popping a \<or> pc = AwaitData a d" for a d
    using that t srv_ok_task [OF ok(2) t] by (auto simp: over_def)
  note give = give_data_ok [OF ok t n(1) _ n(2)]
  show ?thesis
  proof (cases pc)
    case (Pushing a)
    then show ?thesis using push_data_ok ok(1) t by simp
  next
    case (Popping a)
    then show ?thesis
      using give [of a _ a] n [of a] ok(1)
      by (auto simp: get_data_conn_def intro!: quiet_data_ok [OF _ ok(1)] split: list.splits prod.splits sum.splits)
        (auto simp: quiet_def over_keep)
  next
    case (AwaitData a d)
    then show ?thesis
      using give [of a d a] n [of a d] ok(1)
      by (auto simp: await_data_conn_def intro!: quiet_data_ok [OF _ ok(1)] split: list.splits)
        (auto simp: quiet_def over_keep)
  qed (use quiet_data_ok [OF quiet_task_step [OF t] ok(1)] in auto)
qed

lemma data_server_step:
  assumes ok: "data_ok s" "srv_ok s"
  shows "data_ok (server_step env ev s)"
proof (cases ev)
  case (Pair e now)
  have sp: "quiet s (spawn pc s)" for pc by (rule quiet_spawn [OF ok(2)])
  have sp': "quiet s (spawn pc s')" if "srv_ok s'" "quiet s s'" for s' pc
    using that quiet_spawn quiet_trans by blast
  have ser: "quiet s (goto t pc s)" if "srv_tasks s t = Some (Serving Idle)" for t pc
    using that by (auto simp: quiet_def over_def goto_def)
  show ?thesis
  proof (cases e)
    case (LoginArrives login ip short)
    have rej: "quiet s (reject_login env m (s\<lparr>srv_replay := r\<rparr>))" for m r
      unfolding reject_login_def using ok(2) by (intro sp') (auto simp: quiet_def over_def)
    have fr: "srv_tasks s (srv_next s) = None" using srv_ok_fresh [OF ok(2)] by simp
    have new: "quiet s (spawn Peeking ((set_ctl (srv_next s) c (s\<lparr>srv_replay := r\<rparr>))\<lparr>srv_next_generation := g\<rparr>))" for c r g
      using fr by (auto simp: quiet_def over_def spawn_def goto_def set_ctl_def)
    have "quiet s (register_control_begin env login ip short now s)"
      unfolding register_control_begin_def Let_def using rej new by (auto split: prod.splits sum.splits)
    then show ?thesis using quiet_data_ok ok(1) by (auto simp: Pair LoginArrives)
  next
    case (Wakes t)
    then show ?thesis using data_task_step [OF ok] ok(1) by (auto simp: Pair split: option.splits)
  qed (use ok sp ser in \<open>auto simp: Pair kick_client_begin_def register_data_conn_begin_def Let_def receive_def run_ends_def
      intro!: quiet_data_ok [OF _ ok(1)] split: option.splits\<close>)
qed

lemma serve_data_ok: "data_ok (serve env now events)"
proof -
  have "data_ok (fold (server_step env) events (Service_new (env_cfg env) now))"
  proof (induction events rule: rev_induct)
    case Nil
    then show ?case by (simp add: data_ok_def pushed_def Service_new_def)
  next
    case (snoc e es)
    then show ?case using serve_ok [of env now es] data_server_step by (simp add: serve_def)
  qed
  then show ?thesis by (simp add: serve_def)
qed


section \<open>Properties\<close>

text \<open>C3. In every run of the server at most one session of an id accepts data connections, and it is the one
  in the table unless a login that holds the gate is just replacing it.\<close>

theorem one_accepting_session:
  "(\<exists>\<^sub>\<le>\<^sub>1a. accepting (serve env now events) a \<and> has_id (serve env now events) a sid) \<and>
   {a. accepting (serve env now events) a} \<subseteq>
     {a. current (serve env now events) (co_session_id (ctl (serve env now events) a)) a \<or> replaced (serve env now events) a}"
  (is "?uniq \<and> ?sub")
proof
  show ?uniq unfolding Uniq_def by (blast intro: srv_ok_one_accepting [OF serve_ok])
  show ?sub using srv_ok_accepting [OF serve_ok] by blast
qed


text \<open>Gates are new when they are made: those in use are below the next free number.\<close>

fun gates_in :: "task_pc \<Rightarrow> nat set" where
  "gates_in (GateWait g) = {g}"
| "gates_in (Replacing g p) = {g}"
| "gates_in (Onlining g) = {g}"
| "gates_in (Greeting g) = {g}"
| "gates_in (RemoveWait g k) = {g}"
| "gates_in (KickWait sid g a) = {g}"
| "gates_in (Kicking sid g a) = {g}"
| "gates_in (KickRemove sid g a n) = {g}"
| "gates_in (DataWait sid g a) = {g}"
| "gates_in pc = {}"

definition gates :: "Server \<Rightarrow> nat set" where
  "gates s = srv_held s \<union> {se_gate e |e. e \<in> ran (srv_controls s)} \<union> (\<Union>pc \<in> ran (srv_tasks s). gates_in pc)"

text \<open>A step makes at most the gate that is next.\<close>

definition makes :: "Server \<Rightarrow> Server \<Rightarrow> bool" where
  "makes s s' \<longleftrightarrow> srv_next s \<le> srv_next s' \<and> (\<forall>g. g \<in> gates s' \<longrightarrow> g \<in> gates s \<or> g < srv_next s')"

lemma gates_iff:
  "g \<in> gates s \<longleftrightarrow> g \<in> srv_held s \<or> (\<exists>sid e. srv_controls s sid = Some e \<and> se_gate e = g) \<or>
     (\<exists>t pc. srv_tasks s t = Some pc \<and> g \<in> gates_in pc)"
  by (auto simp: gates_def ran_def)

lemma gates_goto:
  "g \<in> gates (goto t pc s) \<Longrightarrow> g \<in> gates s \<or> g \<in> gates_in pc"
  by (auto simp: gates_iff goto_def split: if_splits)

lemma gates_same [simp]:
  "gates (s\<lparr>srv_agents := r\<rparr>) = gates s" "gates (s\<lparr>srv_replay := p\<rparr>) = gates s" "gates (s\<lparr>srv_shared := sh\<rparr>) = gates s"
  "gates (s\<lparr>srv_next_generation := n\<rparr>) = gates s" "gates (s\<lparr>srv_refused := ms\<rparr>) = gates s" "gates (s\<lparr>srv_data := d\<rparr>) = gates s"
  "gates (s\<lparr>srv_given := l\<rparr>) = gates s" "gates (s\<lparr>srv_next := k\<rparr>) = gates s" "gates (set_ctl a c s) = gates s"
  "gates (shutdown_ctl a now s) = gates s" "gates (lock g s) = insert g (gates s)"
  by (auto simp: gates_def set_ctl_def shutdown_ctl_def lock_def split: prod.split)

lemma gates_less:
  "g \<in> gates (unlock h s) \<Longrightarrow> g \<in> gates s" "g \<in> gates (s\<lparr>srv_controls := (srv_controls s)(sid := None)\<rparr>) \<Longrightarrow> g \<in> gates s"
  "g \<in> gates (s\<lparr>srv_controls := (srv_controls s)(sid \<mapsto> e)\<rparr>) \<Longrightarrow> g \<in> gates s \<or> g = se_gate e"
  by (auto simp: gates_iff unlock_def split: if_splits)

lemma next_same [simp]:
  "srv_next (goto t pc s) = srv_next s" "srv_next (set_ctl a c s) = srv_next s" "srv_next (shutdown_ctl a now s) = srv_next s"
  "srv_next (lock g s) = srv_next s" "srv_next (unlock g s) = srv_next s" "srv_next (spawn pc s) = Suc (srv_next s)"
  by (simp_all add: goto_def set_ctl_def shutdown_ctl_def lock_def unlock_def spawn_def split: prod.split)

lemma gates_spawn: "g \<in> gates (spawn pc s) \<Longrightarrow> g \<in> gates s \<or> g \<in> gates_in pc"
  unfolding spawn_def by (auto dest!: gates_goto)

lemma gates_entry: "srv_controls s sid = Some e \<Longrightarrow> se_gate e \<in> gates s"
  by (auto simp: gates_iff)

lemma gates_task: "srv_tasks s t = Some pc \<Longrightarrow> gates_in pc \<subseteq> gates s"
  by (auto simp: gates_iff)

lemma makesI: "srv_next s \<le> srv_next s' \<Longrightarrow> (\<And>g. g \<in> gates s' \<Longrightarrow> g \<in> gates s \<or> g < srv_next s') \<Longrightarrow> makes s s'"
  by (simp add: makes_def)

lemma makes_trans: "makes s s1 \<Longrightarrow> makes s1 s2 \<Longrightarrow> makes s s2"
  unfolding makes_def by (meson less_le_trans order_trans)

lemma makes_refl [simp]: "makes s s"
  by (simp add: makes_def)

lemma makes_goto: "gates_in pc \<subseteq> gates s \<union> {..<srv_next s} \<Longrightarrow> makes s (goto t pc s)"
  by (auto intro!: makesI dest!: gates_goto)

lemma makes_spawn: "gates_in pc \<subseteq> gates s \<union> {..<srv_next s} \<Longrightarrow> makes s (spawn pc s)"
  by (auto intro!: makesI dest!: gates_spawn)

lemma makes_same:
  "makes s (s\<lparr>srv_agents := r\<rparr>)" "makes s (s\<lparr>srv_replay := p\<rparr>)" "makes s (s\<lparr>srv_shared := sh\<rparr>)"
  "makes s (s\<lparr>srv_data := d\<rparr>)" "makes s (s\<lparr>srv_data := d, srv_given := l\<rparr>)" "makes s (s\<lparr>srv_refused := ms\<rparr>)"
  "makes s (s\<lparr>srv_next_generation := n\<rparr>)" "makes s (set_ctl a c s)" "makes s (shutdown_ctl a now s)" "makes s (unlock h s)"
  "makes s (s\<lparr>srv_controls := (srv_controls s)(sid := None)\<rparr>)" "makes s ((set_ctl a c s)\<lparr>srv_shared := sh\<rparr>)"
  "makes s ((set_ctl a c s)\<lparr>srv_agents := r\<rparr>)"
  by (auto intro!: makesI dest: gates_less)

lemma goto_after: "makes s s' \<Longrightarrow> gates_in pc \<subseteq> gates s' \<union> {..<srv_next s'} \<Longrightarrow> makes s (goto t pc s')"
  using makes_trans makes_goto by blast

lemma makes_removed: "makes s (after_removed env t b k now s)"
  by (cases k) (auto simp: after_removed_def Let_def intro!: goto_after makes_same intro: makes_trans)

lemma makes_give: "makes s (give_data_conn t a conn rest s)"
  unfolding give_data_conn_def spawn_refill_def
  by (auto intro!: goto_after makes_same makes_trans [OF goto_after makes_spawn])

lemma makes_registered: "makes s (registered_step env t pcs s)"
  by (cases pcs) (auto simp: registered_step_def intro!: goto_after makes_same)


lemma makes_swap:
  assumes "srv_tasks s t = Some (GateWait g)"
  shows "makes s (swap_in t g s)"
proof -
  have "g \<in> gates s" using gates_task [OF assms] by simp
  then show ?thesis
    unfolding swap_in_def Let_def by (auto intro!: makes_goto makesI dest!: gates_goto gates_less)
qed

lemma makes_peek: "makes s (swap_in_peek t s)"
  unfolding swap_in_peek_def
  by (auto intro!: makes_goto makesI dest!: gates_goto split: option.split intro: gates_entry)

lemma makes_received: "makes s (handle_received env t m now s)"
  unfolding handle_received_def
  by (cases m) (auto intro!: makes_registered goto_after makes_goto makes_same split: prod.split sum.split)

lemma makes_greet: "makes s (greet env t g now s)"
  unfolding greet_def Let_def
  by (auto intro!: goto_after makes_same makes_trans [OF makes_same(12) makes_same(10)] makes_trans [OF makes_same(13) makes_same(10)]
      split: prod.split sum.split)

lemma makes_online: "g \<in> gates s \<Longrightarrow> makes s (go_online t g now s)"
  unfolding go_online_def
  by (auto intro!: goto_after makes_same makes_trans [OF makes_same(1) makes_same(10)] split: prod.split sum.split AgentRegisterError.split)

lemma makes_kick: "g \<in> gates s \<Longrightarrow> makes s (kick_session t sid g a now s)"
  unfolding kick_session_def Let_def by (auto intro!: goto_after makes_same split: prod.split)

lemma makes_kick_remove: "makes s (kick_remove t sid g a n now s)"
  unfolding kick_remove_def Let_def
  by (auto intro!: goto_after makes_trans [OF makes_same(11) makes_trans [OF makes_same(10) makes_same(1)]]
      makes_trans [OF makes_same(10) makes_same(1)])

lemma makes_remove: "makes s (remove_peek env t k now s)" "makes s (remove_if_current env t g k now s)"
proof -
  show "makes s (remove_peek env t k now s)"
    by (auto simp: remove_peek_def current_def intro!: makes_goto makes_removed intro: gates_entry split: option.splits)
  show "makes s (remove_if_current env t g k now s)"
    by (auto simp: remove_if_current_def Let_def intro!: makes_removed makes_trans [OF makes_same(11) makes_removed])
qed

lemma makes_data:
  "makes s (lookup_accepting t sid g a s)" "makes s (push_data_conn t a s)" "makes s (get_data_conn env t a now s)"
  "makes s (await_data_conn t a d now s)" "makes s (refill t a s)" "makes s (start_run env t s)"
  by (auto simp: lookup_accepting_def push_data_conn_def get_data_conn_def await_data_conn_def refill_def no_accepting_def start_run_def
      intro!: makes_goto goto_after makes_same makes_give split: list.split prod.split sum.split)

lemma makes_task_step:
  assumes t: "srv_tasks s t = Some pc"
  shows "makes s (task_step env t pc now s)"
proof -
  have in_pc: "gates_in pc \<subseteq> gates s" by (rule gates_task [OF t])
  show ?thesis
  proof (cases pc)
    case (Replacing g p)
    then show ?thesis
      using in_pc by (auto simp: replace_previous_def intro!: makes_goto goto_after makes_same split: option.split)
  next
    case (KickWait sid g a)
    then show ?thesis using in_pc by (auto simp: kick_locked_def intro!: makes_goto makesI dest!: gates_goto)
  next
    case (Closing n r)
    then show ?thesis by (auto intro!: goto_after makes_same)
  qed (use t in_pc in \<open>auto simp: makes_swap makes_peek makes_online makes_greet makes_registered makes_received makes_kick
      makes_kick_remove makes_remove makes_data intro!: makes_goto\<close>)
qed

lemma makes_begin: "makes s (register_control_begin env login ip short now s)"
proof -
  have rej: "makes s (reject_login env m (s\<lparr>srv_replay := r\<rparr>))" for m r
    by (auto intro!: makesI dest!: gates_spawn simp: reject_login_def)
  have new: "makes s (spawn Peeking ((set_ctl (srv_next s) c (s\<lparr>srv_replay := r\<rparr>))\<lparr>srv_next_generation := g\<rparr>))" for c r g
    by (auto intro!: makesI dest!: gates_spawn)
  show ?thesis unfolding register_control_begin_def Let_def using rej new by (auto split: prod.split sum.split)
qed

lemma makes_server_step: "makes s (server_step env ev s)"
proof (cases ev)
  case (Pair e now)
  show ?thesis
  proof (cases e)
    case (KickArrives sid)
    then show ?thesis
      by (auto simp: Pair kick_client_begin_def intro!: makes_spawn intro: gates_entry split: option.split)
  next
    case (DataArrives nw)
    then show ?thesis
      by (auto simp: Pair register_data_conn_begin_def Let_def no_accepting_def intro!: makes_spawn
          intro: gates_entry split: option.split sum.split)
  next
    case (Wakes t)
    then show ?thesis using makes_task_step by (auto simp: Pair split: option.split)
  qed (auto simp: Pair makes_begin receive_def run_ends_def intro!: makes_goto makes_spawn makes_same split: option.split)
qed

lemma serve_gates: "g \<in> gates (serve env now events) \<Longrightarrow> g < srv_next (serve env now events)"
  unfolding serve_def
proof (induction events arbitrary: g rule: rev_induct)
  case Nil
  then show ?case by (simp add: Service_new_def gates_def)
next
  case (snoc e es)
  then show ?case
    using makes_server_step [of "fold (server_step env) es (Service_new (env_cfg env) now)" env e]
    unfolding makes_def by (simp) (meson less_le_trans)
qed


section \<open>A login in a row\<close>

definition login_events :: "Login \<Rightarrow> string \<Rightarrow> string \<Rightarrow> nat \<Rightarrow> nat \<Rightarrow> moment \<Rightarrow> (server_event \<times> moment) list" where
  "login_events login ip short t n now = (LoginArrives login ip short, now) # replicate n (Wakes t, now)"

text \<open>A login passes authentication and its names are valid.\<close>

definition admits :: "server_env \<Rightarrow> Server \<Rightarrow> Login \<Rightarrow> string \<Rightarrow> moment \<Rightarrow> string \<Rightarrow> string \<Rightarrow> string \<Rightarrow> bool" where
  "admits env s login short now user agent sid \<longleftrightarrow>
     fst (verify_login (env_crypto env) (ac_token (sc_auth (env_cfg env))) (login_auth_digest login) (login_timestamp login)
       (unix_now_secs (ck_time (mo_clock now) * 1000000000)) (srv_replay s) (mo_instant now)) = Inr () \<and>
     sanitize_wire_id (login_user login) MAX_USER_LEN = Inr user \<and>
     sanitize_wire_id (login_agent_id login) MAX_AGENT_ID_LEN = Inr agent \<and> admitted_session_id short login = Inr sid"

lemma admitted_begin:
  assumes "admits env s login short now user agent sid" and c: "c = new_control env login user agent sid ip now s"
  obtains replay where "register_control_begin env login ip short now s =
      spawn Peeking ((set_ctl (srv_next s) c (s\<lparr>srv_replay := replay\<rparr>))\<lparr>srv_next_generation := srv_next_generation s + 1\<rparr>)"
proof -
  obtain replay where "verify_login (env_crypto env) (ac_token (sc_auth (env_cfg env))) (login_auth_digest login)
      (login_timestamp login) (unix_now_secs (ck_time (mo_clock now) * 1000000000)) (srv_replay s) (mo_instant now) = (Inr (), replay)"
    using assms(1) by (auto simp: admits_def prod_eq_iff)
  moreover have "c = new_control env login user agent sid ip now (s\<lparr>srv_replay := replay\<rparr>)" by (simp add: c new_control_def)
  ultimately show ?thesis using assms(1) that by (simp add: admits_def register_control_begin_def Let_def)
qed

lemmas task_defs = spawn_def goto_def set_ctl_def ctl_def swap_in_peek_def swap_in_def Let_def lock_def unlock_def replace_previous_def
  go_online_def greet_def send_login_ok_def ctl_write_def current_def

lemma login_run:
  assumes adm: "admits env s login short now user agent sid"
    and c: "c = new_control env login user agent sid ip now s"
    and free: "srv_controls s sid = None" and held: "Suc (srv_next s) \<notin> srv_held s"
    and online: "try_online (srv_agents s) (online_spec c) (mo_instant now) = (Inr key, agents)"
    and s': "s' = fold (server_step env) (login_events login ip short (srv_next s) 5 now) s"
  shows "srv_controls s' = (srv_controls s)(sid \<mapsto> \<lparr>se_control = srv_next s, se_gate = Suc (srv_next s)\<rparr>) \<and>
    srv_held s' = srv_held s \<and> srv_agents s' = agents \<and> srv_next s' = Suc (Suc (srv_next s)) \<and>
    srv_heap s' = (srv_heap s)(srv_next s \<mapsto> c\<lparr>co_out := [LoginResp \<lparr>lr_version = env_version env, lr_session_id = sid, lr_error = []\<rparr>],
      co_activated := True\<rparr>) \<and>
    srv_tasks s' = (srv_tasks s)(srv_next s \<mapsto> Starting)"
proof -
  have co: "co_session_id c = sid" "co_writer_open c" "co_out c = []" by (simp_all add: c new_control_def Control_new_def)
  obtain replay where b: "register_control_begin env login ip short now s =
      spawn Peeking ((set_ctl (srv_next s) c (s\<lparr>srv_replay := replay\<rparr>))\<lparr>srv_next_generation := srv_next_generation s + 1\<rparr>)"
    by (rule admitted_begin [OF adm c])
  show ?thesis
    using held free online co
    by (simp add: s' login_events_def b numeral_eq_Suc task_defs insert_Diff_if fun_upd_twist)
qed

text \<open>C4. A login with a valid digest and valid names whose session id is not in use and whose agent is not
  online elsewhere completes in five steps of its task, in every reachable state: the session is in the table,
  its gate is free again, the agent is registered, the client has the answer and data connections are accepted.\<close>

theorem login_completes:
  assumes s: "s = serve env start events"
    and adm: "admits env s login short now user agent sid"
    and free: "srv_controls s sid = None"
    and c: "c = new_control env login user agent sid ip now s"
    and online: "try_online (srv_agents s) (online_spec c) (mo_instant now) = (Inr key, agents)"
    and s': "s' = serve env start (events @ login_events login ip short (srv_next s) 5 now)"
  shows "srv_controls s' = (srv_controls s)(sid \<mapsto> \<lparr>se_control = srv_next s, se_gate = Suc (srv_next s)\<rparr>) \<and>
    Suc (srv_next s) \<notin> srv_held s' \<and> srv_agents s' = agents \<and>
    srv_heap s' = (srv_heap s)(srv_next s \<mapsto> c\<lparr>co_out := [LoginResp \<lparr>lr_version = env_version env, lr_session_id = sid, lr_error = []\<rparr>],
      co_activated := True\<rparr>) \<and>
    srv_tasks s' = (srv_tasks s)(srv_next s \<mapsto> Starting)"
proof -
  have held: "Suc (srv_next s) \<notin> srv_held s"
    using serve_gates [of "Suc (srv_next s)" env start events] by (auto simp: s [symmetric] gates_def)
  have "s' = fold (server_step env) (login_events login ip short (srv_next s) 5 now) s"
    by (simp add: s' s serve_def)
  with login_run [OF adm c free held online] held show ?thesis by simp
qed

definition demo_env :: server_env where
  "demo_env = \<lparr>env_cfg = ServerConfig_default, env_version = ''1'',
     env_crypto = \<lparr>hmac_sha256 = (\<lambda>_ _. []), verify_slice = (\<lambda>_ _. True), hex_encode = (\<lambda>_. []), hex_decode = (\<lambda>_. Some [])\<rparr>,
     env_bind = (\<lambda>_ _. None), env_to_string = (\<lambda>_. ''error'')\<rparr>"

lemma demo_version: "env_version demo_env = ''1''"
  by (simp add: demo_env_def)

definition demo_now :: moment where
  "demo_now = \<lparr>mo_instant = 0, mo_clock = \<lparr>ck_date = 0, ck_time = 1000, ck_offset = 0\<rparr>\<rparr>"

definition demo_login :: "string \<Rightarrow> string \<Rightarrow> Login" where
  "demo_login agent sid =
     \<lparr>login_version = [], login_hostname = [], login_os = [], login_arch = [], login_user = [], login_agent_id = agent,
      login_auth_digest = [], login_timestamp = 0, login_session_id = sid, login_pool_count = 1\<rparr>"

lemma demo_admits:
  "admits demo_env s (demo_login ''x'' ''s'') [] now [] ''x'' ''s''" "admits demo_env s (demo_login ''y'' ''t'') [] now [] ''y'' ''t''"
  "admits demo_env s (demo_login ''y'' ''s'') [] now [] ''y'' ''s''"
proof -
  have trim: "trim [] = []" "trim ''x'' = ''x''" "trim ''y'' = ''y''" "trim ''s'' = ''s''" "trim ''t'' = ''t''" by code_simp+
  have ctrl: "\<not> has_control ''x''" "\<not> has_control ''y''" "\<not> has_control ''s''" "\<not> has_control ''t''" by code_simp+
  note defs = admits_def demo_env_def demo_login_def verify_login_def verify_auth_digest_def sanitize_wire_id_def admitted_session_id_def
    MAX_USER_LEN_def MAX_AGENT_ID_LEN_def MAX_SESSION_ID_LEN_def ServerConfig_default_def Let_def trim ctrl
  show "admits demo_env s (demo_login ''x'' ''s'') [] now [] ''x'' ''s''" "admits demo_env s (demo_login ''y'' ''t'') [] now [] ''y'' ''t''"
    "admits demo_env s (demo_login ''y'' ''s'') [] now [] ''y'' ''s''"
    by (simp_all add: defs del: has_control.simps)
qed

abbreviation demo_serve :: "(server_event \<times> moment) list \<Rightarrow> Server" where
  "demo_serve events \<equiv> serve demo_env (mo_clock demo_now) events"

theorem login_completes_witness:
  "\<exists>c. srv_heap (demo_serve (login_events (demo_login ''x'' ''s'') [] [] 0 5 demo_now)) 0 = Some c \<and> is_accepting_data c \<and>
    co_out c = [LoginResp \<lparr>lr_version = ''1'', lr_session_id = ''s'', lr_error = []\<rparr>]"
proof -
  let ?s = "demo_serve []" and ?l = "demo_login ''x'' ''s''"
  let ?c = "new_control demo_env ?l [] ''x'' ''s'' [] demo_now ?s"
  have s: "srv_next ?s = 0" "srv_controls ?s ''s'' = None" "srv_agents ?s = AgentRegistry_new"
    by (simp_all add: serve_def Service_new_def)
  obtain k r where on: "try_online (srv_agents ?s) (online_spec ?c) (mo_instant demo_now) = (Inr k, r)"
    by (simp add: s try_online_def AgentRegistry_new_def Let_def)
  have "srv_heap (demo_serve ([] @ login_events ?l [] [] (srv_next ?s) 5 demo_now)) = (srv_heap ?s)(srv_next ?s \<mapsto>
      ?c\<lparr>co_out := [LoginResp \<lparr>lr_version = env_version demo_env, lr_session_id = ''s'', lr_error = []\<rparr>], co_activated := True\<rparr>)"
    using login_completes [OF refl demo_admits(1) s(2) refl on refl] by blast
  then show ?thesis
    by (simp add: s demo_version is_accepting_data_def is_closed_def new_control_def Control_new_def)
qed


section \<open>A refused login that has already replaced a session\<close>

text \<open>The conflict is found after the session table was changed and the old session was shut down.\<close>

definition conflict_events :: "nat \<Rightarrow> nat \<Rightarrow> moment \<Rightarrow> (server_event \<times> moment) list" where
  "conflict_events t old now = replicate 3 (Wakes t, now) @ (ReadEnds old, now) # replicate 3 (Wakes old, now)"

lemma conflict_login_steps:
  assumes t: "srv_tasks s t = Some (Onlining g)" "srv_heap s t = Some c"
      "srv_controls s (co_session_id c) = Some \<lparr>se_control = t, se_gate = g\<rparr>"
    and conflict: "try_online (srv_agents s) (online_spec c) (mo_instant now) = (Inl Conflict, agents)"
    and s': "s' = fold (server_step env) (replicate 3 (Wakes t, now)) s"
  shows "srv_controls s' = (srv_controls s)(co_session_id c := None) \<and> srv_agents s' = srv_agents s \<and>
    srv_tasks s' = (srv_tasks s)(t \<mapsto> TaskDone (Inl (conflict_text c))) \<and> (\<forall>a. a \<noteq> t \<longrightarrow> srv_heap s' a = srv_heap s a)"
proof -
  have agents: "agents = srv_agents s" using conflict by (auto simp: try_online_def Let_def split: if_splits)
  show ?thesis
    using assms
    by (simp add: agents numeral_eq_Suc go_online_def goto_def unlock_def ctl_def remove_peek_def current_def remove_if_current_def
        after_removed_def Let_def shutdown_ctl_def set_ctl_def split: prod.split)
qed

lemma ended_session_steps:
  assumes o: "srv_tasks s old = Some (Serving Idle)" "srv_heap s old = Some d" "\<not> current s (co_session_id d) old"
    and s': "s' = fold (server_step env) ((ReadEnds old, now) # replicate 3 (Wakes old, now)) s"
  shows "srv_controls s' = srv_controls s \<and> srv_agents s' = srv_agents s \<and> srv_tasks s' = (srv_tasks s)(old \<mapsto> TaskDone (Inr ()))"
proof -
  obtain d' sh where sd: "shutdown (mo_clock now) d (srv_shared s) = (d', sh)" by fastforce
  then have "co_session_id d' = co_session_id d" using shutdown_evolves [OF sd] by (simp add: evolves_def)
  then show ?thesis
    using o sd by (simp add: s' numeral_eq_Suc run_ends_def goto_def ctl_def shutdown_ctl_def set_ctl_def remove_peek_def
        current_def after_removed_def Let_def)
qed

text \<open>C36. A login can leave an agent online that has no session. When the agent of a login turns out to be online
  elsewhere, the login has already taken the table entry of the session with its id and shut that session
  down; it then takes itself out of the table. The old session is no longer in the table when it ends and does not
  release its agent: both tasks are over, the table has no session of that id, and the registry of agents is
  what it was, with the old session's agent online.\<close>

theorem conflict_strands_agent:
  assumes s: "s = serve env start events"
    and t: "srv_tasks s t = Some (Onlining g)" "srv_heap s t = Some c"
    and old: "srv_tasks s old = Some (Serving Idle)" "srv_heap s old = Some d" "co_session_id d = co_session_id c"
    and conflict: "fst (try_online (srv_agents s) (online_spec c) (mo_instant now)) = Inl Conflict"
    and s': "s' = serve env start (events @ conflict_events t old now)"
  shows "srv_controls s' (co_session_id c) = None \<and> srv_agents s' = srv_agents s \<and>
    srv_tasks s' t = Some (TaskDone (Inl (conflict_text c))) \<and> srv_tasks s' old = Some (TaskDone (Inr ()))"
proof -
  obtain agents where conf: "try_online (srv_agents s) (online_spec c) (mo_instant now) = (Inl Conflict, agents)"
    using conflict by (metis prod.collapse)
  have entry: "srv_controls s (co_session_id c) = Some \<lparr>se_control = t, se_gate = g\<rparr>"
    using srv_ok_task [OF serve_ok t(1) [unfolded s]] t(2) by (auto simp: in_table_def s)
  let ?m = "fold (server_step env) (replicate 3 (Wakes t, now)) s"
  have ne: "old \<noteq> t" using t old by auto
  note m = conflict_login_steps [OF t entry conf refl, of env]
  have "srv_tasks ?m old = Some (Serving Idle)" "srv_heap ?m old = Some d" "\<not> current ?m (co_session_id d) old"
    using m ne old by (simp_all add: current_def)
  from ended_session_steps [OF this refl, of env now] m ne show ?thesis
    by (simp add: s' conflict_events_def serve_def s)
qed


text \<open>The state of the theorem: \<open>x\<close> is online in session \<open>s\<close>, \<open>y\<close> in session \<open>t\<close>, and a login of \<open>y\<close> with the id \<open>s\<close> has just
  shut down the first session.\<close>

lemma replacing_run:
  assumes adm: "admits env s login short now user agent sid" and c: "c = new_control env login user agent sid ip now s"
    and old: "srv_controls s sid = Some \<lparr>se_control = old, se_gate = g\<rparr>" "g \<notin> srv_held s" "srv_heap s old = Some d"
      "old \<noteq> srv_next s"
    and s': "s' = fold (server_step env) (login_events login ip short (srv_next s) 3 now) s"
  shows "srv_agents s' = srv_agents s \<and> srv_tasks s' = (srv_tasks s)(srv_next s \<mapsto> Onlining g) \<and>
    srv_heap s' (srv_next s) = Some c \<and> (\<exists>d'. srv_heap s' old = Some d' \<and> co_session_id d' = co_session_id d)"
proof -
  have co: "co_session_id c = sid" by (simp add: c new_control_def Control_new_def)
  obtain replay where b: "register_control_begin env login ip short now s =
      spawn Peeking ((set_ctl (srv_next s) c (s\<lparr>srv_replay := replay\<rparr>))\<lparr>srv_next_generation := srv_next_generation s + 1\<rparr>)"
    by (rule admitted_begin [OF adm c])
  obtain d' sh where sd: "shutdown (mo_clock now) d (srv_shared s) = (d', sh)" by fastforce
  then have "co_session_id d' = co_session_id d" using shutdown_evolves [OF sd] by (simp add: evolves_def)
  then show ?thesis
    using old co sd by (simp add: s' login_events_def b numeral_eq_Suc task_defs shutdown_ctl_def)
qed

lemma first_session:
  assumes s: "s = demo_serve (login_events (demo_login ''x'' ''s'') [] [] 0 5 demo_now @ [(Wakes 0, demo_now)])"
  shows "srv_controls s = [''s'' \<mapsto> \<lparr>se_control = 0, se_gate = 1\<rparr>] \<and> srv_held s = {} \<and> srv_next s = 2 \<and>
    (\<exists>d. srv_heap s 0 = Some d \<and> co_session_id d = ''s'') \<and> srv_tasks s 0 = Some (Serving Idle) \<and>
    by_key (srv_agents s) ''y'' = None \<and> by_session (srv_agents s) ''t'' = None \<and>
    map_option (\<lambda>e. (ae_online e, ae_session_id e)) (by_key (srv_agents s) ''x'') = Some (True, ''s'')"
proof -
  let ?s = "demo_serve []" and ?l = "demo_login ''x'' ''s''"
  let ?c = "new_control demo_env ?l [] ''x'' ''s'' [] demo_now ?s"
  have s0: "srv_next ?s = 0" "srv_controls ?s = Map.empty" "srv_agents ?s = AgentRegistry_new" "srv_held ?s = {}" "srv_tasks ?s = Map.empty"
    by (simp_all add: serve_def Service_new_def)
  obtain r where on: "try_online (srv_agents ?s) (online_spec ?c) (mo_instant demo_now) = (Inr ''x'', r)"
    and r: "by_key r ''y'' = None" "by_session r ''t'' = None"
      "map_option (\<lambda>e. (ae_online e, ae_session_id e)) (by_key r ''x'') = Some (True, ''s'')"
    by (simp add: s0 try_online_def AgentRegistry_new_def Let_def spec_key_def compose_key_def online_spec_def new_control_def
        Control_new_def take_entry_def leave_previous_def online_entry_def)
  define m where "m = demo_serve (login_events ?l [] [] 0 5 demo_now)"
  have m': "m = fold (server_step demo_env) (login_events ?l [] [] (srv_next ?s) 5 demo_now) ?s"
    by (simp add: m_def s0) (simp add: serve_def)
  note m = login_run [OF demo_admits(1) refl _ _ on m']
  obtain c where c: "srv_heap m 0 = Some c" "co_session_id c = ''s''" "\<not> co_closed c" "co_writer_open c"
    using m by (simp add: s0 new_control_def Control_new_def)
  have pool: "\<exists>c'. request_pool n c = (Inr (), c') \<and> co_session_id c' = ''s''" if "co_session_id c = ''s''" "\<not> co_closed c" "co_writer_open c" for n c
    using that by (induction n arbitrary: c) (auto simp: request_data_conn_def ctl_write_def)
  obtain c' where c': "request_pool (co_pool_count c) c = (Inr (), c')" "co_session_id c' = ''s''"
    using pool [OF c(2-4)] by blast
  have fields: "srv_controls m = [''s'' \<mapsto> \<lparr>se_control = 0, se_gate = 1\<rparr>]" "srv_held m = {}" "srv_next m = 2" "srv_agents m = r"
    "srv_tasks m 0 = Some Starting"
    using m by (simp_all add: s0)
  have "s = server_step demo_env (Wakes 0, demo_now) m" by (simp add: s m_def serve_def)
  then have "s = goto 0 (Serving Idle) (set_ctl 0 c' m)" using c c' fields(5) by (simp add: start_run_def ctl_def)
  with fields c' r show ?thesis by (simp add: goto_def set_ctl_def)
qed

definition stranding :: "(server_event \<times> moment) list" where
  "stranding = (login_events (demo_login ''x'' ''s'') [] [] 0 5 demo_now @ [(Wakes 0, demo_now)]) @
     login_events (demo_login ''y'' ''t'') [] [] 2 5 demo_now @ login_events (demo_login ''y'' ''s'') [] [] 4 3 demo_now"

lemma stranding_state:
  obtains c d where "srv_tasks (demo_serve stranding) 4 = Some (Onlining 1)" "srv_heap (demo_serve stranding) 4 = Some c"
    "srv_tasks (demo_serve stranding) 0 = Some (Serving Idle)" "srv_heap (demo_serve stranding) 0 = Some d"
    "co_session_id c = ''s''" "co_session_id d = ''s''"
    "fst (try_online (srv_agents (demo_serve stranding)) (online_spec c) (mo_instant demo_now)) = Inl Conflict"
    "map_option (\<lambda>e. (ae_online e, ae_session_id e)) (by_key (srv_agents (demo_serve stranding)) ''x'') = Some (True, ''s'')"
proof -
  define s where "s = demo_serve (login_events (demo_login ''x'' ''s'') [] [] 0 5 demo_now @ [(Wakes 0, demo_now)])"
  note s = first_session [OF s_def]
  let ?c = "new_control demo_env (demo_login ''y'' ''t'') [] ''y'' ''t'' [] demo_now s"
  obtain r where on: "try_online (srv_agents s) (online_spec ?c) (mo_instant demo_now) = (Inr ''y'', r)"
    and r: "by_key r ''x'' = by_key (srv_agents s) ''x''"
      "map_option (\<lambda>e. (ae_online e, ae_session_id e)) (by_key r ''y'') = Some (True, ''t'')"
    using s by (simp add: try_online_def Let_def spec_key_def compose_key_def online_spec_def new_control_def
        Control_new_def take_entry_def leave_previous_def online_entry_def)
  define u where "u = fold (server_step demo_env) (login_events (demo_login ''y'' ''t'') [] [] (srv_next s) 5 demo_now) s"
  note u = login_run [OF demo_admits(2) refl _ _ on u_def]
  obtain d where d: "srv_heap u 0 = Some d" "co_session_id d = ''s''" using s u by auto
  have u1: "srv_controls u ''s'' = Some \<lparr>se_control = 0, se_gate = 1\<rparr>" "1 \<notin> srv_held u" "(0::nat) \<noteq> srv_next u" "srv_next u = 4"
    using s u by auto
  define v where "v = fold (server_step demo_env) (login_events (demo_login ''y'' ''s'') [] [] (srv_next u) 3 demo_now) u"
  let ?c' = "new_control demo_env (demo_login ''y'' ''s'') [] ''y'' ''s'' [] demo_now u"
  note v = replacing_run [OF demo_admits(3) refl u1(1,2) d(1) u1(3) v_def]
  have ev: "demo_serve stranding = v"
    using s u1(4) by (simp add: stranding_def v_def u_def s_def serve_def)
  show thesis
    using that [of ?c'] s u v u1 d r
    by (auto simp: ev try_online_def Let_def spec_key_def compose_key_def online_spec_def new_control_def Control_new_def)
qed

theorem conflict_strands_agent_witness:
  "map_option (\<lambda>e. (ae_online e, ae_session_id e))
     (by_key (srv_agents (demo_serve (stranding @ conflict_events 4 0 demo_now))) ''x'') = Some (True, ''s'') \<and>
   srv_controls (demo_serve (stranding @ conflict_events 4 0 demo_now)) ''s'' = None"
proof -
  obtain c d where e: "srv_tasks (demo_serve stranding) 4 = Some (Onlining 1)" "srv_heap (demo_serve stranding) 4 = Some c"
    "srv_tasks (demo_serve stranding) 0 = Some (Serving Idle)" "srv_heap (demo_serve stranding) 0 = Some d"
    "co_session_id c = ''s''" "co_session_id d = ''s''"
    "fst (try_online (srv_agents (demo_serve stranding)) (online_spec c) (mo_instant demo_now)) = Inl Conflict"
    "map_option (\<lambda>e. (ae_online e, ae_session_id e)) (by_key (srv_agents (demo_serve stranding)) ''x'') = Some (True, ''s'')"
    by (rule stranding_state)
  have "co_session_id d = co_session_id c" using e by simp
  from conflict_strands_agent [OF refl e(1-4) this e(7) refl] e(5,8) show ?thesis by simp
qed

end
