(* ===== verification/Limited_Stream.thy ===== *)
theory Limited_Stream
  imports Bandwidth
begin

text \<open>
  The token bucket (\<open>core/src/limit/token_bucket.rs\<close>) and the stream that spends its tokens
  (\<open>core/src/limit/stream.rs\<close>). The arithmetic of the bucket is that of double precision on rational
  numbers. A poll of a stream is a function of the stream, the bucket and what the inner
  stream answers in this poll; every clock read of one poll sees the same instant.
\<close>

section \<open>The token bucket\<close>

record TokenBucket =
  tb_rate :: rat
  tb_burst :: rat
  tb_tokens :: rat
  tb_last :: nat

definition F64_EPSILON :: rat where "F64_EPSILON = 1 / 2 ^ 52"

definition as_secs_f64 :: "nat \<Rightarrow> rat" where
  "as_secs_f64 nanos =
     f64_round (f64_round (of_nat (nanos div 1000000000)) + f64_round (of_nat (nanos mod 1000000000) / 1000000000))"

definition TokenBucket_new :: "BandwidthLimiter \<Rightarrow> nat \<Rightarrow> TokenBucket" where
  "TokenBucket_new bytes_per_sec now =
     (let b = f64_round (of_nat (unat (max bytes_per_sec 1)))
      in \<lparr>tb_rate = b, tb_burst = b, tb_tokens = b, tb_last = now\<rparr>)"

definition burst :: "TokenBucket \<Rightarrow> nat" where
  "burst b = min (nat \<lfloor>tb_burst b\<rfloor>) (2 ^ 64 - 1)"

definition bytes_per_sec :: "TokenBucket \<Rightarrow> u64" where
  "bytes_per_sec b = (if 2 ^ 64 \<le> \<lfloor>tb_rate b\<rfloor> then - 1 else word_of_int \<lfloor>tb_rate b\<rfloor>)"

definition bucket_refill :: "nat \<Rightarrow> TokenBucket \<Rightarrow> TokenBucket" where
  "bucket_refill now b =
     b\<lparr>tb_last := now,
       tb_tokens := min (f64_round (tb_tokens b + f64_round (as_secs_f64 (now - tb_last b) * tb_rate b))) (tb_burst b)\<rparr>"

definition try_wait_n :: "nat \<Rightarrow> nat \<Rightarrow> TokenBucket \<Rightarrow> bool \<times> TokenBucket" where
  "try_wait_n n now b =
     (if n = 0 then (True, b)
      else let x = f64_round (of_nat n)
           in if f64_round (tb_burst b + F64_EPSILON) < x then (False, b)
              else let b = bucket_refill now b
                   in if x \<le> tb_tokens b then (True, b\<lparr>tb_tokens := f64_round (tb_tokens b - x)\<rparr>) else (False, b))"

definition return_n :: "nat \<Rightarrow> nat \<Rightarrow> TokenBucket \<Rightarrow> TokenBucket" where
  "return_n n now b =
     (if n = 0 then b
      else let b = bucket_refill now b
           in b\<lparr>tb_tokens := min (f64_round (tb_tokens b + f64_round (of_nat n))) (tb_burst b)\<rparr>)"

text \<open>The future of \<open>wait_n\<close> is what remains to be taken; a poll is one round of its loop, after which it is ready or
  sleeps. \<open>wait_begin\<close> is the check for no bytes at all.\<close>

definition wait_begin :: "nat \<Rightarrow> rat" where
  "wait_begin n = f64_round (of_nat n)"

definition wait_poll :: "nat \<Rightarrow> rat \<Rightarrow> TokenBucket \<Rightarrow> rat \<times> TokenBucket" where
  "wait_poll now remaining b =
     (if remaining \<le> F64_EPSILON then (remaining, b)
      else let want = min remaining (tb_burst b); b = bucket_refill now b
           in if want \<le> tb_tokens b
              then (f64_round (remaining - want), b\<lparr>tb_tokens := f64_round (tb_tokens b - want)\<rparr>)
              else (remaining, b))"

definition wait_done :: "rat \<Rightarrow> bool" where
  "wait_done remaining \<longleftrightarrow> remaining \<le> F64_EPSILON"

text \<open>The sleep of a round that did not get its tokens, in seconds.\<close>

definition sleep_secs :: "rat \<Rightarrow> TokenBucket \<Rightarrow> rat" where
  "sleep_secs remaining b =
     max (f64_round (f64_round (min remaining (tb_burst b) - tb_tokens b) / tb_rate b)) (f64_round (1 / 1000000))"

section \<open>The stream\<close>

datatype 'a poll = Pending | Ready 'a

datatype io_error = InnerError string | WriteZero

type_synonym bytes = "u8 list"

datatype read_phase = RIdle | RWait bytes nat rat | RDeliver bytes nat

datatype write_phase = WIdle | WWait rat nat | WWrite nat nat

record LimitedStream =
  ls_read_phase :: read_phase
  ls_write_pending :: bytes
  ls_write_report :: nat
  ls_write_phase :: write_phase

definition MAX_IO_CHUNK :: nat where "MAX_IO_CHUNK = 256 * 1024"

definition LimitedStream_new :: LimitedStream where
  "LimitedStream_new = \<lparr>ls_read_phase = RIdle, ls_write_pending = [], ls_write_report = 0, ls_write_phase = WIdle\<rparr>"

definition io_chunk_cap :: "TokenBucket \<Rightarrow> nat" where
  "io_chunk_cap b = min (max (burst b) 1) MAX_IO_CHUNK"

definition maybe_limit :: "BandwidthLimiter option \<Rightarrow> LimitedStream option" where
  "maybe_limit limiter = map_option (\<lambda>_. LimitedStream_new) limiter"

subsection \<open>Reading\<close>

definition deliver :: "bytes \<Rightarrow> nat \<Rightarrow> nat \<Rightarrow> LimitedStream \<Rightarrow> (io_error + bytes) poll \<times> LimitedStream" where
  "deliver data off cap s =
     (let avail = drop off data; n = min (length avail) cap
      in (Ready (Inr (take n avail)),
          s\<lparr>ls_read_phase := (if off + n < length data then RDeliver data (off + n) else RIdle)\<rparr>))"

definition poll_read_wait ::
    "bytes \<Rightarrow> nat \<Rightarrow> rat \<Rightarrow> nat \<Rightarrow> nat \<Rightarrow> LimitedStream \<Rightarrow> TokenBucket \<Rightarrow>
     (io_error + bytes) poll \<times> LimitedStream \<times> TokenBucket" where
  "poll_read_wait data off remaining now cap s b =
     (case wait_poll now remaining b of
        (remaining, b) \<Rightarrow>
          if wait_done remaining then (case deliver data off cap s of (r, s) \<Rightarrow> (r, s, b))
          else (Pending, s\<lparr>ls_read_phase := RWait data off remaining\<rparr>, b))"

text \<open>\<open>inner\<close> is the answer of the inner stream to a read of so many bytes; \<open>cap\<close> the room in the caller's buffer.\<close>

definition poll_read ::
    "(nat \<Rightarrow> (io_error + bytes) poll) \<Rightarrow> nat \<Rightarrow> nat \<Rightarrow> LimitedStream \<Rightarrow> TokenBucket \<Rightarrow>
     (io_error + bytes) poll \<times> LimitedStream \<times> TokenBucket" where
  "poll_read inner now cap s b =
     (case ls_read_phase s of
        RWait data off remaining \<Rightarrow> poll_read_wait data off remaining now cap s b
      | RDeliver data off \<Rightarrow> (case deliver data off cap s of (r, s) \<Rightarrow> (r, s, b))
      | RIdle \<Rightarrow>
          let want = min cap (io_chunk_cap b)
          in if want = 0 then (Ready (Inr []), s, b)
             else (case try_wait_n want now b of
                (True, b) \<Rightarrow>
                  (case inner want of
                     Pending \<Rightarrow> (Pending, s, return_n want now b)
                   | Ready (Inl e) \<Rightarrow> (Ready (Inl e), s, return_n want now b)
                   | Ready (Inr data) \<Rightarrow>
                       (Ready (Inr data), s, if length data < want then return_n (want - length data) now b else b))
              | (False, b) \<Rightarrow>
                  (case inner want of
                     Pending \<Rightarrow> (Pending, s, b)
                   | Ready (Inl e) \<Rightarrow> (Ready (Inl e), s, b)
                   | Ready (Inr data) \<Rightarrow>
                       if data = [] then (Ready (Inr []), s, b)
                       else (case try_wait_n (length data) now b of
                               (True, b) \<Rightarrow> (Ready (Inr data), s, b)
                             | (False, b) \<Rightarrow> poll_read_wait data 0 (wait_begin (length data)) now cap s b))))"

subsection \<open>Writing\<close>

text \<open>The answers of the inner stream within a poll are a list; when it is used up the inner stream is pending. The last
  component is what the inner stream was given.\<close>

fun phase_rank :: "bytes \<Rightarrow> write_phase \<Rightarrow> nat" where
  "phase_rank p WIdle = (if p = [] then 0 else 2)"
| "phase_rank p (WWait r c) = (if c = 0 \<or> p = [] then 4 else 1)"
| "phase_rank p (WWrite c w) = (if c = 0 \<or> p = [] then 3 else 0)"

lemma io_chunk_cap_pos: "0 < io_chunk_cap b"
  by (simp add: io_chunk_cap_def MAX_IO_CHUNK_def)

definition write_failed :: "io_error \<Rightarrow> LimitedStream \<Rightarrow> (io_error + nat) poll \<times> LimitedStream" where
  "write_failed e s = (Ready (Inl e), s\<lparr>ls_write_pending := [], ls_write_phase := WIdle, ls_write_report := 0\<rparr>)"

function write_loop ::
    "nat \<Rightarrow> (io_error + nat) poll list \<Rightarrow> LimitedStream \<Rightarrow> TokenBucket \<Rightarrow>
     (io_error + nat) poll \<times> LimitedStream \<times> TokenBucket \<times> bytes" where
  "write_loop now rs s b =
     (let p = ls_write_pending s
      in case ls_write_phase s of
        WIdle \<Rightarrow>
          if p = [] then (Ready (Inr (ls_write_report s)), s\<lparr>ls_write_report := 0\<rparr>, b, [])
          else let chunk = min (length p) (io_chunk_cap b)
               in (case try_wait_n chunk now b of
                     (True, b') \<Rightarrow> write_loop now rs (s\<lparr>ls_write_phase := WWrite chunk 0\<rparr>) b'
                   | (False, b') \<Rightarrow> write_loop now rs (s\<lparr>ls_write_phase := WWait (wait_begin chunk) chunk\<rparr>) b')
      | WWait remaining chunk \<Rightarrow>
          (case wait_poll now remaining b of
             (remaining', b') \<Rightarrow>
               if wait_done remaining' then write_loop now rs (s\<lparr>ls_write_phase := WWrite chunk 0\<rparr>) b'
               else (Pending, s\<lparr>ls_write_phase := WWait remaining' chunk\<rparr>, b', []))
      | WWrite chunk0 written \<Rightarrow>
          let chunk = min chunk0 (length p)
          in if chunk \<le> written
             then write_loop now rs (s\<lparr>ls_write_pending := drop chunk p, ls_write_phase := WIdle\<rparr>) b
             else (case rs of
                     [] \<Rightarrow> (Pending, s, b, [])
                   | Pending # _ \<Rightarrow> (Pending, s, b, [])
                   | Ready (Inl e) # _ \<Rightarrow> (case write_failed e s of (r, s) \<Rightarrow> (r, s, b, []))
                   | Ready (Inr n) # rs' \<Rightarrow>
                       if n = 0 then (case write_failed WriteZero s of (r, s) \<Rightarrow> (r, s, b, []))
                       else let sent = take n (drop written (take chunk p));
                                s' = (if chunk \<le> written + n
                                      then s\<lparr>ls_write_pending := drop chunk p, ls_write_phase := WIdle\<rparr>
                                      else s\<lparr>ls_write_phase := WWrite chunk (written + n)\<rparr>)
                            in (case write_loop now rs' s' b of (r, s'', b', out) \<Rightarrow> (r, s'', b', sent @ out))))"
  by pat_completeness auto
termination
proof (relation "measures [\<lambda>(now, rs, s, b). length rs, \<lambda>(now, rs, s, b). length (ls_write_pending s),
    \<lambda>(now, rs, s, b). phase_rank (ls_write_pending s) (ls_write_phase s)]", goal_cases)
qed (use io_chunk_cap_pos in \<open>auto simp: min_def not_less\<close>)

definition poll_write ::
    "nat \<Rightarrow> (io_error + nat) poll list \<Rightarrow> bytes \<Rightarrow> LimitedStream \<Rightarrow> TokenBucket \<Rightarrow>
     (io_error + nat) poll \<times> LimitedStream \<times> TokenBucket \<times> bytes" where
  "poll_write now rs buf s b =
     (case ls_write_phase s of
        WIdle \<Rightarrow>
          if ls_write_pending s = [] then
            if buf = [] then (Ready (Inr 0), s, b, [])
            else let taken = min (length buf) (io_chunk_cap b)
                 in write_loop now rs (s\<lparr>ls_write_report := taken, ls_write_pending := take taken buf\<rparr>) b
          else write_loop now rs s b
      | _ \<Rightarrow> write_loop now rs s b)"


text \<open>\<open>poll_flush\<close> writes what is pending first; \<open>inner\<close> is the answer of the inner stream's flush (shutdown).\<close>

definition poll_flush ::
    "nat \<Rightarrow> (io_error + nat) poll list \<Rightarrow> (io_error + unit) poll \<Rightarrow> LimitedStream \<Rightarrow> TokenBucket \<Rightarrow>
     (io_error + unit) poll \<times> LimitedStream \<times> TokenBucket \<times> bytes" where
  "poll_flush now rs inner s b =
     (if ls_write_pending s = [] \<and> (case ls_write_phase s of WIdle \<Rightarrow> True | _ \<Rightarrow> False) then (inner, s, b, [])
      else (case poll_write now rs [] s b of
              (Pending, s, b, out) \<Rightarrow> (Pending, s, b, out)
            | (Ready (Inl e), s, b, out) \<Rightarrow> (Ready (Inl e), s, b, out)
            | (Ready (Inr _), s, b, out) \<Rightarrow> (inner, s, b, out)))"

definition poll_shutdown ::
    "nat \<Rightarrow> (io_error + nat) poll list \<Rightarrow> (io_error + unit) poll \<Rightarrow> (io_error + unit) poll \<Rightarrow> LimitedStream \<Rightarrow> TokenBucket \<Rightarrow>
     (io_error + unit) poll \<times> LimitedStream \<times> TokenBucket \<times> bytes" where
  "poll_shutdown now rs flush inner s b =
     (case poll_flush now rs flush s b of
        (Ready (Inr _), s, b, out) \<Rightarrow> (inner, s, b, out)
      | r \<Rightarrow> r)"

declare write_loop.simps [simp del]

section \<open>Reading is transparent\<close>

text \<open>What the stream holds back, and what a poll takes from the inner stream.\<close>

fun held_back :: "read_phase \<Rightarrow> bytes" where
  "held_back RIdle = []"
| "held_back (RWait data off r) = drop off data"
| "held_back (RDeliver data off) = drop off data"

definition taken :: "(nat \<Rightarrow> (io_error + bytes) poll) \<Rightarrow> nat \<Rightarrow> LimitedStream \<Rightarrow> TokenBucket \<Rightarrow> bytes" where
  "taken inner cap s b =
     (case ls_read_phase s of
        RIdle \<Rightarrow> if min cap (io_chunk_cap b) = 0 then []
                 else (case inner (min cap (io_chunk_cap b)) of Ready (Inr data) \<Rightarrow> data | _ \<Rightarrow> [])
      | _ \<Rightarrow> [])"

fun delivered :: "(io_error + bytes) poll \<Rightarrow> bytes" where
  "delivered (Ready (Inr data)) = data"
| "delivered _ = []"

fun read_polls ::
    "((nat \<Rightarrow> (io_error + bytes) poll) \<times> nat \<times> nat) list \<Rightarrow> LimitedStream \<Rightarrow> TokenBucket \<Rightarrow>
     bytes \<times> bytes \<times> LimitedStream \<times> TokenBucket" where
  "read_polls [] s b = ([], [], s, b)"
| "read_polls ((inner, now, cap) # ps) s b =
     (case poll_read inner now cap s b of (r, s', b') \<Rightarrow>
        (case read_polls ps s' b' of (out, got, s'', b'') \<Rightarrow> (delivered r @ out, taken inner cap s b @ got, s'', b'')))"

lemma deliver_bytes: "deliver data off cap s = (r, s') \<Longrightarrow> delivered r @ held_back (ls_read_phase s') = drop off data"
  by (auto simp: deliver_def Let_def min_def split: if_splits) (metis append_take_drop_id drop_drop add.commute)

lemma poll_read_wait_bytes:
  "poll_read_wait data off rem now cap s b = (r, s', b') \<Longrightarrow> delivered r @ held_back (ls_read_phase s') = drop off data"
  by (auto simp: poll_read_wait_def deliver_bytes split: prod.splits if_splits dest: deliver_bytes)

lemma poll_read_bytes:
  assumes "poll_read inner now cap s b = (r, s', b')"
  shows "delivered r @ held_back (ls_read_phase s') = held_back (ls_read_phase s) @ taken inner cap s b"
proof (cases "ls_read_phase s")
  case RIdle
  show ?thesis
  proof (cases "inner (min cap (io_chunk_cap b))")
    case Pending
    with RIdle assms show ?thesis by (auto simp: poll_read_def taken_def Let_def split: if_splits prod.splits bool.splits)
  next
    case (Ready a)
    then show ?thesis
      using assms RIdle by (cases a) (auto simp: Ready poll_read_def taken_def Let_def dest!: poll_read_wait_bytes
          split: if_splits prod.splits bool.splits)
  qed
next
  case (RWait data off rem)
  with assms show ?thesis by (auto simp: poll_read_def taken_def dest: poll_read_wait_bytes)
next
  case (RDeliver data off)
  with assms show ?thesis by (auto simp: poll_read_def taken_def dest: deliver_bytes split: prod.splits)
qed

lemma read_polls_bytes:
  "read_polls ps s b = (out, got, s', b') \<Longrightarrow> out @ held_back (ls_read_phase s') = held_back (ls_read_phase s) @ got"
proof (induction ps s b arbitrary: out got s' b' rule: read_polls.induct)
  case (2 inner now cap ps s b)
  obtain r s1 b1 where p: "poll_read inner now cap s b = (r, s1, b1)" by (cases "poll_read inner now cap s b") auto
  with 2 poll_read_bytes [OF p] show ?case
    by (fastforce split: prod.splits)
qed simp

section \<open>Writing is transparent\<close>

text \<open>A caller that has bytes to write polls with them until they are accepted, as \<open>write_all\<close> does. Result: what the inner
  stream was given, what is left to write, and whether no error was met.\<close>

fun write_polls ::
    "(nat \<times> (io_error + nat) poll list) list \<Rightarrow> bytes \<Rightarrow> LimitedStream \<Rightarrow> TokenBucket \<Rightarrow> bytes \<times> bytes \<times> bool" where
  "write_polls [] buf s b = ([], buf, True)"
| "write_polls ((now, rs) # ps) buf s b =
     (if buf = [] then ([], [], True)
      else (case poll_write now rs buf s b of
              (Pending, s', b', sent) \<Rightarrow> (case write_polls ps buf s' b' of (out, rest, ok) \<Rightarrow> (sent @ out, rest, ok))
            | (Ready (Inl e), s', b', sent) \<Rightarrow> (sent, buf, False)
            | (Ready (Inr n), s', b', sent) \<Rightarrow> (case write_polls ps (drop n buf) s' b' of (out, rest, ok) \<Rightarrow> (sent @ out, rest, ok))))"

text \<open>Between two polls: \<open>sent\<close> is how much of the caller's bytes the inner stream has got.\<close>

fun written_of :: "write_phase \<Rightarrow> nat" where
  "written_of (WWrite c w) = w"
| "written_of _ = 0"

definition fresh :: "LimitedStream \<Rightarrow> bool" where
  "fresh s \<longleftrightarrow> ls_write_phase s = WIdle \<and> ls_write_pending s = [] \<and> ls_write_report s = 0"

definition writing :: "LimitedStream \<Rightarrow> bytes \<Rightarrow> bytes \<Rightarrow> bool" where
  "writing s buf sent \<longleftrightarrow>
     (\<exists>d. take (ls_write_report s) buf = d @ ls_write_pending s \<and> ls_write_report s \<le> length buf \<and> 0 < ls_write_report s \<and>
        sent = d @ take (written_of (ls_write_phase s)) (ls_write_pending s) \<and>
        (\<forall>c w. ls_write_phase s = WWrite c w \<longrightarrow> w < min c (length (ls_write_pending s)) \<or> w = 0))"

lemma take_more:
  assumes "w \<le> c"
  shows "take w p @ take n (drop w (take c p)) = take (min (w + n) c) p"
proof -
  have "take w (take c p) = take w p" using assms by (simp only: take_take min_absorb1)
  then show ?thesis using take_add [of w n "take c p"] by (simp only: take_take)
qed

lemma write_loop_transparent:
  assumes "writing s buf sent" and "write_loop now rs s b = (r, s', b', out)"
  shows "case r of
      Pending \<Rightarrow> writing s' buf (sent @ out) \<and> (ls_write_phase s' \<noteq> WIdle)
    | Ready (Inl e) \<Rightarrow> prefix (sent @ out) buf \<and> fresh s'
    | Ready (Inr n) \<Rightarrow> sent @ out = take n buf \<and> 0 < n \<and> fresh s'"
  using assms
proof (induction now rs s b arbitrary: sent r s' b' out rule: write_loop.induct)
  case (1 now rs s b)
  obtain d where d: "take (ls_write_report s) buf = d @ ls_write_pending s" "ls_write_report s \<le> length buf" "0 < ls_write_report s"
    "sent = d @ take (written_of (ls_write_phase s)) (ls_write_pending s)"
    "\<And>c w. ls_write_phase s = WWrite c w \<Longrightarrow> w < min c (length (ls_write_pending s)) \<or> w = 0"
    using "1.prems"(1) unfolding writing_def by auto
  note eq = "1.prems"(2) [unfolded write_loop.simps [of now rs s b]]
  show ?case
  proof (cases "ls_write_phase s")
    case WIdle
    show ?thesis
    proof (cases "ls_write_pending s = []")
      case True
      with eq WIdle d show ?thesis by (auto simp: fresh_def)
    next
      case False
      let ?chunk = "min (length (ls_write_pending s)) (io_chunk_cap b)"
      have w: "writing (s\<lparr>ls_write_phase := WWrite ?chunk 0\<rparr>) buf sent"
        "writing (s\<lparr>ls_write_phase := WWait (wait_begin ?chunk) ?chunk\<rparr>) buf sent"
        using d WIdle by (auto simp: writing_def)
      obtain got b1 where tw: "try_wait_n ?chunk now b = (got, b1)" by fastforce
      show ?thesis
      proof (cases got)
        case True
        then show ?thesis
          using eq 1(1) [OF refl WIdle False refl tw [symmetric] _ w(1)] tw WIdle False by simp
      next
        case nowait: False
        then show ?thesis
          using eq 1(2) [OF refl WIdle False refl tw [symmetric] _ w(2)] tw WIdle False by (simp add: Let_def)
      qed
    qed
  next
    case (WWait rem chunk)
    obtain rem' b1 where wp: "wait_poll now rem b = (rem', b1)" by fastforce
    have w: "writing (s\<lparr>ls_write_phase := WWrite chunk 0\<rparr>) buf sent" "writing (s\<lparr>ls_write_phase := WWait rem' chunk\<rparr>) buf sent"
      using d WWait by (auto simp: writing_def)
    show ?thesis
    proof (cases "wait_done rem'")
      case True
      then show ?thesis using eq 1(3) [OF refl WWait wp [symmetric] True w(1)] wp WWait by simp
    next
      case False
      then show ?thesis using eq wp WWait w(2) by auto
    qed
  next
    case (WWrite chunk0 w)
    let ?p = "ls_write_pending s" and ?chunk = "min chunk0 (length (ls_write_pending s))"
    show ?thesis
    proof (cases "?chunk \<le> w")
      case True
      then have "w = 0" "?chunk = 0" using d(5) [OF WWrite] by auto
      then have w: "writing (s\<lparr>ls_write_pending := drop ?chunk ?p, ls_write_phase := WIdle\<rparr>) buf sent"
        using d WWrite by (auto simp: writing_def)
      show ?thesis using eq 1(4) [OF refl WWrite refl True w] True WWrite by (simp add: Let_def)
    next
      case False
      have sent: "sent = d @ take w ?p" "w < ?chunk" using d(4) WWrite False by auto
      have pre: "prefix sent buf"
        using d(1,2) sent(1) by (metis append_take_drop_id prefixI append.assoc)
      show ?thesis
      proof (cases "\<exists>n rs'. rs = Ready (Inr n) # rs' \<and> n \<noteq> 0")
        case True
        then obtain n rs' where rs: "rs = Ready (Inr n) # rs'" "n \<noteq> 0" by blast
        let ?sent = "take n (drop w (take ?chunk ?p))"
        let ?s = "if ?chunk \<le> w + n then s\<lparr>ls_write_pending := drop ?chunk ?p, ls_write_phase := WIdle\<rparr>
          else s\<lparr>ls_write_phase := WWrite ?chunk (w + n)\<rparr>"
        have more: "take w ?p @ ?sent = take (min (w + n) ?chunk) ?p"
          using sent(2) by (intro take_more) simp
        have w: "writing ?s buf (sent @ ?sent)"
        proof (cases "?chunk \<le> w + n")
          case True
          have "sent @ ?sent = d @ take ?chunk ?p" using more True sent(1) by (simp add: min_absorb2)
          moreover have "take (ls_write_report s) buf = (d @ take ?chunk ?p) @ drop ?chunk ?p" using d(1) by simp
          ultimately show ?thesis using d(2,3) True unfolding writing_def by (intro exI [of _ "d @ take ?chunk ?p"]) simp
        next
          case False
          then have "min (w + n) ?chunk = w + n" by linarith
          then have "sent @ ?sent = d @ take (w + n) ?p" using more sent(1) by simp
          moreover have "w + n < length ?p" using False by linarith
          ultimately show ?thesis using d(1-3) False unfolding writing_def by (intro exI [of _ d]) simp
        qed
        obtain r1 s1 b1 o1 where l: "write_loop now rs' ?s b = (r1, s1, b1, o1)" by (metis prod_cases4)
        have res: "r = r1" "s' = s1" "out = ?sent @ o1" using eq False WWrite rs l by (simp_all add: Let_def)
        show ?thesis
          unfolding res using 1(5) [OF refl WWrite refl False rs(1) refl refl rs(2) refl refl w l] by (simp only: append.assoc)
      next
        case stop: False
        show ?thesis
          using eq False WWrite stop pre d(1-3) sent "1.prems"(1)
          by (auto simp: Let_def write_failed_def fresh_def split: list.splits poll.splits sum.splits if_splits)
      qed
    qed
  qed
qed

lemma writing_begin:
  assumes "fresh s" and "buf \<noteq> []" and "0 < n" and "n \<le> length buf"
  shows "writing (s\<lparr>ls_write_report := n, ls_write_pending := take n buf\<rparr>) buf []"
  using assms by (auto simp: writing_def fresh_def)

lemma poll_write_transparent:
  assumes s: "fresh s \<and> sent = [] \<or> writing s buf sent \<and> ls_write_phase s \<noteq> WIdle" and buf: "buf \<noteq> []"
    and p: "poll_write now rs buf s b = (r, s', b', out)"
  shows "case r of
      Pending \<Rightarrow> writing s' buf (sent @ out) \<and> ls_write_phase s' \<noteq> WIdle
    | Ready (Inl e) \<Rightarrow> prefix (sent @ out) buf \<and> fresh s'
    | Ready (Inr n) \<Rightarrow> sent @ out = take n buf \<and> 0 < n \<and> fresh s'"
  using s
proof
  assume f: "fresh s \<and> sent = []"
  let ?n = "min (length buf) (io_chunk_cap b)"
  have "writing (s\<lparr>ls_write_report := ?n, ls_write_pending := take ?n buf\<rparr>) buf []"
    using f buf io_chunk_cap_pos [of b] by (intro writing_begin) auto
  moreover have "write_loop now rs (s\<lparr>ls_write_report := ?n, ls_write_pending := take ?n buf\<rparr>) b = (r, s', b', out)"
    using f buf p by (simp add: poll_write_def fresh_def Let_def)
  ultimately show ?thesis
    using write_loop_transparent f by simp
next
  assume w: "writing s buf sent \<and> ls_write_phase s \<noteq> WIdle"
  moreover have "write_loop now rs s b = (r, s', b', out)"
    using w p by (auto simp: poll_write_def split: write_phase.splits)
  ultimately show ?thesis using write_loop_transparent by blast
qed

lemma write_polls_transparent:
  assumes "fresh s \<and> sent = [] \<or> writing s buf sent \<and> ls_write_phase s \<noteq> WIdle"
    and "write_polls ps buf s b = (out, rest, ok)"
  shows "prefix (sent @ out) buf \<and> (rest = [] \<longrightarrow> sent @ out = buf)"
  using assms
proof (induction ps buf s b arbitrary: sent out rest ok rule: write_polls.induct)
  case (1 buf s b)
  then show ?case
    by (auto simp: writing_def fresh_def) (metis append_take_drop_id prefixI append.assoc)
next
  case (2 now rs ps buf s b)
  show ?case
  proof (cases "buf = []")
    case True
    then show ?thesis using 2(3,4) by (auto simp: writing_def)
  next
    case False
    obtain r s1 b1 o1 where p: "poll_write now rs buf s b = (r, s1, b1, o1)" by (metis prod_cases4)
    note t = poll_write_transparent [OF 2(3) False p]
    show ?thesis
    proof (cases r)
      case Pending
      obtain o2 where o2: "write_polls ps buf s1 b1 = (o2, rest, ok)" "out = o1 @ o2"
        using 2(4) p False Pending by (auto split: prod.splits)
      then show ?thesis using 2(1) [OF False p [symmetric] Pending refl refl, of "sent @ o1"] t Pending by simp
    next
      case (Ready a)
      show ?thesis
      proof (cases a)
        case (Inl e)
        then show ?thesis using 2(4) p False Ready t by auto
      next
        case (Inr n)
        obtain o2 where o2: "write_polls ps (drop n buf) s1 b1 = (o2, rest, ok)" "out = o1 @ o2"
          using 2(4) p False Ready Inr by (auto split: prod.splits)
        have "prefix o2 (drop n buf) \<and> (rest = [] \<longrightarrow> o2 = drop n buf)"
          using 2(2) [OF False p [symmetric] Ready Inr refl refl, of "[]"] o2(1) t Ready Inr by simp
        moreover have "sent @ o1 = take n buf" using t Ready Inr by simp
        ultimately show ?thesis
          using o2(2) by (metis append.assoc append_take_drop_id same_prefix_prefix)
      qed
    qed
  qed
qed

section \<open>Rounding\<close>

lemma log2_floor_bounds:
  assumes "0 < q"
  shows "2 powi log2_floor q \<le> q" and "q < 2 powi (log2_floor q + 1)"
proof -
  obtain n d where nd: "quotient_of q = (n, d)" by fastforce
  have d: "0 < d" using quotient_of_denom_pos [OF nd] .
  have q: "q = of_int n / of_int d" by (rule quotient_of_div [OF nd])
  have n: "0 < n" using assms d q by (simp add: zero_less_divide_iff)
  let ?a = "floorlog 2 (nat n)" and ?b = "floorlog 2 (nat d)"
  have pos: "1 \<le> ?a" "1 \<le> ?b" using n d by (auto simp: floorlog_def)
  have bn: "(2::rat) ^ (?a - 1) \<le> of_int n" "of_int n < (2::rat) ^ ?a"
    using floorlog_bounds_rat [of "nat n"] n by simp_all
  have bd: "(2::rat) ^ (?b - 1) \<le> of_int d" "of_int d < (2::rat) ^ ?b"
    using floorlog_bounds_rat [of "nat d"] d by simp_all
  have up: "q < 2 powi (int ?a - int ?b + 1)"
  proof -
    have "q \<le> of_int n / 2 ^ (?b - 1)" unfolding q using bd(1) n by (intro divide_left_mono) (auto simp: d)
    also have "\<dots> < 2 ^ ?a / 2 ^ (?b - 1)" using bn(2) by (simp add: divide_strict_right_mono)
    also have "\<dots> = 2 powi (int ?a - int (?b - 1))" by (simp add: power_int_add_nat)
    also have "int ?a - int (?b - 1) = int ?a - int ?b + 1" using pos by simp
    finally show ?thesis .
  qed
  have low: "2 powi (int ?a - int ?b - 1) \<le> q"
  proof -
    have "(2::rat) powi (int ?a - int ?b - 1) = 2 powi (int (?a - 1) - int ?b)" using pos by (simp add: algebra_simps of_nat_diff)
    also have "\<dots> = 2 ^ (?a - 1) / 2 ^ ?b" by (rule power_int_add_nat)
    also have "\<dots> \<le> of_int n / 2 ^ ?b" using bn(1) by (intro divide_right_mono) auto
    also have "\<dots> \<le> q" unfolding q using bd(2) n d by (intro divide_left_mono) auto
    finally show ?thesis .
  qed
  show "2 powi log2_floor q \<le> q" "q < 2 powi (log2_floor q + 1)"
    using up low by (auto simp: log2_floor_def nd Let_def)
qed

lemma round_half_even_ge: "of_int k \<le> q \<Longrightarrow> k \<le> round_half_even q"
  using le_floor_iff [of k q] by (auto simp: round_half_even_def Let_def)

lemma f64_round_ge_1:
  assumes "1 \<le> q"
  shows "1 \<le> f64_round q"
proof -
  let ?l = "log2_floor q"
  have b: "2 powi ?l \<le> q" "q < 2 powi (?l + 1)" using log2_floor_bounds assms by auto
  have l: "0 \<le> ?l"
  proof (rule ccontr)
    assume "\<not> 0 \<le> ?l"
    then have "(2::rat) powi (?l + 1) \<le> 2 powi 0" by (intro power_int_increasing) auto
    with b(2) assms show False by simp
  qed
  then have u: "max (?l - 52) (- 1074) = ?l - 52" by simp
  have e: "(2::rat) ^ 52 * 2 powi (?l - 52) = 2 powi ?l" by (simp add: power_int_diff)
  then have "of_int (2 ^ 52) \<le> q / 2 powi (?l - 52)" using b(1) by (simp add: pos_le_divide_eq)
  then have "(2::int) ^ 52 \<le> round_half_even (q / 2 powi (?l - 52))" by (rule round_half_even_ge)
  then have "(of_int (2 ^ 52) :: rat) \<le> of_int (round_half_even (q / 2 powi (?l - 52)))" by (simp only: of_int_le_iff)
  then have ge: "(2::rat) ^ 52 * 2 powi (?l - 52) \<le> of_int (round_half_even (q / 2 powi (?l - 52))) * 2 powi (?l - 52)"
    by (intro mult_right_mono) auto
  have "f64_round q = of_int (round_half_even (q / 2 powi (?l - 52))) * 2 powi (?l - 52)"
    using assms u by (simp add: f64_round_def Let_def)
  moreover have "(1::rat) \<le> 2 powi ?l" using power_int_increasing [of 0 ?l "2::rat"] l by simp
  ultimately show ?thesis using ge e by linarith
qed

section \<open>Properties\<close>

text \<open>A bucket of a thousand bytes a second with two tokens left.\<close>

definition demo_bucket :: TokenBucket where
  "demo_bucket = \<lparr>tb_rate = 1000, tb_burst = 1000, tb_tokens = 2, tb_last = 0\<rparr>"

lemma demo_take:
  "try_wait_n 1 0 demo_bucket = (True, demo_bucket\<lparr>tb_tokens := 1\<rparr>)"
  "try_wait_n 1 0 (demo_bucket\<lparr>tb_tokens := 1\<rparr>) = (True, demo_bucket\<lparr>tb_tokens := 0\<rparr>)"
proof -
  have r: "f64_round 0 = 0" "f64_round 1 = 1" "f64_round 2 = 2"
    using f64_round_nat [of 1] f64_round_nat [of 2] by (simp_all add: f64_round_def)
  have "\<not> f64_round (1000 + F64_EPSILON) < 1"
    using f64_round_ge_1 [of "1000 + F64_EPSILON"] by (simp add: F64_EPSILON_def)
  then show "try_wait_n 1 0 demo_bucket = (True, demo_bucket\<lparr>tb_tokens := 1\<rparr>)"
    "try_wait_n 1 0 (demo_bucket\<lparr>tb_tokens := 1\<rparr>) = (True, demo_bucket\<lparr>tb_tokens := 0\<rparr>)"
    by (simp_all add: try_wait_n_def bucket_refill_def as_secs_f64_def demo_bucket_def r Let_def)
qed

text \<open>C39. A stream with a limit reads what the inner stream has, in order: after any polls, with any state of the token bucket,
  what the reader got and what the stream holds back is what it took from the inner stream.\<close>

theorem limited_read_transparent:
  assumes "read_polls ps LimitedStream_new b = (out, got, s, b')"
  shows "out @ held_back (ls_read_phase s) = got"
  using read_polls_bytes [OF assms] by (simp add: LimitedStream_new_def)

theorem limited_read_transparent_witness:
  "fst (read_polls [(\<lambda>_. Ready (Inr [7]), 0, 1)] LimitedStream_new demo_bucket) = [7]"
proof -
  have "min 1 (io_chunk_cap b) = 1" for b using io_chunk_cap_pos [of b] by linarith
  then have r: "read_polls [(\<lambda>_. Ready (Inr [7]), 0, 1)] LimitedStream_new demo_bucket =
      (fst (read_polls [(\<lambda>_. Ready (Inr [7]), 0, 1)] LimitedStream_new demo_bucket), [7], LimitedStream_new, demo_bucket\<lparr>tb_tokens := 1\<rparr>)"
    by (simp add: poll_read_def taken_def LimitedStream_new_def demo_take [simplified] Let_def)
  show ?thesis using limited_read_transparent [OF r] by (simp add: LimitedStream_new_def)
qed

text \<open>C38. A stream with a limit writes what its caller writes: when a caller repeats a write until it is accepted, the inner
  stream gets a prefix of the caller's bytes, and all of them once the caller has nothing left.\<close>

theorem limited_write_transparent:
  assumes "write_polls ps buf LimitedStream_new b = (out, rest, ok)"
  shows "prefix out buf \<and> (rest = [] \<longrightarrow> out = buf)"
proof -
  have "fresh LimitedStream_new" by (simp add: fresh_def LimitedStream_new_def)
  then show ?thesis using write_polls_transparent [of LimitedStream_new "[]" buf ps b] assms by simp
qed

lemma write_one:
  assumes "try_wait_n 1 now b = (True, b')"
  shows "poll_write now [] [x] LimitedStream_new b =
      (Pending, LimitedStream_new\<lparr>ls_write_report := 1, ls_write_pending := [x], ls_write_phase := WWrite 1 0\<rparr>, b', [])"
    and "poll_write now [Ready (Inr 1)] [x] LimitedStream_new b = (Ready (Inr 1), LimitedStream_new, b', [x])"
proof -
  have m: "min (Suc 0) (io_chunk_cap b) = Suc 0" using io_chunk_cap_pos [of b] by linarith
  show "poll_write now [] [x] LimitedStream_new b =
      (Pending, LimitedStream_new\<lparr>ls_write_report := 1, ls_write_pending := [x], ls_write_phase := WWrite 1 0\<rparr>, b', [])"
    "poll_write now [Ready (Inr 1)] [x] LimitedStream_new b = (Ready (Inr 1), LimitedStream_new, b', [x])"
    using assms by (simp_all add: poll_write_def write_loop.simps LimitedStream_new_def m Let_def)
qed

theorem limited_write_transparent_witness:
  "fst (write_polls [(0, [Ready (Inr 1)])] [7] LimitedStream_new demo_bucket) = [7]"
proof -
  have "write_polls [(0, [Ready (Inr 1)])] [7] LimitedStream_new demo_bucket =
      (fst (write_polls [(0, [Ready (Inr 1)])] [7] LimitedStream_new demo_bucket), [], True)"
    using write_one(2) [OF demo_take(1)] by simp
  from limited_write_transparent [OF this] show ?thesis by simp
qed



end
