(* ===== verification/Spec2Isabelle.thy ===== *)
theory Spec2Isabelle
  imports Message_Codec Auth Gateway Tunnel_Tables Metrics Config_Client Proxy_Protocol Agent_Registry Control_Server
    Client_Service Session_Runs Limited_Stream
begin

text \<open>
  A verification of orbien, a reverse tunnel written in Rust: agents behind a firewall log in to a
  public server over one control connection, register tunnels (TCP, UDP, HTTP, HTTPS), and the
  server relays the connections of visitors to them over data connections.

  \<^bold>\<open>The program and its theories.\<close> The workspace has the crates \<open>core\<close> (shared code), \<open>server\<close>, \<open>client\<close>
  and \<open>desktop\<close> (a graphical client). A theory models a file or a few files of them.

  \<^item> \<open>Rust_Prelude\<close>, \<open>Rust_Utf8\<close>: what the code uses of the language and its standard library: machine
    integers, parsing and printing of numbers, \<open>trim\<close>, \<open>split_once\<close>, case folding, UTF-8 and the panics
    of slicing, the time of \<open>Instant\<close>. The collections \<open>str_simps\<close> and others evaluate them.
  \<^item> \<open>Message_Codec\<close> (\<open>core/src/msg\<close>): the messages and their frames: one type byte, a little-endian
    length, a JSON body. The JSON library is the record \<open>serde\<close> of functions. Frames read back, a
    stream of frames has one reading, the reader is bounded, and a writer that has no limit of its own
    can write frames the reader refuses.
  \<^item> \<open>Auth\<close> (\<open>core/src/auth\<close>): the login digest and the replay cache; HMAC and hex coding are the record
    \<open>crypto\<close>. The locale \<open>replay_guard\<close> states what a login relies on. An accepted login carries the
    right digest; a digest is accepted twice only when its cache entry has expired, which the model
    shows to be possible at exactly one instant, or in another spelling.
  \<^item> \<open>Tunnel_Tables\<close> (\<open>server/src/tunnel/ports.rs\<close>, \<open>registry.rs\<close>): the tables of ports and names, both
    instances of one locale of slot tables, in which a slot stays with its holder.
  \<^item> \<open>Gateway\<close> (\<open>server/src/tunnel/gw.rs\<close>, \<open>http.rs\<close>, \<open>https.rs\<close>): the routing tables, host names, basic
    authentication and the registration of the routes of a tunnel, with a locale for a table in which
    a tunnel registers all its routes or none, interpreted for both gateways.
  \<^item> \<open>Metrics\<close> (\<open>server/src/metrics\<close>): counters and the rolling windows of days and hours, which agree
    with a history of all bytes booked; the statistics of tunnels.
  \<^item> \<open>Config_Env\<close>, \<open>Config_Server\<close>, \<open>Config_Client\<close> (\<open>core/src/config\<close>): placeholders of the environment,
    defaults, completion, validation and loading; the TOML parser and the file system are arguments.
  \<^item> \<open>Proxy_Protocol\<close> (\<open>core/src/net/proxy_protocol.rs\<close>): building and incremental parsing of headers of
    both versions, with their round trips.
  \<^item> \<open>Agent_Registry\<close> (\<open>server/src/service/agent_registry.rs\<close>): which agent is online in which session.
  \<^item> \<open>Bandwidth\<close> (\<open>core/src/limit/quantity.rs\<close>): limits in megabits per second, with the rounding of
    double precision as exact rational arithmetic.
  \<^item> \<open>Tunnel_Manager\<close> (\<open>server/src/tunnel/manager.rs\<close>, \<open>tcp.rs\<close>, \<open>udp.rs\<close>): the tunnels of one session, and
    the record \<open>Shared\<close> of everything sessions share.
  \<^item> \<open>Control_Session\<close> (\<open>server/src/control/session\<close>): one session of the server: registration and closing
    of tunnels, heartbeat, shutdown, kick and destructor, and the message loop. A registration waits
    for sockets and locks: \<open>pc\<close> says where, \<open>reg_begin\<close> and \<open>reg_continue\<close> are the steps between the
    points at which other sessions run.
  \<^item> \<open>Control_Ledger\<close>, \<open>Control_Server\<close>: the abstract specification, a ledger of which session holds which
    name, port and route, the proof that each step of a session implements one move on it, and the
    system of any number of sessions whose steps interleave (\<open>server_run\<close>).

  \<^bold>\<open>State and effects.\<close> A Rust structure is a record whose fields carry a short prefix; a mutex-protected
  structure is passed and returned. Sockets appear as what the code learns of them: whether a bind
  succeeds, whether a write succeeds, the bytes a read returned. Time is an argument. Errors are
  values of a sum; a panic is the constructor \<open>Panics\<close> of \<open>exec\<close>. Machine integers are words where
  their wrapping matters, integers with the saturation written out in the counters.

  \<^bold>\<open>Fuel and termination.\<close> Every function is total with a termination proof; no definition uses fuel.

  \<^bold>\<open>Not modelled.\<close> The transports (TLS, QUIC, KCP, yamux, WebSocket), the accept loops and the relaying
  of bytes between sockets are calls of asynchronous libraries; the token bucket sleeps on a
  floating-point clock; the dashboard serves copies of the state over HTTP; \<open>desktop\<close> is a graphical
  interface over the client.
\<close>

end
